(* ===== verification/Prelude.thy ===== *)
theory Prelude
  imports Complex_Main
begin

text \<open>
  Shared vocabulary of the development: JavaScript numbers, the index arithmetic of
  \<open>slice\<close>, \<open>trim\<close>, association lists with JavaScript \<open>Map\<close> semantics (insertion
  order), and the collections of simplification rules the component theories fill.

  Strings are HOL strings: a character stands for one code unit below 256. The modelled
  code compares, concatenates, splits and hashes strings; where it counts code units the
  text is a list over an arbitrary type of code units instead.
\<close>

named_theorems frame_simps \<open>which fields an operation leaves alone\<close>
named_theorems inv_intros \<open>an operation keeps an invariant\<close>

subsection \<open>Errors as sums\<close>

text \<open>How a computation that throws on the left is taken apart when it returned.\<close>

named_theorems error_elims \<open>inversion of guarded computations that returned\<close>

lemma if_Inl_elim [error_elims]:
  "(if P then Inl e else x) = Inr c \<Longrightarrow> (\<not> P \<Longrightarrow> x = Inr c \<Longrightarrow> R) \<Longrightarrow> R"
  by (auto split: if_splits)

lemma case_Inl_elim [error_elims]:
  "case_sum Inl f x = Inr c \<Longrightarrow> (\<And>a. x = Inr a \<Longrightarrow> f a = Inr c \<Longrightarrow> R) \<Longrightarrow> R"
  by (auto split: sum.splits)

subsection \<open>Numbers\<close>

text \<open>A JavaScript number: a finite double is a rational; the others are named.\<close>

datatype jsnum = Fin rat | PosInf | NegInf | NaN

fun num_is_integer :: "jsnum \<Rightarrow> bool" where
  "num_is_integer (Fin q) = (of_int \<lfloor>q\<rfloor> = q)"
| "num_is_integer _ = False"

fun num_is_finite :: "jsnum \<Rightarrow> bool" where
  "num_is_finite (Fin q) = True"
| "num_is_finite _ = False"

text \<open>The integer of a number that passed \<open>Number.isInteger\<close>.\<close>

fun num_int :: "jsnum \<Rightarrow> int" where
  "num_int (Fin q) = \<lfloor>q\<rfloor>"
| "num_int _ = 0"

abbreviation num_of :: "int \<Rightarrow> jsnum" where
  "num_of i \<equiv> Fin (of_int i)"

lemma num_is_integer_of [simp]: "num_is_integer (num_of i)"
  by simp

lemma num_int_of [simp]: "num_int (num_of i) = i"
  by simp

subsection \<open>Slicing\<close>

text \<open>The start or end index of \<open>slice\<close>: a negative one counts from the end.\<close>

definition js_index :: "nat \<Rightarrow> int \<Rightarrow> nat" where
  "js_index n i = (if i < 0 then nat (max 0 (int n + i)) else min n (nat i))"

definition slice_from :: "'a list \<Rightarrow> int \<Rightarrow> 'a list" where
  "slice_from xs i = drop (js_index (length xs) i) xs"

definition slice_to :: "'a list \<Rightarrow> int \<Rightarrow> 'a list" where
  "slice_to xs i = take (js_index (length xs) i) xs"

lemma js_index_le: "js_index n i \<le> n"
  by (auto simp: js_index_def)

lemma slice_to_nonneg: "0 \<le> i \<Longrightarrow> slice_to xs i = take (nat i) xs"
  by (simp add: slice_to_def js_index_def min_def)

lemma slice_to_nat [simp]: "slice_to xs (int n) = take n xs"
  by (simp add: slice_to_nonneg)

text \<open>\<open>slice(-n)\<close> keeps the last \<open>n\<close> items, except that \<open>slice(-0)\<close> keeps all of them.\<close>

lemma slice_from_neg: "0 < n \<Longrightarrow> slice_from xs (- int n) = drop (length xs - n) xs"
  by (simp add: slice_from_def js_index_def nat_diff_distrib' max_def)

lemma slice_from_zero [simp]: "slice_from xs 0 = xs"
  by (simp add: slice_from_def js_index_def)

lemma slice_from_suffix: "\<exists>ys. xs = ys @ slice_from xs i"
  by (metis append_take_drop_id slice_from_def)

subsection \<open>Trimming\<close>

definition js_space :: "char \<Rightarrow> bool" where
  "js_space c \<longleftrightarrow> of_char c \<in> {9, 10, 11, 12, 13, 32, 160 :: nat}"

definition js_trim :: "string \<Rightarrow> string" where
  "js_trim s = rev (dropWhile js_space (rev (dropWhile js_space s)))"

text \<open>\<open>s.replace(/c+$/, "")\<close>.\<close>

definition strip_trailing :: "char \<Rightarrow> string \<Rightarrow> string" where
  "strip_trailing c s = rev (dropWhile (\<lambda>x. x = c) (rev s))"

lemma strip_trailing_last: "strip_trailing c s = [] \<or> last (strip_trailing c s) \<noteq> c"
proof (cases "dropWhile (\<lambda>x. x = c) (rev s)")
  case Nil
  then show ?thesis by (simp add: strip_trailing_def)
next
  case (Cons x xs)
  then have "x \<noteq> c"
    using hd_dropWhile [of "\<lambda>x. x = c" "rev s"] by simp
  with Cons show ?thesis by (simp add: strip_trailing_def)
qed

subsection \<open>Decimal text\<close>

fun nat_text :: "nat \<Rightarrow> string" where
  "nat_text n = (if n < 10 then [char_of (48 + n)] else nat_text (n div 10) @ [char_of (48 + n mod 10)])"

declare nat_text.simps [simp del]

subsection \<open>Splitting and joining\<close>

text \<open>\<open>s.split(c)\<close> for a one-character separator: always at least one part.\<close>

fun split_on :: "'a \<Rightarrow> 'a list \<Rightarrow> 'a list list" where
  "split_on c [] = [[]]"
| "split_on c (x # xs) =
     (if x = c then [] # split_on c xs
      else (case split_on c xs of [] \<Rightarrow> [[x]] | p # ps \<Rightarrow> (x # p) # ps))"

lemma split_on_nonempty [simp]: "split_on c xs \<noteq> []"
  by (induction xs) (auto split: list.splits)

text \<open>\<open>parts.join(c)\<close>.\<close>

fun join_with :: "'a list \<Rightarrow> 'a list list \<Rightarrow> 'a list" where
  "join_with sep [] = []"
| "join_with sep [p] = p"
| "join_with sep (p # q # ps) = p @ sep @ join_with sep (q # ps)"

lemma split_on_no_sep: "c \<notin> set xs \<Longrightarrow> split_on c xs = [xs]"
  by (induction xs) auto

lemma split_on_append:
  "c \<notin> set xs \<Longrightarrow> split_on c (xs @ c # ys) = xs # split_on c ys"
  by (induction xs) auto

lemma split_join:
  "ps \<noteq> [] \<Longrightarrow> (\<And>p. p \<in> set ps \<Longrightarrow> c \<notin> set p) \<Longrightarrow> split_on c (join_with [c] ps) = ps"
  by (induction "[c]" ps rule: join_with.induct) (auto simp: split_on_no_sep split_on_append)

lemma join_inj:
  assumes "join_with [c] ps = join_with [c] qs" "ps \<noteq> []" "qs \<noteq> []"
    and "\<And>p. p \<in> set ps \<Longrightarrow> c \<notin> set p" "\<And>q. q \<in> set qs \<Longrightarrow> c \<notin> set q"
  shows "ps = qs"
  using assms split_join by metis

subsection \<open>Maps with insertion order\<close>

text \<open>
  \<open>Map.set\<close> on an association list: an existing key keeps its place, a new one goes to
  the end. \<open>Map.get\<close> is \<open>map_of\<close>.
\<close>

fun amap_set :: "'k \<Rightarrow> 'v \<Rightarrow> ('k \<times> 'v) list \<Rightarrow> ('k \<times> 'v) list" where
  "amap_set k v [] = [(k, v)]"
| "amap_set k v ((k', v') # m) = (if k = k' then (k, v) # m else (k', v') # amap_set k v m)"

definition amap_delete :: "'k \<Rightarrow> ('k \<times> 'v) list \<Rightarrow> ('k \<times> 'v) list" where
  "amap_delete k m = filter (\<lambda>p. fst p \<noteq> k) m"

lemma map_of_amap_set [simp]: "map_of (amap_set k v m) = (map_of m)(k \<mapsto> v)"
  by (induction m) auto

lemma map_of_amap_delete [simp]: "map_of (amap_delete k m) = (map_of m)(k := None)"
  by (induction m) (auto simp: amap_delete_def)

lemma keys_amap_set: "fst ` set (amap_set k v m) = insert k (fst ` set m)"
  by (induction k v m rule: amap_set.induct) auto

lemma distinct_amap_set [simp]:
  "distinct (map fst m) \<Longrightarrow> distinct (map fst (amap_set k v m))"
  by (induction k v m rule: amap_set.induct) (simp_all add: keys_amap_set)

lemma distinct_amap_delete [simp]:
  "distinct (map fst m) \<Longrightarrow> distinct (map fst (amap_delete k m))"
  by (simp add: amap_delete_def distinct_map_filter)

lemma keys_amap_delete: "fst ` set (amap_delete k m) = fst ` set m - {k}"
  by (auto simp: amap_delete_def)

end
