(* ===== verification/Json.thy ===== *)
theory Json
  imports Prelude
begin

text \<open>
  JSON documents as \<open>JSON.parse\<close> returns them, the property reads the code makes on an
  \<open>unknown\<close> value (a missing property is \<open>undefined\<close>, here \<open>None\<close>), and the
  string literals \<open>JSON.stringify\<close> writes.
\<close>

datatype json =
    JNull
  | JBool bool
  | JNum jsnum
  | JStr string
  | JArr "json list"
  | JObj "(string \<times> json) list"

text \<open>\<open>typeof v === "object" && v !== null\<close>: arrays are objects too.\<close>

fun js_isObject :: "json \<Rightarrow> bool" where
  "js_isObject (JObj kvs) = True"
| "js_isObject (JArr xs) = True"
| "js_isObject _ = False"

text \<open>\<open>v[key]\<close> for a key that names no built-in property of an array.\<close>

fun jget :: "json \<Rightarrow> string \<Rightarrow> json option" where
  "jget (JObj kvs) k = map_of kvs k"
| "jget _ k = None"

text \<open>A value of \<open>number | null\<close> as \<open>JSON.stringify\<close> writes it; infinities become null.\<close>

fun json_of_num :: "jsnum \<Rightarrow> json" where
  "json_of_num (Fin q) = JNum (Fin q)"
| "json_of_num _ = JNull"

fun json_of_opt_int :: "int option \<Rightarrow> json" where
  "json_of_opt_int None = JNull"
| "json_of_opt_int (Some i) = JNum (num_of i)"

fun json_of_opt_str :: "string option \<Rightarrow> json" where
  "json_of_opt_str None = JNull"
| "json_of_opt_str (Some s) = JStr s"

subsection \<open>String literals\<close>

definition hex_digit :: "nat \<Rightarrow> char" where
  "hex_digit n = ''0123456789abcdef'' ! n"

definition json_escape :: "char \<Rightarrow> string" where
  "json_escape c =
     (if c = CHR 0x22 then [CHR 0x5C, CHR 0x22]
      else if c = CHR 0x5C then [CHR 0x5C, CHR 0x5C]
      else if c = CHR 0x08 then [CHR 0x5C, CHR ''b'']
      else if c = CHR 0x0C then [CHR 0x5C, CHR ''f'']
      else if c = CHR 0x0A then [CHR 0x5C, CHR ''n'']
      else if c = CHR 0x0D then [CHR 0x5C, CHR ''r'']
      else if c = CHR 0x09 then [CHR 0x5C, CHR ''t'']
      else if (of_char c :: nat) < 32
        then [CHR 0x5C, CHR ''u'', CHR ''0'', CHR ''0'',
              hex_digit (of_char c div 16), hex_digit (of_char c mod 16)]
      else [c])"

definition json_quote :: "string \<Rightarrow> string" where
  "json_quote s = [CHR 0x22] @ concat (map json_escape s) @ [CHR 0x22]"

text \<open>\<open>JSON.stringify\<close> of an array whose items are already written.\<close>

definition json_array_text :: "string list \<Rightarrow> string" where
  "json_array_text items = ''['' @ join_with '','' items @ '']''"

text \<open>
  Literals are uniquely readable: a decoder of one escape shows that no escape is a
  prefix of another and that none starts with the closing quote.
\<close>

definition hex_value :: "char \<Rightarrow> nat" where
  "hex_value c = (let n = of_char c in if n < 58 then n - 48 else n - 87)"

fun json_unescape :: "string \<Rightarrow> (char \<times> string) option" where
  "json_unescape [] = None"
| "json_unescape (c # r) =
     (if c = CHR 0x22 then None
      else if c \<noteq> CHR 0x5C then Some (c, r)
      else (case r of [] \<Rightarrow> None | d # r' \<Rightarrow>
        (if d = CHR ''u'' then
           (case r' of _ # _ # h # l # r'' \<Rightarrow> Some (char_of (16 * hex_value h + hex_value l), r'')
            | _ \<Rightarrow> None)
         else if d = CHR ''b'' then Some (CHR 0x08, r')
         else if d = CHR ''f'' then Some (CHR 0x0C, r')
         else if d = CHR ''n'' then Some (CHR 0x0A, r')
         else if d = CHR ''r'' then Some (CHR 0x0D, r')
         else if d = CHR ''t'' then Some (CHR 0x09, r')
         else Some (d, r'))))"

lemma hex_value_digits: "list_all (\<lambda>n. hex_value (hex_digit n) = n) [0..<16]"
  by code_simp

lemma hex_value_digit: "n < 16 \<Longrightarrow> hex_value (hex_digit n) = n"
  using hex_value_digits by (simp add: list_all_iff)

lemma unescape_escape: "json_unescape (json_escape c @ r) = Some (c, r)"
proof (cases "(of_char c :: nat) < 32")
  case True
  then have "char_of (16 * (of_char c div 16) + of_char c mod 16 :: nat) = c"
    by simp
  with True show ?thesis
    by (simp add: json_escape_def hex_value_digit)
next
  case False
  then show ?thesis by (simp add: json_escape_def)
qed

lemma escape_not_quote: "json_escape c @ r \<noteq> CHR 0x22 # r'"
  using unescape_escape [of c r] by auto

lemma escapes_readable:
  "concat (map json_escape s) @ CHR 0x22 # r = concat (map json_escape t) @ CHR 0x22 # r' \<Longrightarrow>
   s = t \<and> r = r'"
proof (induction s arbitrary: t)
  case Nil
  then show ?case
    using escape_not_quote [symmetric] by (cases t) auto
next
  case (Cons c s)
  show ?case
  proof (cases t)
    case Nil
    with Cons.prems show ?thesis
      using escape_not_quote by auto
  next
    case (Cons d t')
    have "Some (c, concat (map json_escape s) @ CHR 0x22 # r)
        = Some (d, concat (map json_escape t') @ CHR 0x22 # r')"
      using Cons.prems Cons unescape_escape by (metis append.assoc concat.simps(2) list.simps(9))
    then show ?thesis using Cons.IH Cons by auto
  qed
qed

lemma json_quote_readable:
  "json_quote s @ r = json_quote t @ r' \<Longrightarrow> s = t \<and> r = r'"
  using escapes_readable [of s r t r'] by (simp add: json_quote_def)

end
