(* ===== verification/KvIdentity.thy ===== *)
theory KvIdentity
  imports Json
begin

text \<open>
  Error taxonomy (\<open>errors.ts\<close>), runtime fingerprints and snapshot identities
  (\<open>snapshots/fingerprint.ts\<close>) and snapshot file names (\<open>snapshots/naming.ts\<close>) of
  \<open>plugins/dsh-kv-persist/src\<close>. Node's hash, URL and date functions are the fields of a
  \<open>platform\<close> value every operation takes.
\<close>

subsection \<open>Platform functions and errors\<close>

record platform =
  sha256Hex :: "string \<Rightarrow> string"
  urlOrigin :: "string \<Rightarrow> string option"
  dateParses :: "string \<Rightarrow> bool"
  isoString :: "int \<Rightarrow> string"

datatype kv_code =
    KV_BACKEND_UNAVAILABLE | KV_BACKEND_UNSUPPORTED | KV_SLOT_NOT_FOUND | KV_SLOT_BUSY
  | KV_SLOT_STATE_INVALID | KV_SNAPSHOT_NOT_FOUND | KV_SNAPSHOT_INCOMPATIBLE
  | KV_SNAPSHOT_CORRUPT | KV_SAVE_FAILED | KV_RESTORE_FAILED | KV_ERASE_FAILED
  | KV_MANIFEST_INVALID | KV_METADATA_IO | KV_OPERATION_TIMEOUT
  | KV_COORDINATOR_DISPOSED | KV_INVARIANT

text \<open>
  A thrown error: its code and what it is about (the source's message texts are for
  humans; the model keeps the subject they name).
\<close>

datatype kv_error = KvError kv_code string

datatype invalidation_reason =
    MODEL_FINGERPRINT_CHANGED | RESTORE_FAILED | MANIFEST_MALFORMED
  | SNAPSHOT_FILE_MISSING | EXPLICIT

fun reason_text :: "invalidation_reason \<Rightarrow> string" where
  "reason_text MODEL_FINGERPRINT_CHANGED = ''MODEL_FINGERPRINT_CHANGED''"
| "reason_text RESTORE_FAILED = ''RESTORE_FAILED''"
| "reason_text MANIFEST_MALFORMED = ''MANIFEST_MALFORMED''"
| "reason_text SNAPSHOT_FILE_MISSING = ''SNAPSHOT_FILE_MISSING''"
| "reason_text EXPLICIT = ''EXPLICIT''"

subsection \<open>Identities\<close>

record snapshot_identity =
  si_sessionId :: string
  si_provider :: string
  si_model :: string
  si_backend :: string
  si_serverInstanceKey :: string
  si_compatibilityVersion :: string

record route =
  rt_provider :: string
  rt_model :: string

definition SNAPSHOT_SCHEMA_GENERATION :: string where
  "SNAPSHOT_SCHEMA_GENERATION = ''1''"

definition deriveServerInstanceKey :: "platform \<Rightarrow> string \<Rightarrow> kv_error + string" where
  "deriveServerInstanceKey pf baseURL =
     (case urlOrigin pf baseURL of
        None \<Rightarrow> Inl (KvError KV_INVARIANT ''backend.baseURL'')
      | Some origin \<Rightarrow> Inr (''llama-'' @ take 12 (sha256Hex pf origin)))"

definition compatibilityVersion :: "platform \<Rightarrow> string \<Rightarrow> string option \<Rightarrow> string \<Rightarrow> string" where
  "compatibilityVersion pf backend runtimeKey model =
     take 16 (sha256Hex pf
       (json_array_text
         [json_quote backend,
          json_quote (case runtimeKey of None \<Rightarrow> '''' | Some k \<Rightarrow> k),
          json_quote model,
          SNAPSHOT_SCHEMA_GENERATION]))"

definition buildSnapshotIdentity ::
  "platform \<Rightarrow> string \<Rightarrow> route \<Rightarrow> string \<Rightarrow> string option \<Rightarrow> kv_error + snapshot_identity" where
  "buildSnapshotIdentity pf sessionId rt baseURL runtimeKey =
     (let backend = ''llama.cpp''
      in case deriveServerInstanceKey pf baseURL of
           Inl e \<Rightarrow> Inl e
         | Inr key \<Rightarrow> Inr
             \<lparr>si_sessionId = sessionId, si_provider = rt_provider rt, si_model = rt_model rt,
              si_backend = backend, si_serverInstanceKey = key,
              si_compatibilityVersion = compatibilityVersion pf backend runtimeKey (rt_model rt)\<rparr>)"

definition isIdentityCompatible :: "snapshot_identity \<Rightarrow> snapshot_identity \<Rightarrow> bool" where
  "isIdentityCompatible stored requested \<longleftrightarrow>
     si_backend stored = si_backend requested \<and>
     si_serverInstanceKey stored = si_serverInstanceKey requested \<and>
     si_provider stored = si_provider requested \<and>
     si_model stored = si_model requested \<and>
     si_compatibilityVersion stored = si_compatibilityVersion requested"

subsection \<open>File names\<close>

abbreviation NUL :: char where
  "NUL \<equiv> CHR 0x00"

definition identity_text :: "snapshot_identity \<Rightarrow> string" where
  "identity_text ident =
     join_with [NUL] [si_serverInstanceKey ident, si_provider ident, si_model ident, si_sessionId ident]"

definition snapshotFilename :: "platform \<Rightarrow> snapshot_identity \<Rightarrow> string" where
  "snapshotFilename pf ident =
     (let digest = sha256Hex pf (identity_text ident) in digest @ ''.bin'')"

definition lower_hex :: "char \<Rightarrow> bool" where
  "lower_hex c \<longleftrightarrow> c \<in> set ''0123456789abcdef''"

text \<open>\<open>/^[0-9a-f]{64}\.bin$/\<close>\<close>

definition plugin_filename :: "string \<Rightarrow> bool" where
  "plugin_filename f \<longleftrightarrow>
     length f = 68 \<and> list_all lower_hex (take 64 f) \<and> drop 64 f = ''.bin''"

definition assertPluginGeneratedFilename :: "string \<Rightarrow> kv_error + unit" where
  "assertPluginGeneratedFilename f =
     (if \<not> plugin_filename f then Inl (KvError KV_INVARIANT f) else Inr ())"

subsection \<open>What the digest is relied on for\<close>

text \<open>The documented shape of a SHA-256 hex digest.\<close>

definition sha_shape :: "platform \<Rightarrow> bool" where
  "sha_shape pf \<longleftrightarrow> (\<forall>s. length (sha256Hex pf s) = 64 \<and> list_all lower_hex (sha256Hex pf s))"

lemma snapshotFilename_plugin: "sha_shape pf \<Longrightarrow> plugin_filename (snapshotFilename pf ident)"
  by (simp add: sha_shape_def plugin_filename_def snapshotFilename_def Let_def)

lemma assert_snapshotFilename [simp]:
  "sha_shape pf \<Longrightarrow> assertPluginGeneratedFilename (snapshotFilename pf ident) = Inr ()"
  by (simp add: assertPluginGeneratedFilename_def snapshotFilename_plugin)

text \<open>A file name that passes the guard has no path separator, no parent reference.\<close>

definition filename_chars :: string where
  "filename_chars = ''0123456789abcdef.bin''"

lemma plugin_filename_chars: "plugin_filename f \<Longrightarrow> set f \<subseteq> set filename_chars"
proof -
  assume f: "plugin_filename f"
  have "set (take 64 f) \<subseteq> set filename_chars"
    using f unfolding plugin_filename_def list_all_iff lower_hex_def filename_chars_def by fastforce
  moreover have "set (drop 64 f) \<subseteq> set filename_chars"
    using f unfolding plugin_filename_def filename_chars_def by (simp only:) simp
  ultimately show "set f \<subseteq> set filename_chars"
    by (metis Un_least append_take_drop_id set_append)
qed

lemma plugin_filename_safe:
  assumes f: "plugin_filename f"
  shows "CHR ''/'' \<notin> set f \<and> CHR 0x5C \<notin> set f \<and> NUL \<notin> set f \<and> f \<noteq> ''..''"
proof -
  have "CHR ''/'' \<notin> set filename_chars" "CHR 0x5C \<notin> set filename_chars" "NUL \<notin> set filename_chars"
    by (simp_all add: filename_chars_def)
  moreover have "f \<noteq> ''..''"
    using f by (auto simp: plugin_filename_def)
  ultimately show ?thesis
    using plugin_filename_chars [OF f] by blast
qed

definition nul_free :: "snapshot_identity \<Rightarrow> bool" where
  "nul_free ident \<longleftrightarrow> NUL \<notin> set (si_serverInstanceKey ident) \<and> NUL \<notin> set (si_provider ident)
     \<and> NUL \<notin> set (si_model ident) \<and> NUL \<notin> set (si_sessionId ident)"

lemma identity_text_inj:
  assumes eq: "identity_text a = identity_text b" and a: "nul_free a" and b: "nul_free b"
  shows "si_serverInstanceKey a = si_serverInstanceKey b \<and> si_provider a = si_provider b \<and>
    si_model a = si_model b \<and> si_sessionId a = si_sessionId b"
proof -
  have "[si_serverInstanceKey a, si_provider a, si_model a, si_sessionId a]
      = [si_serverInstanceKey b, si_provider b, si_model b, si_sessionId b]"
  proof (rule join_inj [of NUL])
    fix p assume "p \<in> set [si_serverInstanceKey a, si_provider a, si_model a, si_sessionId a]"
    then show "NUL \<notin> set p" using a by (auto simp only: nul_free_def list.set insert_iff empty_iff)
  next
    fix p assume "p \<in> set [si_serverInstanceKey b, si_provider b, si_model b, si_sessionId b]"
    then show "NUL \<notin> set p" using b by (auto simp only: nul_free_def list.set insert_iff empty_iff)
  qed (simp_all only: eq [unfolded identity_text_def] list.simps not_False_eq_True)
  then show ?thesis by simp
qed

lemma compat_text_inj:
  assumes "json_array_text [json_quote b, json_quote k, json_quote m, g]
         = json_array_text [json_quote b', json_quote k', json_quote m', g]"
  shows "b = b' \<and> k = k' \<and> m = m'"
proof -
  have "json_quote b @ '','' @ json_quote k @ '','' @ json_quote m @ '','' @ g @ '']''
      = json_quote b' @ '','' @ json_quote k' @ '','' @ json_quote m' @ '','' @ g @ '']''"
    using assms by (simp add: json_array_text_def)
  then show ?thesis
    using json_quote_readable by (metis (no_types, lifting) append_Cons append_Nil list.inject)
qed

end
