(* ===== verification/KvConfig.thy ===== *)
theory KvConfig
  imports KvIdentity
begin

text \<open>
  Configuration of the kv-persist plugin
  (\<open>plugins/dsh-kv-persist/src/config.ts\<close>): the raw user-facing object, every field
  optional, and its resolution to defaulted, validated values. An optional nested object
  is an \<open>option\<close>; \<open>a?.b\<close> is \<open>Option.bind\<close>, \<open>x ?? d\<close> is \<open>or_default\<close>.
\<close>

subsection \<open>The raw and the resolved configuration\<close>

record raw_backend =
  rb_type :: "string option"
  rb_baseURL :: "string option"
  rb_apiKey :: "string option"
  rb_requestTimeoutMs :: "jsnum option"

record raw_checkpoint =
  rk_onSwitch :: "bool option"
  rk_onShutdown :: "bool option"
  rk_onSessionFlush :: "bool option"
  rk_idleMs :: "jsnum option"
  rk_shutdownGraceMs :: "jsnum option"
  rk_onTurnEnd :: "bool option"
  rk_onStepEnd :: "bool option"

record raw_restore =
  rr_enabled :: "bool option"
  rr_verify :: "bool option"

record raw_failure =
  rf_strict :: "bool option"
  rf_maxConsecutiveFailures :: "jsnum option"
  rf_cooldownMs :: "jsnum option"

record raw_config =
  rc_enabled :: "bool option"
  rc_backend :: "raw_backend option"
  rc_providers :: "string list option"
  rc_mode :: "string option"
  rc_slotId :: "jsnum option"
  rc_runtimeKey :: "string option"
  rc_checkpoint :: "raw_checkpoint option"
  rc_restore :: "raw_restore option"
  rc_failure :: "raw_failure option"
  rc_metadataPath :: "string option"
  rc_loggingLevel :: "string option"

record kv_config =
  c_enabled :: bool
  c_backendType :: string
  c_baseURL :: string
  c_apiKey :: "string option"
  c_requestTimeoutMs :: int
  c_providers :: "string list"
  c_mode :: string
  c_slotId :: int
  c_runtimeKey :: "string option"
  c_onSwitch :: bool
  c_onShutdown :: bool
  c_onSessionFlush :: bool
  c_idleMs :: int
  c_shutdownGraceMs :: int
  c_onTurnEnd :: bool
  c_onStepEnd :: bool
  c_restoreEnabled :: bool
  c_restoreVerify :: bool
  c_strict :: bool
  c_maxConsecutiveFailures :: int
  c_cooldownMs :: int
  c_metadataPath :: "string option"
  c_logLevel :: string

text \<open>\<open>KV_PERSIST_DEFAULTS\<close>\<close>

definition kv_defaults :: kv_config where
  "kv_defaults =
     \<lparr>c_enabled = True, c_backendType = ''llama.cpp'', c_baseURL = ''http://127.0.0.1:8080'',
      c_apiKey = None, c_requestTimeoutMs = 15000, c_providers = [], c_mode = ''single-slot'',
      c_slotId = 0, c_runtimeKey = None, c_onSwitch = True, c_onShutdown = True,
      c_onSessionFlush = True, c_idleMs = 30000, c_shutdownGraceMs = 5000,
      c_onTurnEnd = False, c_onStepEnd = False, c_restoreEnabled = True,
      c_restoreVerify = True, c_strict = False, c_maxConsecutiveFailures = 3,
      c_cooldownMs = 60000, c_metadataPath = None, c_logLevel = ''info''\<rparr>"

subsection \<open>Resolution\<close>

definition or_default :: "'a option \<Rightarrow> 'a \<Rightarrow> 'a" where
  "or_default x d = (case x of None \<Rightarrow> d | Some v \<Rightarrow> v)"

text \<open>\<open>s && s.length > 0 ? s : null\<close>\<close>

definition non_blank :: "string option \<Rightarrow> string option" where
  "non_blank x = (case x of None \<Rightarrow> None | Some s \<Rightarrow> if length s > 0 then Some s else None)"

definition requireInt :: "string \<Rightarrow> jsnum option \<Rightarrow> int \<Rightarrow> int \<Rightarrow> kv_error + int" where
  "requireInt name value fallback minimum =
     (case value of
        None \<Rightarrow> Inr fallback
      | Some v \<Rightarrow>
          if \<not> num_is_integer v \<or> num_int v < minimum
          then Inl (KvError KV_INVARIANT name)
          else Inr (num_int v))"

definition requirePositiveMs :: "string \<Rightarrow> jsnum option \<Rightarrow> int \<Rightarrow> kv_error + int" where
  "requirePositiveMs name value fallback = requireInt name value fallback 1"

definition resolveKvPersistConfig :: "raw_config \<Rightarrow> kv_error + kv_config" where
  "resolveKvPersistConfig input =
     (let b = rc_backend input; k = rc_checkpoint input; d = kv_defaults;
          typ = Option.bind b rb_type;
          logLevel = or_default (rc_loggingLevel input) (c_logLevel d);
          baseURL = js_trim (or_default (Option.bind b rb_baseURL) (c_baseURL d))
      in
      if typ \<noteq> None \<and> typ \<noteq> Some ''llama.cpp'' then Inl (KvError KV_BACKEND_UNSUPPORTED ''backend.type'')
      else if rc_mode input \<noteq> None \<and> rc_mode input \<noteq> Some ''single-slot''
              \<and> rc_mode input \<noteq> Some ''managed-slots'' then Inl (KvError KV_INVARIANT ''mode'')
      else if rc_mode input = Some ''managed-slots'' then Inl (KvError KV_BACKEND_UNSUPPORTED ''mode'')
      else if logLevel \<noteq> ''debug'' \<and> logLevel \<noteq> ''info'' \<and> logLevel \<noteq> ''off''
        then Inl (KvError KV_INVARIANT ''logging.level'')
      else if length baseURL = 0 then Inl (KvError KV_INVARIANT ''backend.baseURL'')
      else
       (case requirePositiveMs ''backend.requestTimeoutMs'' (Option.bind b rb_requestTimeoutMs)
               (c_requestTimeoutMs d) of Inl e \<Rightarrow> Inl e | Inr requestTimeoutMs \<Rightarrow>
        case requireInt ''slotId'' (rc_slotId input) (c_slotId d) 0 of Inl e \<Rightarrow> Inl e | Inr slotId \<Rightarrow>
        case requireInt ''checkpoint.idleMs'' (Option.bind k rk_idleMs) (c_idleMs d) 0 of
          Inl e \<Rightarrow> Inl e | Inr idleMs \<Rightarrow>
        case requirePositiveMs ''checkpoint.shutdownGraceMs'' (Option.bind k rk_shutdownGraceMs)
               (c_shutdownGraceMs d) of Inl e \<Rightarrow> Inl e | Inr shutdownGraceMs \<Rightarrow>
        case requireInt ''failure.maxConsecutiveFailures''
               (Option.bind (rc_failure input) rf_maxConsecutiveFailures)
               (c_maxConsecutiveFailures d) 1 of Inl e \<Rightarrow> Inl e | Inr maxConsecutiveFailures \<Rightarrow>
        case requireInt ''failure.cooldownMs'' (Option.bind (rc_failure input) rf_cooldownMs)
               (c_cooldownMs d) 1 of Inl e \<Rightarrow> Inl e | Inr cooldownMs \<Rightarrow>
        Inr \<lparr>c_enabled = or_default (rc_enabled input) (c_enabled d),
             c_backendType = or_default typ ''llama.cpp'',
             c_baseURL = strip_trailing CHR ''/'' baseURL,
             c_apiKey = non_blank (Option.bind b rb_apiKey),
             c_requestTimeoutMs = requestTimeoutMs,
             c_providers = filter (\<lambda>p. length p > 0) (or_default (rc_providers input) []),
             c_mode = or_default (rc_mode input) (c_mode d),
             c_slotId = slotId,
             c_runtimeKey = non_blank (rc_runtimeKey input),
             c_onSwitch = or_default (Option.bind k rk_onSwitch) (c_onSwitch d),
             c_onShutdown = or_default (Option.bind k rk_onShutdown) (c_onShutdown d),
             c_onSessionFlush = or_default (Option.bind k rk_onSessionFlush) (c_onSessionFlush d),
             c_idleMs = idleMs,
             c_shutdownGraceMs = shutdownGraceMs,
             c_onTurnEnd = or_default (Option.bind k rk_onTurnEnd) (c_onTurnEnd d),
             c_onStepEnd = or_default (Option.bind k rk_onStepEnd) (c_onStepEnd d),
             c_restoreEnabled = or_default (Option.bind (rc_restore input) rr_enabled) (c_restoreEnabled d),
             c_restoreVerify = or_default (Option.bind (rc_restore input) rr_verify) (c_restoreVerify d),
             c_strict = or_default (Option.bind (rc_failure input) rf_strict) (c_strict d),
             c_maxConsecutiveFailures = maxConsecutiveFailures,
             c_cooldownMs = cooldownMs,
             c_metadataPath = (case rc_metadataPath input of None \<Rightarrow> None
               | Some p \<Rightarrow> if length p > 0 \<and> length (js_trim p) > 0 then Some (js_trim p) else None),
             c_logLevel = logLevel\<rparr>))"

definition isManagedProvider :: "kv_config \<Rightarrow> string \<Rightarrow> bool" where
  "isManagedProvider cfg provider \<longleftrightarrow> List.member (c_providers cfg) provider"

subsection \<open>What resolution guarantees\<close>

text \<open>The bounds and closed vocabularies every resolved configuration satisfies.\<close>

definition config_ok :: "kv_config \<Rightarrow> bool" where
  "config_ok cfg \<longleftrightarrow>
     c_backendType cfg = ''llama.cpp'' \<and> c_mode cfg = ''single-slot'' \<and>
     c_logLevel cfg \<in> {''debug'', ''info'', ''off''} \<and>
     1 \<le> c_requestTimeoutMs cfg \<and> 0 \<le> c_slotId cfg \<and> 0 \<le> c_idleMs cfg \<and>
     1 \<le> c_shutdownGraceMs cfg \<and> 1 \<le> c_maxConsecutiveFailures cfg \<and> 1 \<le> c_cooldownMs cfg \<and>
     [] \<notin> set (c_providers cfg) \<and> c_apiKey cfg \<noteq> Some [] \<and> c_runtimeKey cfg \<noteq> Some [] \<and>
     c_metadataPath cfg \<noteq> Some [] \<and>
     (c_baseURL cfg = [] \<or> last (c_baseURL cfg) \<noteq> CHR ''/'')"

lemma requireInt_bound: "requireInt name v d m = Inr i \<Longrightarrow> m \<le> d \<Longrightarrow> m \<le> i"
  by (auto simp: requireInt_def split: option.splits if_splits)

lemma requireInt_error: "requireInt name v d m = Inl e \<Longrightarrow> e = KvError KV_INVARIANT name"
  by (auto simp: requireInt_def split: option.splits if_splits)

lemmas requireInt_cases =
  requireInt_bound [where m = 0, simplified] requireInt_bound [where m = 1]

lemma non_blank_not_empty: "non_blank x \<noteq> Some []"
  by (auto simp: non_blank_def split: option.splits)

lemma or_default_cases: "x = None \<or> x = Some v \<Longrightarrow> or_default x v = v"
  by (auto simp: or_default_def)

lemma resolve_config_ok: "resolveKvPersistConfig input = Inr cfg \<Longrightarrow> config_ok cfg"
  unfolding resolveKvPersistConfig_def Let_def requirePositiveMs_def
  apply (elim error_elims)
  apply (drule sum.inject(2) [THEN iffD1])
  apply (hypsubst_thin)
  unfolding config_ok_def
  apply (intro conjI)
  apply (simp_all add: kv_defaults_def requireInt_cases non_blank_not_empty
      strip_trailing_last or_default_cases split: option.splits)
  done

end
