(* ===== verification/KvState.thy ===== *)
theory KvState
  imports KvConfig
begin

text \<open>
  Session and slot state of the coordinator, the checkpoint policy and the counters:
  \<open>coordinator/state-machine.ts\<close>, \<open>coordinator/checkpoint-policy.ts\<close> and
  \<open>observability/metrics.ts\<close> of \<open>plugins/dsh-kv-persist/src\<close>.
\<close>

subsection \<open>State\<close>

datatype lifecycle =
    LNone | LCold | LRestoring | LActiveClean | LActiveDirty | LSaving | LSaved | LInvalid

datatype slot_state =
    SUnknown | SIdle | SRestoring | SReady | SInference | SDirty | SSaving | SBroken

record managed_slot =
  sl_id :: int
  sl_owner :: "string option"
  sl_snapshotRevision :: "string option"
  sl_state :: slot_state
  sl_lastUsedAt :: "int option"

datatype snapshot_kind = Saved | SkippedClean | SkippedNotOwner | Failed

datatype restore_kind = AlreadyActive | ColdStart | Restored | ColdFallback

text \<open>The \<open>error\<close> text of a result: the message of a caught error, or a fixed note.\<close>

datatype result_note = CaughtError kv_error | Note string

record snapshot_result =
  sr_kind :: snapshot_kind
  sr_sessionId :: string
  sr_revision :: nat
  sr_bytes :: "int option"
  sr_error :: "result_note option"

record restore_outcome =
  ro_kind :: restore_kind
  ro_sessionId :: string
  ro_tokens :: "int option"
  ro_bytes :: "int option"
  ro_durationMs :: "int option"
  ro_error :: "result_note option"

text \<open>
  \<open>saveInFlight\<close> holds the result the pending promise will settle with.
\<close>

record session_runtime =
  sn_sessionId :: string
  sn_route :: route
  sn_dirtyRevision :: nat
  sn_persistedRevision :: nat
  sn_saveInFlight :: "snapshot_result option"
  sn_lifecycle :: lifecycle

definition createManagedSlot :: "int \<Rightarrow> managed_slot" where
  "createManagedSlot n =
     \<lparr>sl_id = n, sl_owner = None, sl_snapshotRevision = None, sl_state = SUnknown,
      sl_lastUsedAt = None\<rparr>"

definition createSessionRuntime :: "string \<Rightarrow> route \<Rightarrow> session_runtime" where
  "createSessionRuntime sid rt =
     \<lparr>sn_sessionId = sid, sn_route = rt, sn_dirtyRevision = 0, sn_persistedRevision = 0,
      sn_saveInFlight = None, sn_lifecycle = LNone\<rparr>"

definition isDirty :: "session_runtime \<Rightarrow> bool" where
  "isDirty r \<longleftrightarrow> sn_dirtyRevision r > sn_persistedRevision r"

definition markDirty :: "session_runtime \<Rightarrow> session_runtime" where
  "markDirty r = r\<lparr>sn_dirtyRevision := sn_dirtyRevision r + 1, sn_lifecycle := LActiveDirty\<rparr>"

definition markPersisted :: "nat \<Rightarrow> session_runtime \<Rightarrow> session_runtime" where
  "markPersisted revision r =
     (let r1 = r\<lparr>sn_persistedRevision := max (sn_persistedRevision r) revision\<rparr>
      in r1\<lparr>sn_lifecycle := (if isDirty r1 then LActiveDirty else LSaved)\<rparr>)"

subsection \<open>Checkpoint policy\<close>

datatype checkpoint_trigger =
    TSwitch | TIdle | TSessionFlush | TSessionDisposed | TTurnEnd | TShutdown | TManual

fun trigger_enabled :: "kv_config \<Rightarrow> checkpoint_trigger \<Rightarrow> bool" where
  "trigger_enabled c TSwitch = c_onSwitch c"
| "trigger_enabled c TIdle = (c_idleMs c > 0)"
| "trigger_enabled c TSessionFlush = c_onSessionFlush c"
| "trigger_enabled c TSessionDisposed = (c_onSwitch c \<or> c_onShutdown c)"
| "trigger_enabled c TTurnEnd = c_onTurnEnd c"
| "trigger_enabled c TShutdown = c_onShutdown c"
| "trigger_enabled c TManual = True"

definition shouldCheckpoint :: "kv_config \<Rightarrow> session_runtime option \<Rightarrow> checkpoint_trigger \<Rightarrow> bool" where
  "shouldCheckpoint c runtime trigger =
     (case runtime of None \<Rightarrow> False
      | Some r \<Rightarrow> if \<not> isDirty r then False else trigger_enabled c trigger)"

subsection \<open>Counters\<close>

record kv_counters =
  ct_restores :: nat
  ct_restoreHits :: nat
  ct_restoreFailures :: nat
  ct_coldPrefills :: nat
  ct_saves :: nat
  ct_saveFailures :: nat
  ct_erases :: nat
  ct_slotSwitches :: nat
  ct_auxiliaryRequests :: nat
  ct_circuitSkips :: nat
  ct_restoreDurationMs :: int
  ct_saveDurationMs :: int

definition new_counters :: kv_counters where
  "new_counters =
     \<lparr>ct_restores = 0, ct_restoreHits = 0, ct_restoreFailures = 0, ct_coldPrefills = 0,
      ct_saves = 0, ct_saveFailures = 0, ct_erases = 0, ct_slotSwitches = 0,
      ct_auxiliaryRequests = 0, ct_circuitSkips = 0, ct_restoreDurationMs = 0,
      ct_saveDurationMs = 0\<rparr>"

subsection \<open>Generations\<close>

text \<open>A session's persisted generation never passes its dirty one, and no save is pending.\<close>

definition runtime_ok :: "session_runtime \<Rightarrow> bool" where
  "runtime_ok r \<longleftrightarrow> sn_persistedRevision r \<le> sn_dirtyRevision r \<and> sn_saveInFlight r = None"

lemma create_runtime_ok [simp]: "runtime_ok (createSessionRuntime sid rt)"
  by (simp add: runtime_ok_def createSessionRuntime_def)

lemma markDirty_ok: "runtime_ok r \<Longrightarrow> runtime_ok (markDirty r)"
  by (simp add: runtime_ok_def markDirty_def)

lemma markDirty_isDirty: "runtime_ok r \<Longrightarrow> isDirty (markDirty r)"
  by (simp add: runtime_ok_def markDirty_def isDirty_def)

lemma markPersisted_simps [simp]:
  "sn_dirtyRevision (markPersisted n r) = sn_dirtyRevision r"
  "sn_persistedRevision (markPersisted n r) = max (sn_persistedRevision r) n"
  "sn_saveInFlight (markPersisted n r) = sn_saveInFlight r"
  "sn_route (markPersisted n r) = sn_route r"
  by (simp_all add: markPersisted_def Let_def)

lemma markPersisted_clean:
  "sn_dirtyRevision r \<le> n \<Longrightarrow> \<not> isDirty (markPersisted n r) \<and> sn_lifecycle (markPersisted n r) = LSaved"
  by (simp add: isDirty_def markPersisted_def Let_def)

lemma markPersisted_ok:
  "n \<le> sn_dirtyRevision r \<Longrightarrow> runtime_ok r \<Longrightarrow> runtime_ok (markPersisted n r)"
  by (simp add: runtime_ok_def)

lemma shouldCheckpoint_dirty: "shouldCheckpoint c (Some r) t \<Longrightarrow> isDirty r"
  by (simp add: shouldCheckpoint_def split: if_splits)

lemma shouldCheckpoint_None [simp]: "\<not> shouldCheckpoint c None t"
  by (simp add: shouldCheckpoint_def)

end
