(* ===== verification/KvBreaker.thy ===== *)
theory KvBreaker
  imports Prelude
begin

text \<open>
  \<open>CircuitBreaker\<close> of \<open>plugins/dsh-kv-persist/src/coordinator/circuit-breaker.ts\<close>: the
  persistence circuit breaker. Its private fields are the record, each method one
  definition. The specification reads the breaker off the history of outcomes.
\<close>

datatype circuit_state = Healthy | Degraded | Open | HalfOpen

record circuit_breaker =
  br_max :: int
  br_cooldown :: int
  br_failures :: nat
  br_openUntil :: int
  br_state :: circuit_state

definition new_breaker :: "int \<Rightarrow> int \<Rightarrow> circuit_breaker" where
  "new_breaker maxFailures cooldown =
     \<lparr>br_max = maxFailures, br_cooldown = cooldown, br_failures = 0, br_openUntil = 0,
      br_state = Healthy\<rparr>"

text \<open>\<open>allows\<close> returns the verdict and may move an expired open circuit to half-open.\<close>

definition br_allows :: "int \<Rightarrow> circuit_breaker \<Rightarrow> bool \<times> circuit_breaker" where
  "br_allows now b =
     (if br_state b = Open then
        (if now < br_openUntil b then (False, b) else (True, b\<lparr>br_state := HalfOpen\<rparr>))
      else (True, b))"

definition br_isOpen :: "int \<Rightarrow> circuit_breaker \<Rightarrow> bool" where
  "br_isOpen now b \<longleftrightarrow> br_state b = Open \<and> now < br_openUntil b"

definition br_recordSuccess :: "circuit_breaker \<Rightarrow> circuit_breaker" where
  "br_recordSuccess b =
     (let b1 = b\<lparr>br_failures := 0\<rparr>
      in if br_state b1 \<noteq> Healthy then b1\<lparr>br_state := Healthy\<rparr> else b1)"

definition br_recordFailure :: "int \<Rightarrow> circuit_breaker \<Rightarrow> circuit_breaker" where
  "br_recordFailure now b =
     (let b1 = b\<lparr>br_failures := br_failures b + 1\<rparr>
      in if int (br_failures b1) \<ge> br_max b1
         then b1\<lparr>br_state := Open, br_openUntil := now + br_cooldown b1\<rparr>
         else if br_state b1 = Healthy then b1\<lparr>br_state := Degraded\<rparr> else b1)"

definition br_reset :: "circuit_breaker \<Rightarrow> circuit_breaker" where
  "br_reset b = b\<lparr>br_failures := 0, br_openUntil := 0, br_state := Healthy\<rparr>"

subsection \<open>The specification: an interface and its history\<close>

datatype breaker_event = Success | Failure int

text \<open>
  What a client of a failure gate may rely on: a success clears it, a failure counts one
  more, and it blocks exactly when enough failures in a row were seen and the last of
  them is recent.
\<close>

locale failure_gate =
  fixes success :: "'b \<Rightarrow> 'b"
    and failure :: "int \<Rightarrow> 'b \<Rightarrow> 'b"
    and blocks :: "int \<Rightarrow> 'b \<Rightarrow> bool"
    and streak :: "'b \<Rightarrow> nat"
    and limit :: "'b \<Rightarrow> int"
    and cool :: "'b \<Rightarrow> int"
    and good :: "'b \<Rightarrow> bool"
  assumes good_success: "good b \<Longrightarrow> good (success b)"
    and good_failure: "good b \<Longrightarrow> good (failure t b)"
    and streak_success: "good b \<Longrightarrow> streak (success b) = 0"
    and streak_failure: "good b \<Longrightarrow> streak (failure t b) = Suc (streak b)"
    and limit_success: "limit (success b) = limit b"
    and limit_failure: "limit (failure t b) = limit b"
    and cool_success: "cool (success b) = cool b"
    and cool_failure: "cool (failure t b) = cool b"
    and success_unblocks: "good b \<Longrightarrow> \<not> blocks now (success b)"
    and failure_blocks: "good b \<Longrightarrow>
      blocks now (failure t b) \<longleftrightarrow> limit b \<le> int (Suc (streak b)) \<and> now < t + cool b"
begin

fun run :: "breaker_event list \<Rightarrow> 'b \<Rightarrow> 'b" where
  "run [] b = b"
| "run (Success # es) b = run es (success b)"
| "run (Failure t # es) b = run es (failure t b)"

lemma run_snoc:
  "run (es @ [e]) b = (case e of Success \<Rightarrow> success (run es b) | Failure t \<Rightarrow> failure t (run es b))"
  by (induction es b rule: run.induct) (auto split: breaker_event.splits)

lemma run_good: "good b \<Longrightarrow> good (run es b)"
  by (induction es b rule: run.induct) (auto intro: good_success good_failure)

lemma run_params: "limit (run es b) = limit b" "cool (run es b) = cool b"
  by (induction es b rule: run.induct)
    (auto simp: limit_success limit_failure cool_success cool_failure)

fun trailing :: "breaker_event list \<Rightarrow> nat \<Rightarrow> nat" where
  "trailing [] n = n"
| "trailing (Success # es) n = trailing es 0"
| "trailing (Failure t # es) n = trailing es (Suc n)"

lemma run_streak: "good b \<Longrightarrow> streak (run es b) = trailing es (streak b)"
  by (induction es b rule: run.induct)
    (auto simp: streak_success streak_failure intro: good_success good_failure)

lemma blocks_after_failure:
  assumes "good b"
  shows "blocks now (run (es @ [Failure t]) b) \<longleftrightarrow>
    limit b \<le> int (Suc (trailing es (streak b))) \<and> now < t + cool b"
  using assms by (simp add: run_snoc failure_blocks run_good run_streak run_params)

lemma not_blocks_after_success:
  "good b \<Longrightarrow> \<not> blocks now (run (es @ [Success]) b)"
  by (simp add: run_snoc success_unblocks run_good)

end

interpretation breaker: failure_gate br_recordSuccess br_recordFailure br_isOpen br_failures
  br_max br_cooldown "\<lambda>b. br_state b = Open \<longrightarrow> br_max b \<le> int (br_failures b)"
  by unfold_locales
    (auto simp: br_recordSuccess_def br_recordFailure_def br_isOpen_def Let_def)

end
