(* ===== verification/KvBackend.thy ===== *)
theory KvBackend
  imports KvIdentity
begin

text \<open>
  The llama.cpp backend (\<open>plugins/dsh-kv-persist/src/backends\<close>): the HTTP client of the
  slots API with its response validation, the probe and the backend-neutral interface.
  The server behind \<open>fetch\<close> is a parameter over a world \<open>'w\<close>: \<open>None\<close> is a rejected
  fetch (unreachable, or aborted by the timeout), a reply is its status and what
  \<open>JSON.parse\<close> makes of its body (\<open>None\<close> when it does not parse).
\<close>

datatype http_method = GET | POST

datatype http_path = SlotsPath | SlotActionPath int string

record http_request =
  rq_method :: http_method
  rq_path :: http_path
  rq_body :: "json option"
  rq_auth :: "string option"

record http_reply =
  hr_status :: int
  hr_body :: "json option"

type_synonym 'w http = "http_request \<Rightarrow> 'w \<Rightarrow> http_reply option \<times> 'w"

record client_options =
  co_baseURL :: string
  co_apiKey :: "string option"

subsection \<open>The client\<close>

fun isRecord :: "json option \<Rightarrow> bool" where
  "isRecord (Some (JObj kvs)) = True"
| "isRecord _ = False"

text \<open>\<open>optionalCount\<close>: a non-negative safe integer, otherwise null.\<close>

fun optionalCount :: "json option \<Rightarrow> int option" where
  "optionalCount (Some (JNum n)) =
     (if num_is_integer n \<and> \<bar>num_int n\<bar> \<le> 9007199254740991 \<and> num_int n \<ge> 0
      then Some (num_int n) else None)"
| "optionalCount _ = None"

definition bget :: "json option \<Rightarrow> string \<Rightarrow> json option" where
  "bget payload k = Option.bind payload (\<lambda>j. jget j k)"

fun slot_entry_ids :: "json \<Rightarrow> jsnum list" where
  "slot_entry_ids (JNum n) = [n]"
| "slot_entry_ids (JObj kvs) = (case map_of kvs ''id'' of Some (JNum n) \<Rightarrow> [n] | _ \<Rightarrow> [])"
| "slot_entry_ids _ = []"

definition normalizeSlotsResponse :: "json option \<Rightarrow> jsnum list" where
  "normalizeSlotsResponse payload =
     (let rawSlots = (case payload of
          Some (JArr xs) \<Rightarrow> Some (JArr xs)
        | _ \<Rightarrow> if isRecord payload then bget payload ''slots'' else None)
      in case rawSlots of Some (JArr xs) \<Rightarrow> concat (map slot_entry_ids xs) | _ \<Rightarrow> [])"

definition client_request ::
  "'w http \<Rightarrow> client_options \<Rightarrow> http_method \<Rightarrow> http_path \<Rightarrow> json option \<Rightarrow> 'w
     \<Rightarrow> (kv_error + http_reply) \<times> 'w" where
  "client_request http opts method path body w =
     (case http \<lparr>rq_method = method, rq_path = path, rq_body = body,
                 rq_auth = map_option (\<lambda>k. ''Bearer '' @ k) (co_apiKey opts)\<rparr> w of
        (None, w1) \<Rightarrow> (Inl (KvError KV_BACKEND_UNAVAILABLE (co_baseURL opts)), w1)
      | (Some reply, w1) \<Rightarrow> (Inr reply, w1))"

definition client_inspectSlots ::
  "'w http \<Rightarrow> client_options \<Rightarrow> 'w \<Rightarrow> (kv_error + jsnum list) \<times> 'w" where
  "client_inspectSlots http opts w =
     (case client_request http opts GET SlotsPath None w of
        (Inl e, w1) \<Rightarrow> (Inl e, w1)
      | (Inr reply, w1) \<Rightarrow>
          if hr_status reply \<noteq> 200 then (Inl (KvError KV_BACKEND_UNAVAILABLE ''GET /slots''), w1)
          else if \<not> (case hr_body reply of Some (JArr _) \<Rightarrow> True | _ \<Rightarrow> False) \<and>
                  \<not> (isRecord (hr_body reply) \<and>
                     (case bget (hr_body reply) ''slots'' of Some (JArr _) \<Rightarrow> True | _ \<Rightarrow> False))
            then (Inl (KvError KV_BACKEND_UNAVAILABLE ''GET /slots''), w1)
          else (Inr (normalizeSlotsResponse (hr_body reply)), w1))"

definition client_saveSlot ::
  "'w http \<Rightarrow> client_options \<Rightarrow> int \<Rightarrow> string \<Rightarrow> 'w \<Rightarrow> (kv_error + unit) \<times> 'w" where
  "client_saveSlot http opts slotId filename w =
     (case client_request http opts POST (SlotActionPath slotId ''save'')
             (Some (JObj [(''filepath'', JStr filename)])) w of
        (Inl e, w1) \<Rightarrow> (Inl e, w1)
      | (Inr reply, w1) \<Rightarrow>
          if hr_status reply \<noteq> 200 \<or> \<not> isRecord (hr_body reply) \<or>
             bget (hr_body reply) ''success'' \<noteq> Some (JBool True)
          then (Inl (KvError KV_SAVE_FAILED filename), w1)
          else (Inr (), w1))"

text \<open>\<open>payload.n_restored ?? payload.nRestored\<close>\<close>

definition raw_count :: "json option \<Rightarrow> json option" where
  "raw_count payload =
     (case bget payload ''n_restored'' of
        None \<Rightarrow> bget payload ''nRestored''
      | Some JNull \<Rightarrow> bget payload ''nRestored''
      | Some v \<Rightarrow> Some v)"

definition client_restoreSlot ::
  "'w http \<Rightarrow> client_options \<Rightarrow> int \<Rightarrow> string \<Rightarrow> 'w \<Rightarrow> (kv_error + int option) \<times> 'w" where
  "client_restoreSlot http opts slotId filename w =
     (case client_request http opts POST (SlotActionPath slotId ''restore'')
             (Some (JObj [(''filepath'', JStr filename)])) w of
        (Inl e, w1) \<Rightarrow> (Inl e, w1)
      | (Inr reply, w1) \<Rightarrow>
          (let payload = hr_body reply; rawCount = raw_count payload in
           if hr_status reply \<noteq> 200 \<or> \<not> isRecord payload
             then (Inl (KvError KV_RESTORE_FAILED filename), w1)
           else if bget payload ''success'' \<noteq> None \<and> bget payload ''success'' \<noteq> Some (JBool True)
             then (Inl (KvError KV_RESTORE_FAILED filename), w1)
           else if rawCount \<noteq> None \<and> optionalCount rawCount = None
             then (Inl (KvError KV_RESTORE_FAILED filename), w1)
           else (Inr (optionalCount rawCount), w1)))"

definition client_eraseSlot ::
  "'w http \<Rightarrow> client_options \<Rightarrow> int \<Rightarrow> 'w \<Rightarrow> (kv_error + unit) \<times> 'w" where
  "client_eraseSlot http opts slotId w =
     (case client_request http opts POST (SlotActionPath slotId ''erase'') (Some (JObj [])) w of
        (Inl e, w1) \<Rightarrow> (Inl e, w1)
      | (Inr reply, w1) \<Rightarrow>
          (let payload = hr_body reply;
               validPayload = isRecord payload \<and>
                 (bget payload ''success'' = Some (JBool True) \<or>
                  (bget payload ''success'' = None \<and>
                   bget payload ''id_slot'' = Some (JNum (num_of slotId)) \<and>
                   optionalCount (bget payload ''n_erased'') \<noteq> None))
           in if hr_status reply \<noteq> 200 \<or> \<not> validPayload
              then (Inl (KvError KV_ERASE_FAILED ''slot''), w1)
              else (Inr (), w1)))"

subsection \<open>Discovery and the backend\<close>

definition probeServer ::
  "'w http \<Rightarrow> client_options \<Rightarrow> int \<Rightarrow> 'w \<Rightarrow> (kv_error + jsnum list) \<times> 'w" where
  "probeServer http opts requiredSlotId w =
     (case client_inspectSlots http opts w of
        (Inl e, w1) \<Rightarrow> (Inl (KvError KV_BACKEND_UNAVAILABLE ''probe''), w1)
      | (Inr slotIds, w1) \<Rightarrow>
          if \<not> List.member slotIds (num_of requiredSlotId)
          then (Inl (KvError KV_BACKEND_UNAVAILABLE ''slot''), w1)
          else (Inr slotIds, w1))"

text \<open>
  \<open>KvPersistenceBackend\<close>: a save returns the snapshot size when known, a restore the
  restored token count when known.
\<close>

record 'w backend =
  be_probe :: "'w \<Rightarrow> (kv_error + jsnum list) \<times> 'w"
  be_inspectSlots :: "'w \<Rightarrow> (kv_error + jsnum list) \<times> 'w"
  be_saveSlot :: "int \<Rightarrow> string \<Rightarrow> 'w \<Rightarrow> (kv_error + int option) \<times> 'w"
  be_restoreSlot :: "int \<Rightarrow> string \<Rightarrow> 'w \<Rightarrow> (kv_error + int option) \<times> 'w"
  be_eraseSlot :: "int \<Rightarrow> 'w \<Rightarrow> (kv_error + unit) \<times> 'w"

definition llama_saveSlot ::
  "'w http \<Rightarrow> client_options \<Rightarrow> int \<Rightarrow> string \<Rightarrow> 'w \<Rightarrow> (kv_error + int option) \<times> 'w" where
  "llama_saveSlot http opts slotId key w =
     (case client_saveSlot http opts slotId key w of
        (Inl e, w1) \<Rightarrow> (Inl e, w1) | (Inr _, w1) \<Rightarrow> (Inr None, w1))"

definition llama_backend :: "'w http \<Rightarrow> client_options \<Rightarrow> int \<Rightarrow> 'w backend" where
  "llama_backend http opts requiredSlotId =
     \<lparr>be_probe = probeServer http opts requiredSlotId,
      be_inspectSlots = client_inspectSlots http opts,
      be_saveSlot = llama_saveSlot http opts,
      be_restoreSlot = client_restoreSlot http opts,
      be_eraseSlot = client_eraseSlot http opts\<rparr>"

subsection \<open>The interface the coordinator uses\<close>

text \<open>Sizes and token counts are counts; a probe that succeeds saw the required slot.\<close>

locale persistence_backend =
  fixes be :: "'w backend" and required :: int
  assumes save_size: "be_saveSlot be k f w = (Inr (Some n), w') \<Longrightarrow> 0 \<le> n"
    and restore_count: "be_restoreSlot be k f w = (Inr (Some n), w') \<Longrightarrow> 0 \<le> n"
    and probe_slot: "be_probe be w = (Inr ids, w') \<Longrightarrow> num_of required \<in> set ids"

lemma optionalCount_nonneg: "optionalCount x = Some n \<Longrightarrow> 0 \<le> n \<and> n \<le> 9007199254740991"
  by (cases x rule: optionalCount.cases) (auto split: if_splits)

lemma client_restore_count:
  "client_restoreSlot http opts k f w = (Inr r, w') \<Longrightarrow> \<exists>p. r = optionalCount p"
  by (auto simp: client_restoreSlot_def Let_def split: prod.splits sum.splits if_splits)

interpretation llama: persistence_backend "llama_backend http opts required" required
  for http :: "'w http" and opts required
proof
  fix k f n and w w' :: 'w
  show "be_saveSlot (llama_backend http opts required) k f w = (Inr (Some n), w') \<Longrightarrow> 0 \<le> n"
    by (auto simp: llama_backend_def llama_saveSlot_def split: prod.splits sum.splits)
  show "be_restoreSlot (llama_backend http opts required) k f w = (Inr (Some n), w') \<Longrightarrow> 0 \<le> n"
    using client_restore_count [of http opts k f w "Some n" w'] optionalCount_nonneg
    by (auto simp: llama_backend_def dest: sym)
next
  fix ids and w w' :: 'w
  show "be_probe (llama_backend http opts required) w = (Inr ids, w') \<Longrightarrow> num_of required \<in> set ids"
    by (auto simp: llama_backend_def probeServer_def split: prod.splits sum.splits if_splits)
qed

end
