(* ===== verification/KvManifest.thy ===== *)
theory KvManifest
  imports KvConfig
begin

text \<open>
  Snapshot manifests (\<open>plugins/dsh-kv-persist/src/snapshots/manifest.ts\<close>): the typed
  record, its creation, the strict validation of an unknown parsed document and the JSON
  the repository writes back.
\<close>

datatype snapshot_state = Ready | Invalid

record manifest =
  m_sessionId :: string
  m_sessionSeq :: "int option"
  m_provider :: string
  m_model :: string
  m_backend :: string
  m_serverInstanceKey :: string
  m_compatibilityVersion :: string
  m_slotId :: jsnum
  m_createdAt :: string
  m_updatedAt :: string
  m_tokens :: "int option"
  m_bytes :: "int option"
  m_snapshotFilename :: string
  m_state :: snapshot_state
  m_invalidReason :: "string option"

text \<open>\<open>createManifest\<close>; the arguments are the fields of its options object.\<close>

definition createManifest ::
  "snapshot_identity \<Rightarrow> jsnum \<Rightarrow> string \<Rightarrow> int option \<Rightarrow> string \<Rightarrow> manifest" where
  "createManifest ident slotId filename sessionSeq now =
     \<lparr>m_sessionId = si_sessionId ident, m_sessionSeq = sessionSeq,
      m_provider = si_provider ident, m_model = si_model ident,
      m_backend = si_backend ident,
      m_serverInstanceKey = si_serverInstanceKey ident,
      m_compatibilityVersion = si_compatibilityVersion ident,
      m_slotId = slotId, m_createdAt = now, m_updatedAt = now,
      m_tokens = None, m_bytes = None, m_snapshotFilename = filename,
      m_state = Ready, m_invalidReason = None\<rparr>"

subsection \<open>Validation of an unknown document\<close>

text \<open>\<open>typeof v === "string"\<close> and so on, on a property that may be undefined.\<close>

fun is_str :: "json option \<Rightarrow> bool" where
  "is_str (Some (JStr s)) = True"
| "is_str _ = False"

fun is_num :: "json option \<Rightarrow> bool" where
  "is_num (Some (JNum n)) = True"
| "is_num _ = False"

fun the_str :: "json option \<Rightarrow> string" where
  "the_str (Some (JStr s)) = s"
| "the_str _ = []"

fun the_num :: "json option \<Rightarrow> jsnum" where
  "the_num (Some (JNum n)) = n"
| "the_num _ = NaN"

definition isIsoString :: "platform \<Rightarrow> json option \<Rightarrow> bool" where
  "isIsoString pf v \<longleftrightarrow> is_str v \<and> dateParses pf (the_str v)"

text \<open>\<open>optionalInt\<close>: anything but a non-negative integer becomes null.\<close>

fun optionalInt :: "json option \<Rightarrow> int option" where
  "optionalInt (Some (JNum n)) =
     (if num_is_integer n \<and> num_int n \<ge> 0 then Some (num_int n) else None)"
| "optionalInt _ = None"

definition manifest_fail :: "string \<Rightarrow> kv_error" where
  "manifest_fail what = KvError KV_MANIFEST_INVALID what"

definition parseManifest :: "platform \<Rightarrow> json \<Rightarrow> kv_error + manifest" where
  "parseManifest pf raw =
     (let g = jget raw in
      if \<not> js_isObject raw then Inl (KvError KV_MANIFEST_INVALID ''object'')
      else if g ''schemaVersion'' \<noteq> Some (JNum (Fin 1)) then Inl (manifest_fail ''schemaVersion'')
      else if \<not> is_str (g ''sessionId'') \<or> length (the_str (g ''sessionId'')) = 0
        then Inl (manifest_fail ''sessionId'')
      else if \<not> is_str (g ''provider'') \<or> length (the_str (g ''provider'')) = 0
        then Inl (manifest_fail ''provider'')
      else if \<not> is_str (g ''model'') \<or> length (the_str (g ''model'')) = 0
        then Inl (manifest_fail ''model'')
      else if g ''backend'' \<noteq> Some (JStr ''llama.cpp'') then Inl (manifest_fail ''backend'')
      else if \<not> is_str (g ''serverInstanceKey'') then Inl (manifest_fail ''serverInstanceKey'')
      else if \<not> is_str (g ''compatibilityVersion'') then Inl (manifest_fail ''compatibilityVersion'')
      else if \<not> is_num (g ''slotId'') then Inl (manifest_fail ''slotId'')
      else if \<not> isIsoString pf (g ''createdAt'') then Inl (manifest_fail ''createdAt'')
      else if \<not> isIsoString pf (g ''updatedAt'') then Inl (manifest_fail ''updatedAt'')
      else if \<not> is_str (g ''snapshotFilename'') \<or> length (the_str (g ''snapshotFilename'')) = 0
        then Inl (manifest_fail ''snapshotFilename'')
      else if g ''state'' \<noteq> Some (JStr ''ready'') \<and> g ''state'' \<noteq> Some (JStr ''invalid'')
        then Inl (manifest_fail ''state'')
      else if g ''invalidReason'' \<noteq> Some JNull \<and> \<not> is_str (g ''invalidReason'')
        then Inl (manifest_fail ''invalidReason'')
      else if g ''sessionSeq'' \<noteq> Some JNull \<and> \<not> is_num (g ''sessionSeq'')
        then Inl (manifest_fail ''sessionSeq'')
      else if g ''tokens'' \<noteq> Some JNull \<and> \<not> is_num (g ''tokens'') then Inl (manifest_fail ''tokens'')
      else if g ''bytes'' \<noteq> Some JNull \<and> \<not> is_num (g ''bytes'') then Inl (manifest_fail ''bytes'')
      else Inr
        \<lparr>m_sessionId = the_str (g ''sessionId''), m_sessionSeq = optionalInt (g ''sessionSeq''),
         m_provider = the_str (g ''provider''), m_model = the_str (g ''model''),
         m_backend = ''llama.cpp'',
         m_serverInstanceKey = the_str (g ''serverInstanceKey''),
         m_compatibilityVersion = the_str (g ''compatibilityVersion''),
         m_slotId = the_num (g ''slotId''),
         m_createdAt = the_str (g ''createdAt''), m_updatedAt = the_str (g ''updatedAt''),
         m_tokens = optionalInt (g ''tokens''), m_bytes = optionalInt (g ''bytes''),
         m_snapshotFilename = the_str (g ''snapshotFilename''),
         m_state = (if g ''state'' = Some (JStr ''ready'') then Ready else Invalid),
         m_invalidReason = (case g ''invalidReason'' of Some (JStr s) \<Rightarrow> Some s | _ \<Rightarrow> None)\<rparr>)"

text \<open>The document \<open>JSON.stringify(manifest)\<close> stands for, its keys in the record's order.\<close>

fun state_text :: "snapshot_state \<Rightarrow> string" where
  "state_text Ready = ''ready''"
| "state_text Invalid = ''invalid''"

definition manifest_json :: "manifest \<Rightarrow> json" where
  "manifest_json m = JObj
     [(''schemaVersion'', JNum (Fin 1)),
      (''sessionId'', JStr (m_sessionId m)),
      (''sessionSeq'', json_of_opt_int (m_sessionSeq m)),
      (''provider'', JStr (m_provider m)),
      (''model'', JStr (m_model m)),
      (''backend'', JStr (m_backend m)),
      (''serverInstanceKey'', JStr (m_serverInstanceKey m)),
      (''compatibilityVersion'', JStr (m_compatibilityVersion m)),
      (''slotId'', json_of_num (m_slotId m)),
      (''createdAt'', JStr (m_createdAt m)),
      (''updatedAt'', JStr (m_updatedAt m)),
      (''tokens'', json_of_opt_int (m_tokens m)),
      (''bytes'', json_of_opt_int (m_bytes m)),
      (''snapshotFilename'', JStr (m_snapshotFilename m)),
      (''state'', JStr (state_text (m_state m))),
      (''invalidReason'', json_of_opt_str (m_invalidReason m))]"

definition manifest_identity :: "manifest \<Rightarrow> snapshot_identity" where
  "manifest_identity m =
     \<lparr>si_sessionId = m_sessionId m, si_provider = m_provider m, si_model = m_model m,
      si_backend = m_backend m, si_serverInstanceKey = m_serverInstanceKey m,
      si_compatibilityVersion = m_compatibilityVersion m\<rparr>"

definition isManifestCompatible :: "manifest \<Rightarrow> snapshot_identity \<Rightarrow> bool" where
  "isManifestCompatible m ident \<longleftrightarrow>
     m_state m = Ready \<and> isIdentityCompatible (manifest_identity m) ident"

definition manifestRouteKey :: "manifest \<Rightarrow> string" where
  "manifestRouteKey m = m_provider m @ [NUL] @ m_model m"

subsection \<open>Well-formed manifests survive the round trip\<close>

definition opt_nonneg :: "int option \<Rightarrow> bool" where
  "opt_nonneg x \<longleftrightarrow> (case x of None \<Rightarrow> True | Some i \<Rightarrow> 0 \<le> i)"

definition manifest_ok :: "platform \<Rightarrow> manifest \<Rightarrow> bool" where
  "manifest_ok pf m \<longleftrightarrow>
     m_sessionId m \<noteq> [] \<and> m_provider m \<noteq> [] \<and> m_model m \<noteq> [] \<and>
     m_backend m = ''llama.cpp'' \<and> m_snapshotFilename m \<noteq> [] \<and> num_is_finite (m_slotId m) \<and>
     dateParses pf (m_createdAt m) \<and> dateParses pf (m_updatedAt m) \<and>
     opt_nonneg (m_sessionSeq m) \<and> opt_nonneg (m_tokens m) \<and> opt_nonneg (m_bytes m)"

lemma optionalInt_json: "opt_nonneg x \<Longrightarrow> optionalInt (Some (json_of_opt_int x)) = x"
  by (cases x) (simp_all add: opt_nonneg_def)

lemma opt_int_null_or_num:
  "Some (json_of_opt_int x) = Some JNull \<or> is_num (Some (json_of_opt_int x))"
  by (cases x) simp_all

lemma num_json_is_num: "num_is_finite n \<Longrightarrow> json_of_num n = JNum n"
  by (cases n) simp_all

text \<open>The property reads on a written manifest, one equation per key.\<close>

lemma jget_manifest:
  "jget (manifest_json m) ''schemaVersion'' = Some (JNum (Fin 1))"
  "jget (manifest_json m) ''sessionId'' = Some (JStr (m_sessionId m))"
  "jget (manifest_json m) ''sessionSeq'' = Some (json_of_opt_int (m_sessionSeq m))"
  "jget (manifest_json m) ''provider'' = Some (JStr (m_provider m))"
  "jget (manifest_json m) ''model'' = Some (JStr (m_model m))"
  "jget (manifest_json m) ''backend'' = Some (JStr (m_backend m))"
  "jget (manifest_json m) ''serverInstanceKey'' = Some (JStr (m_serverInstanceKey m))"
  "jget (manifest_json m) ''compatibilityVersion'' = Some (JStr (m_compatibilityVersion m))"
  "jget (manifest_json m) ''slotId'' = Some (json_of_num (m_slotId m))"
  "jget (manifest_json m) ''createdAt'' = Some (JStr (m_createdAt m))"
  "jget (manifest_json m) ''updatedAt'' = Some (JStr (m_updatedAt m))"
  "jget (manifest_json m) ''tokens'' = Some (json_of_opt_int (m_tokens m))"
  "jget (manifest_json m) ''bytes'' = Some (json_of_opt_int (m_bytes m))"
  "jget (manifest_json m) ''snapshotFilename'' = Some (JStr (m_snapshotFilename m))"
  "jget (manifest_json m) ''state'' = Some (JStr (state_text (m_state m)))"
  "jget (manifest_json m) ''invalidReason'' = Some (json_of_opt_str (m_invalidReason m))"
  by (simp_all add: manifest_json_def)

lemma manifest_json_object [simp]: "js_isObject (manifest_json m)"
  by (simp add: manifest_json_def)

lemma opt_str_json:
  "(case Some (json_of_opt_str x) of Some (JStr s) \<Rightarrow> Some s | _ \<Rightarrow> None) = x"
  "Some (json_of_opt_str x) = Some JNull \<or> is_str (Some (json_of_opt_str x))"
  by (cases x; simp)+

lemma state_json:
  "(if Some (JStr (state_text x)) = Some (JStr ''ready'') then Ready else Invalid) = x"
  "Some (JStr (state_text x)) = Some (JStr ''ready'') \<or> Some (JStr (state_text x)) = Some (JStr ''invalid'')"
  by (cases x; simp)+

lemma parse_manifest_json:
  assumes "manifest_ok pf m"
  shows "parseManifest pf (manifest_json m) = Inr m"
  using assms opt_int_null_or_num [of "m_sessionSeq m"] opt_int_null_or_num [of "m_tokens m"]
    opt_int_null_or_num [of "m_bytes m"] opt_str_json(2) [of "m_invalidReason m"]
    state_json(2) [of "m_state m"]
  unfolding parseManifest_def Let_def jget_manifest
  by (simp only: manifest_ok_def optionalInt_json opt_str_json(1) state_json(1) num_json_is_num
      isIsoString_def) auto

end
