(* ===== verification/KvRepository.thy ===== *)
theory KvRepository
  imports KvManifest
begin

text \<open>
  The metadata repository
  (\<open>plugins/dsh-kv-persist/src/snapshots/repository.ts\<close>). The metadata root is a list
  of files keyed by instance directory and file name, in directory order; a file's text is
  known by what \<open>JSON.parse\<close> makes of it. \<open>fs_fault\<close> says which file-system call
  fails on which path (other than with ENOENT), so every error branch is reachable. The
  temporary file of a write ends in \<open>.tmp\<close>, which no reader looks at: a write that
  fails before its rename leaves the visible files as they were.
\<close>

subsection \<open>Files\<close>

datatype file_text = Parsed json | Unparsable

datatype fs_op = FsRead | FsMkdir | FsWrite | FsRename | FsRemove | FsList

type_synonym fs_path = "string \<times> string"

record repo_fs =
  fs_files :: "(fs_path \<times> file_text) list"
  fs_fault :: "fs_op \<Rightarrow> fs_path \<Rightarrow> bool"

definition metadata_io :: kv_error where
  "metadata_io = KvError KV_METADATA_IO ''metadata''"

text \<open>\<open>snapshotFilename(identity).replace(/\.bin$/, "")\<close>\<close>

definition strip_bin :: "string \<Rightarrow> string" where
  "strip_bin s = (if length s \<ge> 4 \<and> drop (length s - 4) s = ''.bin'' then take (length s - 4) s else s)"

definition manifestPath :: "platform \<Rightarrow> snapshot_identity \<Rightarrow> fs_path" where
  "manifestPath pf ident =
     (si_serverInstanceKey ident, strip_bin (snapshotFilename pf ident) @ ''.json'')"

definition ends_with_json :: "string \<Rightarrow> bool" where
  "ends_with_json f \<longleftrightarrow> length f \<ge> 5 \<and> drop (length f - 5) f = ''.json''"

subsection \<open>Operations\<close>

text \<open>\<open>parseManifest(JSON.parse(text))\<close>\<close>

definition parse_file :: "platform \<Rightarrow> file_text \<Rightarrow> kv_error + manifest" where
  "parse_file pf text =
     (case text of Unparsable \<Rightarrow> Inl metadata_io | Parsed j \<Rightarrow> parseManifest pf j)"

definition repo_load :: "platform \<Rightarrow> snapshot_identity \<Rightarrow> repo_fs \<Rightarrow> kv_error + manifest option" where
  "repo_load pf ident fs =
     (let path = manifestPath pf ident in
      if fs_fault fs FsRead path then Inl metadata_io
      else case map_of (fs_files fs) path of
             None \<Rightarrow> Inr None
           | Some text \<Rightarrow>
               (case parse_file pf text of Inl e \<Rightarrow> Inl metadata_io | Inr m \<Rightarrow> Inr (Some m)))"

definition repo_write :: "platform \<Rightarrow> manifest \<Rightarrow> repo_fs \<Rightarrow> (kv_error + unit) \<times> repo_fs" where
  "repo_write pf m fs =
     (let path = manifestPath pf (manifest_identity m) in
      if fs_fault fs FsMkdir path \<or> fs_fault fs FsWrite path \<or> fs_fault fs FsRename path
      then (Inl metadata_io, fs)
      else (Inr (), fs\<lparr>fs_files := amap_set path (Parsed (manifest_json m)) (fs_files fs)\<rparr>))"

record put_input =
  pi_identity :: snapshot_identity
  pi_slotId :: jsnum
  pi_sessionSeq :: "int option"
  pi_tokens :: "int option"
  pi_bytes :: "int option"
  pi_now :: string

text \<open>\<open>input.tokens ?? existing.tokens\<close>\<close>

definition or_else :: "'a option \<Rightarrow> 'a option \<Rightarrow> 'a option" where
  "or_else x y = (case x of None \<Rightarrow> y | Some v \<Rightarrow> Some v)"

definition put_manifest :: "platform \<Rightarrow> put_input \<Rightarrow> manifest option \<Rightarrow> manifest" where
  "put_manifest pf input existing =
     (case existing of
        Some old \<Rightarrow> old
          \<lparr>m_updatedAt := pi_now input, m_slotId := pi_slotId input,
           m_sessionSeq := pi_sessionSeq input,
           m_tokens := or_else (pi_tokens input) (m_tokens old),
           m_bytes := or_else (pi_bytes input) (m_bytes old),
           m_compatibilityVersion := si_compatibilityVersion (pi_identity input),
           m_state := Ready, m_invalidReason := None\<rparr>
      | None \<Rightarrow>
          (createManifest (pi_identity input) (pi_slotId input)
             (snapshotFilename pf (pi_identity input)) (pi_sessionSeq input) (pi_now input))
          \<lparr>m_tokens := pi_tokens input, m_bytes := pi_bytes input\<rparr>)"

definition repo_put :: "platform \<Rightarrow> put_input \<Rightarrow> repo_fs \<Rightarrow> (kv_error + manifest) \<times> repo_fs" where
  "repo_put pf input fs =
     (case repo_load pf (pi_identity input) fs of
        Inl e \<Rightarrow> (Inl e, fs)
      | Inr existing \<Rightarrow>
          (let m = put_manifest pf input existing in
           case repo_write pf m fs of
             (Inl e, fs1) \<Rightarrow> (Inl e, fs1)
           | (Inr _, fs1) \<Rightarrow> (Inr m, fs1)))"

definition invalidated :: "invalidation_reason \<Rightarrow> string \<Rightarrow> manifest \<Rightarrow> manifest" where
  "invalidated reason now m =
     m\<lparr>m_state := Invalid, m_invalidReason := Some (reason_text reason), m_updatedAt := now\<rparr>"

definition repo_markInvalid ::
  "platform \<Rightarrow> snapshot_identity \<Rightarrow> invalidation_reason \<Rightarrow> string \<Rightarrow> repo_fs
     \<Rightarrow> (kv_error + unit) \<times> repo_fs" where
  "repo_markInvalid pf ident reason now fs =
     (case repo_load pf ident fs of
        Inl e \<Rightarrow> (Inl e, fs)
      | Inr None \<Rightarrow> (Inr (), fs)
      | Inr (Some m) \<Rightarrow>
          if m_state m = Invalid then (Inr (), fs)
          else repo_write pf (invalidated reason now m) fs)"

definition repo_remove :: "platform \<Rightarrow> snapshot_identity \<Rightarrow> repo_fs \<Rightarrow> (kv_error + bool) \<times> repo_fs" where
  "repo_remove pf ident fs =
     (let path = manifestPath pf ident in
      if fs_fault fs FsRemove path then (Inl metadata_io, fs)
      else if map_of (fs_files fs) path = None then (Inr False, fs)
      else (Inr True, fs\<lparr>fs_files := amap_delete path (fs_files fs)\<rparr>))"

text \<open>\<open>readdir\<close> of the instances directory and of one sessions directory.\<close>

definition instance_keys :: "repo_fs \<Rightarrow> string list" where
  "instance_keys fs = remdups (map (\<lambda>e. fst (fst e)) (fs_files fs))"

definition dir_entries :: "repo_fs \<Rightarrow> string \<Rightarrow> (fs_path \<times> file_text) list" where
  "dir_entries fs key = filter (\<lambda>e. fst (fst e) = key) (fs_files fs)"

abbreviation dir_path :: "string \<Rightarrow> fs_path" where
  "dir_path key \<equiv> (key, '''')"

text \<open>The readable manifests of one directory that belong to the session.\<close>

fun dir_manifests ::
  "platform \<Rightarrow> (fs_op \<Rightarrow> fs_path \<Rightarrow> bool) \<Rightarrow> string \<Rightarrow> (fs_path \<times> file_text) list \<Rightarrow> manifest list" where
  "dir_manifests pf flt sid [] = []"
| "dir_manifests pf flt sid ((path, text) # es) =
     (if \<not> ends_with_json (snd path) then dir_manifests pf flt sid es
      else if flt FsRead path then dir_manifests pf flt sid es
      else case parse_file pf text of
             Inl e \<Rightarrow> dir_manifests pf flt sid es
           | Inr m \<Rightarrow> if m_sessionId m = sid then m # dir_manifests pf flt sid es
                      else dir_manifests pf flt sid es)"

fun list_instances :: "platform \<Rightarrow> repo_fs \<Rightarrow> string \<Rightarrow> string list \<Rightarrow> kv_error + manifest list" where
  "list_instances pf fs sid [] = Inr []"
| "list_instances pf fs sid (key # keys) =
     (if fs_fault fs FsList (dir_path key) then Inl metadata_io
      else case list_instances pf fs sid keys of
             Inl e \<Rightarrow> Inl e
           | Inr rest \<Rightarrow> Inr (dir_manifests pf (fs_fault fs) sid (dir_entries fs key) @ rest))"

definition listSessionManifests :: "platform \<Rightarrow> string \<Rightarrow> repo_fs \<Rightarrow> kv_error + manifest list" where
  "listSessionManifests pf sid fs =
     (if fs_fault fs FsList (dir_path '''') then Inl metadata_io
      else list_instances pf fs sid (instance_keys fs))"

fun invalidate_each ::
  "platform \<Rightarrow> invalidation_reason \<Rightarrow> string \<Rightarrow> manifest list \<Rightarrow> nat \<Rightarrow> repo_fs
     \<Rightarrow> (kv_error + nat) \<times> repo_fs" where
  "invalidate_each pf reason now [] count fs = (Inr count, fs)"
| "invalidate_each pf reason now (m # ms) count fs =
     (if m_state m = Invalid then invalidate_each pf reason now ms count fs
      else case repo_write pf (invalidated reason now m) fs of
             (Inl e, fs1) \<Rightarrow> (Inl e, fs1)
           | (Inr _, fs1) \<Rightarrow> invalidate_each pf reason now ms (count + 1) fs1)"

definition repo_invalidateSession ::
  "platform \<Rightarrow> string \<Rightarrow> invalidation_reason \<Rightarrow> string \<Rightarrow> repo_fs \<Rightarrow> (kv_error + nat) \<times> repo_fs" where
  "repo_invalidateSession pf sid reason now fs =
     (case listSessionManifests pf sid fs of
        Inl e \<Rightarrow> (Inl e, fs)
      | Inr ms \<Rightarrow> invalidate_each pf reason now ms 0 fs)"

fun remove_each :: "platform \<Rightarrow> manifest list \<Rightarrow> nat \<Rightarrow> repo_fs \<Rightarrow> (kv_error + nat) \<times> repo_fs" where
  "remove_each pf [] count fs = (Inr count, fs)"
| "remove_each pf (m # ms) count fs =
     (case repo_remove pf (manifest_identity m) fs of
        (Inl e, fs1) \<Rightarrow> (Inl e, fs1)
      | (Inr removed, fs1) \<Rightarrow> remove_each pf ms (if removed then count + 1 else count) fs1)"

definition repo_removeSession :: "platform \<Rightarrow> string \<Rightarrow> repo_fs \<Rightarrow> (kv_error + nat) \<times> repo_fs" where
  "repo_removeSession pf sid fs =
     (case listSessionManifests pf sid fs of
        Inl e \<Rightarrow> (Inl e, fs)
      | Inr ms \<Rightarrow> remove_each pf ms 0 fs)"

text \<open>
  \<open>findCompatible\<close>; the write of an incompatible manifest's invalidation uses the wall
  clock, an argument here.
\<close>

definition repo_findCompatible ::
  "platform \<Rightarrow> snapshot_identity \<Rightarrow> string \<Rightarrow> repo_fs \<Rightarrow> (kv_error + manifest option) \<times> repo_fs" where
  "repo_findCompatible pf ident wallclock fs =
     (case repo_load pf ident fs of
        Inl e \<Rightarrow> (Inl e, fs)
      | Inr None \<Rightarrow> (Inr None, fs)
      | Inr (Some m) \<Rightarrow>
          if \<not> (m_serverInstanceKey m = si_serverInstanceKey ident \<and> m_provider m = si_provider ident
                \<and> m_model m = si_model ident) then (Inr None, fs)
          else if m_state m \<noteq> Ready then (Inr None, fs)
          else if m_compatibilityVersion m \<noteq> si_compatibilityVersion ident then
            (case repo_markInvalid pf ident MODEL_FINGERPRINT_CHANGED wallclock fs of
               (Inl e, fs1) \<Rightarrow> (Inl e, fs1)
             | (Inr _, fs1) \<Rightarrow> (Inr None, fs1))
          else (Inr (Some m), fs))"

record repo_counts =
  rn_known :: nat
  rn_valid :: nat
  rn_invalid :: nat

fun count_dir ::
  "platform \<Rightarrow> (fs_op \<Rightarrow> fs_path \<Rightarrow> bool) \<Rightarrow> (fs_path \<times> file_text) list \<Rightarrow> repo_counts \<Rightarrow> repo_counts" where
  "count_dir pf flt [] n = n"
| "count_dir pf flt ((path, text) # es) n =
     (if \<not> ends_with_json (snd path) then count_dir pf flt es n
      else
       (let n1 = n\<lparr>rn_known := rn_known n + 1\<rparr> in
        count_dir pf flt es
          (if flt FsRead path then n1\<lparr>rn_invalid := rn_invalid n1 + 1\<rparr>
           else case parse_file pf text of
                  Inl e \<Rightarrow> n1\<lparr>rn_invalid := rn_invalid n1 + 1\<rparr>
                | Inr m \<Rightarrow> if m_state m = Ready then n1\<lparr>rn_valid := rn_valid n1 + 1\<rparr>
                           else n1\<lparr>rn_invalid := rn_invalid n1 + 1\<rparr>)))"

fun count_instances :: "platform \<Rightarrow> repo_fs \<Rightarrow> string list \<Rightarrow> repo_counts \<Rightarrow> kv_error + repo_counts" where
  "count_instances pf fs [] n = Inr n"
| "count_instances pf fs (key # keys) n =
     (if fs_fault fs FsList (dir_path key) then Inl metadata_io
      else count_instances pf fs keys (count_dir pf (fs_fault fs) (dir_entries fs key) n))"

definition repo_counts_all :: "platform \<Rightarrow> repo_fs \<Rightarrow> kv_error + repo_counts" where
  "repo_counts_all pf fs =
     (if fs_fault fs FsList (dir_path '''') then Inl metadata_io
      else count_instances pf fs (instance_keys fs) \<lparr>rn_known = 0, rn_valid = 0, rn_invalid = 0\<rparr>)"

text \<open>
  What a client of a manifest store relies on: a failed write changes nothing, a written
  manifest is what a load of its place returns, and other places are untouched.
\<close>

locale manifest_store =
  fixes load :: "'i \<Rightarrow> 's \<Rightarrow> 'e + 'm option"
    and store :: "'m \<Rightarrow> 's \<Rightarrow> ('e + unit) \<times> 's"
    and identity :: "'m \<Rightarrow> 'i"
    and place :: "'i \<Rightarrow> 'p"
    and storable :: "'m \<Rightarrow> bool"
    and readable :: "'i \<Rightarrow> 's \<Rightarrow> bool"
  assumes store_atomic: "store m s = (Inl e, s') \<Longrightarrow> s' = s"
    and load_stored: "store m s = (Inr u, s') \<Longrightarrow> storable m \<Longrightarrow> readable i s \<Longrightarrow>
      place i = place (identity m) \<Longrightarrow> load i s' = Inr (Some m)"
    and load_elsewhere: "store m s = (r, s') \<Longrightarrow> place i \<noteq> place (identity m) \<Longrightarrow>
      load i s' = load i s"
    and readable_stored: "store m s = (r, s') \<Longrightarrow> readable i s' = readable i s"
begin

fun store_all :: "'m list \<Rightarrow> 's \<Rightarrow> ('e + unit) \<times> 's" where
  "store_all [] s = (Inr (), s)"
| "store_all (m # ms) s =
     (case store m s of (Inl e, s1) \<Rightarrow> (Inl e, s1) | (Inr _, s1) \<Rightarrow> store_all ms s1)"

lemma store_all_elsewhere:
  "store_all ms s = (r, s') \<Longrightarrow> place i \<notin> place ` identity ` set ms \<Longrightarrow> load i s' = load i s"
proof (induction ms arbitrary: s)
  case (Cons m ms)
  obtain r1 s1 where st: "store m s = (r1, s1)" by force
  have "load i s1 = load i s"
    using load_elsewhere [OF st] Cons.prems(2) by auto
  moreover have "load i s' = load i s1"
    using Cons st store_atomic by (cases r1) auto
  ultimately show ?case by simp
qed simp

lemma readable_store_all:
  "store_all ms s = (r, s') \<Longrightarrow> readable i s' = readable i s"
proof (induction ms arbitrary: s)
  case (Cons m ms)
  obtain r1 s1 where "store m s = (r1, s1)" by force
  then show ?case
    using Cons readable_stored by (cases r1) auto
qed simp

lemma store_all_load:
  assumes "store_all ms s = (Inr (), s')" "\<And>m. m \<in> set ms \<Longrightarrow> storable m" "readable i s"
    and "place i \<in> place ` identity ` set ms"
  shows "\<exists>m \<in> set ms. place (identity m) = place i \<and> load i s' = Inr (Some m)"
  using assms
proof (induction ms arbitrary: s)
  case (Cons m ms)
  obtain r1 s1 where st: "store m s = (r1, s1)" by force
  then obtain u where r1: "r1 = Inr u" and rest: "store_all ms s1 = (Inr (), s')"
    using Cons.prems(1) by (cases r1) auto
  have rd: "readable i s1" using Cons.prems(3) readable_stored [OF st] by simp
  show ?case
  proof (cases "place i \<in> place ` identity ` set ms")
    case True
    then show ?thesis using Cons.IH [OF rest _ rd] Cons.prems(2) by auto
  next
    case False
    then have here: "place i = place (identity m)" using Cons.prems(4) by auto
    have "load i s' = load i s1" using store_all_elsewhere [OF rest False] .
    also have "\<dots> = Inr (Some m)"
      using load_stored [of m s u s1 i] st r1 Cons.prems here by auto
    finally show ?thesis using here by auto
  qed
qed simp

end

lemma repo_write_elsewhere:
  "repo_write pf m fs = (r, fs') \<Longrightarrow> manifestPath pf i \<noteq> manifestPath pf (manifest_identity m) \<Longrightarrow>
   repo_load pf i fs' = repo_load pf i fs"
  by (auto simp: repo_write_def repo_load_def Let_def split: if_splits)

lemma repo_load_written:
  "repo_write pf m fs = (Inr u, fs') \<Longrightarrow> manifest_ok pf m \<Longrightarrow>
   \<not> fs_fault fs FsRead (manifestPath pf i) \<Longrightarrow>
   manifestPath pf i = manifestPath pf (manifest_identity m) \<Longrightarrow> repo_load pf i fs' = Inr (Some m)"
  by (auto simp: repo_write_def repo_load_def Let_def parse_file_def parse_manifest_json split: if_splits)

interpretation repo: manifest_store "repo_load pf" "repo_write pf" manifest_identity
  "manifestPath pf" "manifest_ok pf" "\<lambda>i fs. \<not> fs_fault fs FsRead (manifestPath pf i)" for pf
proof unfold_locales
  show "repo_write pf m s = (Inl e, s') \<Longrightarrow> s' = s" for m s e s'
    by (auto simp: repo_write_def Let_def split: if_splits)
  show "repo_write pf m s = (r, s') \<Longrightarrow> (\<not> fs_fault s' FsRead (manifestPath pf i))
      = (\<not> fs_fault s FsRead (manifestPath pf i))" for m s r s' i
    by (auto simp: repo_write_def Let_def split: if_splits)
qed (auto intro: repo_load_written repo_write_elsewhere)

lemma invalidate_each_store_all:
  "invalidate_each pf reason now ms n fs =
     (case repo.store_all pf (map (invalidated reason now) (filter (\<lambda>m. m_state m \<noteq> Invalid) ms)) fs of
        (Inl e, fs') \<Rightarrow> (Inl e, fs')
      | (Inr _, fs') \<Rightarrow> (Inr (n + length (filter (\<lambda>m. m_state m \<noteq> Invalid) ms)), fs'))"
  by (induction pf reason now ms n fs rule: invalidate_each.induct)
    (auto split: prod.splits sum.splits)

subsection \<open>The repository invariant\<close>

text \<open>
  File paths are unique, and every readable manifest is storable, sits at the path of its
  own identity and names the snapshot file of that identity.
\<close>

definition entry_ok :: "platform \<Rightarrow> fs_path \<Rightarrow> manifest \<Rightarrow> bool" where
  "entry_ok pf path m \<longleftrightarrow> manifest_ok pf m \<and> path = manifestPath pf (manifest_identity m) \<and>
     m_snapshotFilename m = snapshotFilename pf (manifest_identity m)"

definition repo_ok :: "platform \<Rightarrow> repo_fs \<Rightarrow> bool" where
  "repo_ok pf fs \<longleftrightarrow> distinct (map fst (fs_files fs)) \<and>
     (\<forall>path text m. map_of (fs_files fs) path = Some text \<longrightarrow> parse_file pf text = Inr m \<longrightarrow>
        entry_ok pf path m)"

lemma repo_okD:
  "repo_ok pf fs \<Longrightarrow> map_of (fs_files fs) path = Some text \<Longrightarrow> parse_file pf text = Inr m \<Longrightarrow>
   entry_ok pf path m"
  unfolding repo_ok_def by blast

lemma repo_load_Some:
  "repo_load pf i fs = Inr (Some m) \<longleftrightarrow>
   \<not> fs_fault fs FsRead (manifestPath pf i) \<and>
   (\<exists>text. map_of (fs_files fs) (manifestPath pf i) = Some text \<and> parse_file pf text = Inr m)"
  by (auto simp: repo_load_def Let_def split: option.splits sum.splits)

lemma repo_ok_load:
  "repo_ok pf fs \<Longrightarrow> repo_load pf i fs = Inr (Some m) \<Longrightarrow> entry_ok pf (manifestPath pf i) m"
  unfolding repo_load_Some by (blast intro: repo_okD)

lemma repo_write_ok:
  assumes "repo_ok pf fs" "repo_write pf m fs = (r, fs')"
    and "manifest_ok pf m" "m_snapshotFilename m = snapshotFilename pf (manifest_identity m)"
  shows "repo_ok pf fs'"
  using assms
  by (auto simp: repo_ok_def repo_write_def Let_def parse_file_def parse_manifest_json entry_ok_def
      split: if_splits)

lemma repo_remove_ok: "repo_ok pf fs \<Longrightarrow> repo_remove pf i fs = (r, fs') \<Longrightarrow> repo_ok pf fs'"
  by (auto simp: repo_ok_def repo_remove_def Let_def split: if_splits)

lemma invalidated_identity [simp]: "manifest_identity (invalidated reason now m) = manifest_identity m"
  by (simp add: invalidated_def manifest_identity_def)

lemma invalidated_simps [simp]:
  "m_state (invalidated reason now m) = Invalid"
  "m_snapshotFilename (invalidated reason now m) = m_snapshotFilename m"
  "m_sessionId (invalidated reason now m) = m_sessionId m"
  by (simp_all add: invalidated_def)

lemma invalidated_ok: "manifest_ok pf m \<Longrightarrow> dateParses pf now \<Longrightarrow> manifest_ok pf (invalidated reason now m)"
  by (simp add: manifest_ok_def invalidated_def)

text \<open>What the coordinator passes to \<open>put\<close>.\<close>

definition put_ok :: "platform \<Rightarrow> put_input \<Rightarrow> bool" where
  "put_ok pf input \<longleftrightarrow>
     si_sessionId (pi_identity input) \<noteq> [] \<and> si_provider (pi_identity input) \<noteq> [] \<and>
     si_model (pi_identity input) \<noteq> [] \<and> si_backend (pi_identity input) = ''llama.cpp'' \<and>
     num_is_finite (pi_slotId input) \<and> dateParses pf (pi_now input) \<and>
     opt_nonneg (pi_sessionSeq input) \<and> opt_nonneg (pi_tokens input) \<and> opt_nonneg (pi_bytes input)"

lemma snapshotFilename_nonempty [simp]: "snapshotFilename pf i \<noteq> []"
  by (simp add: snapshotFilename_def Let_def)

lemma manifestPath_compat [simp]:
  "manifestPath pf (i\<lparr>si_compatibilityVersion := c\<rparr>) = manifestPath pf i"
  "snapshotFilename pf (i\<lparr>si_compatibilityVersion := c\<rparr>) = snapshotFilename pf i"
  by (simp_all add: manifestPath_def snapshotFilename_def identity_text_def Let_def)

lemma put_manifest_identity:
  "manifest_identity (put_manifest pf input (Some old)) =
     (manifest_identity old)\<lparr>si_compatibilityVersion := si_compatibilityVersion (pi_identity input)\<rparr>"
  "manifest_identity (put_manifest pf input None) = pi_identity input"
  by (simp_all add: put_manifest_def manifest_identity_def createManifest_def)

lemma or_else_nonneg: "opt_nonneg x \<Longrightarrow> opt_nonneg y \<Longrightarrow> opt_nonneg (or_else x y)"
  by (cases x) (simp_all add: or_else_def)

lemma strip_bin_bin [simp]: "strip_bin (d @ ''.bin'') = d"
  by (simp add: strip_bin_def)

lemma manifestPath_filename:
  "manifestPath pf a = manifestPath pf b \<longleftrightarrow>
   si_serverInstanceKey a = si_serverInstanceKey b \<and> snapshotFilename pf a = snapshotFilename pf b"
  by (simp add: manifestPath_def snapshotFilename_def Let_def)

lemma put_manifest_ok:
  assumes "put_ok pf input" "\<And>m. existing = Some m \<Longrightarrow> entry_ok pf (manifestPath pf (pi_identity input)) m"
  shows "entry_ok pf (manifestPath pf (pi_identity input)) (put_manifest pf input existing)"
proof (cases existing)
  case None
  have "manifest_ok pf (put_manifest pf input None)"
    using assms(1) by (simp add: put_ok_def manifest_ok_def put_manifest_def createManifest_def)
  moreover have "m_snapshotFilename (put_manifest pf input None) = snapshotFilename pf (pi_identity input)"
    by (simp add: put_manifest_def createManifest_def)
  ultimately show ?thesis
    by (simp only: entry_ok_def None put_manifest_identity)
next
  case (Some old)
  then have "entry_ok pf (manifestPath pf (pi_identity input)) old" using assms(2) by simp
  with assms(1) Some show ?thesis
    unfolding entry_ok_def Some put_manifest_identity
    by (auto simp: put_ok_def manifest_ok_def put_manifest_def or_else_nonneg)
qed

lemma put_entry_ok:
  assumes "repo_ok pf fs" "put_ok pf input" "repo_load pf (pi_identity input) fs = Inr existing"
  shows "entry_ok pf (manifestPath pf (pi_identity input)) (put_manifest pf input existing)"
  by (rule put_manifest_ok [OF assms(2)], rule repo_ok_load [OF assms(1)]) (use assms(3) in simp)

text \<open>The three outcomes of a put.\<close>

lemma repo_put_cases:
  assumes "repo_put pf input fs = (r, fs')"
  obtains (load_failed) e where "repo_load pf (pi_identity input) fs = Inl e" "r = Inl e" "fs' = fs"
  | (write_failed) existing e where "repo_load pf (pi_identity input) fs = Inr existing" "r = Inl e" "fs' = fs"
  | (written) existing u where "repo_load pf (pi_identity input) fs = Inr existing"
      "r = Inr (put_manifest pf input existing)"
      "repo_write pf (put_manifest pf input existing) fs = (Inr u, fs')"
proof (cases "repo_load pf (pi_identity input) fs")
  case (Inl e)
  then show ?thesis using assms by (intro load_failed [of e]) (simp_all add: repo_put_def)
next
  case (Inr existing)
  obtain r1 fs1 where w: "repo_write pf (put_manifest pf input existing) fs = (r1, fs1)" by force
  show ?thesis
  proof (cases r1)
    case (Inl e)
    then show ?thesis
      using assms w \<open>repo_load _ _ _ = _\<close> repo.store_atomic [of pf _ fs e fs1]
      by (intro write_failed [of existing e]) (simp_all add: repo_put_def Let_def)
  next
    case (Inr u)
    then show ?thesis
      using assms w \<open>repo_load _ _ _ = _\<close>
      by (intro written [of existing u]) (simp_all add: repo_put_def Let_def)
  qed
qed

lemma repo_put_ok:
  assumes "repo_ok pf fs" "put_ok pf input" "repo_put pf input fs = (r, fs')"
  shows "repo_ok pf fs'"
  using assms(3)
proof (cases rule: repo_put_cases)
  case (written existing u)
  have "entry_ok pf (manifestPath pf (pi_identity input)) (put_manifest pf input existing)"
    by (rule put_entry_ok [OF assms(1,2) written(1)])
  then show ?thesis
    using repo_write_ok [OF assms(1) written(3)] by (simp add: entry_ok_def)
qed (use assms(1) in simp_all)

lemma repo_put_load:
  assumes "repo_ok pf fs" "put_ok pf input" "repo_put pf input fs = (Inr m, fs')"
  shows "repo_load pf (pi_identity input) fs' = Inr (Some m) \<and> m_state m = Ready \<and>
    m_snapshotFilename m = snapshotFilename pf (pi_identity input) \<and>
    m_compatibilityVersion m = si_compatibilityVersion (pi_identity input)"
  using assms(3)
proof (cases rule: repo_put_cases)
  case (written existing u)
  have ok: "entry_ok pf (manifestPath pf (pi_identity input)) (put_manifest pf input existing)"
    by (rule put_entry_ok [OF assms(1,2) written(1)])
  have rd: "\<not> fs_fault fs FsRead (manifestPath pf (pi_identity input))"
    using written(1) by (auto simp: repo_load_def Let_def)
  have m: "m = put_manifest pf input existing" using written(2) by simp
  have "repo_load pf (pi_identity input) fs' = Inr (Some m)"
    using repo_load_written [OF written(3) _ rd] ok unfolding m entry_ok_def by blast
  moreover have "m_state m = Ready \<and> m_compatibilityVersion m = si_compatibilityVersion (pi_identity input)"
    unfolding m by (cases existing) (simp_all add: put_manifest_def createManifest_def)
  moreover have "m_snapshotFilename m = snapshotFilename pf (pi_identity input)"
    using ok manifestPath_filename unfolding m [symmetric] entry_ok_def by metis
  ultimately show ?thesis by blast
qed simp_all

subsection \<open>Listing, invalidating and removing a session\<close>

lemma set_dir_manifests:
  "m \<in> set (dir_manifests pf flt sid es) \<longleftrightarrow>
     (\<exists>e \<in> set es. ends_with_json (snd (fst e)) \<and> \<not> flt FsRead (fst e) \<and>
        parse_file pf (snd e) = Inr m \<and> m_sessionId m = sid)"
  by (induction pf flt sid es rule: dir_manifests.induct) (auto split: sum.splits)

lemma list_instances_set:
  "list_instances pf fs sid keys = Inr ms \<Longrightarrow>
   set ms = (\<Union>key \<in> set keys. set (dir_manifests pf (fs_fault fs) sid (dir_entries fs key)))"
  by (induction pf fs sid keys arbitrary: ms rule: list_instances.induct)
    (auto split: if_splits sum.splits)

lemma dir_entries_cover:
  "(\<exists>key \<in> set (instance_keys fs). e \<in> set (dir_entries fs key)) \<longleftrightarrow> e \<in> set (fs_files fs)"
  by (force simp: instance_keys_def dir_entries_def)

lemma listSessionManifests_iff:
  assumes "listSessionManifests pf sid fs = Inr ms"
  shows "m \<in> set ms \<longleftrightarrow> (\<exists>e \<in> set (fs_files fs). ends_with_json (snd (fst e)) \<and>
    \<not> fs_fault fs FsRead (fst e) \<and> parse_file pf (snd e) = Inr m \<and> m_sessionId m = sid)"
proof -
  have "set ms = (\<Union>key \<in> set (instance_keys fs). set (dir_manifests pf (fs_fault fs) sid (dir_entries fs key)))"
    using assms by (simp add: listSessionManifests_def list_instances_set split: if_splits)
  then show ?thesis
    unfolding dir_entries_cover [symmetric] Bex_def [of "set (fs_files fs)"]
    by (simp only: UN_iff set_dir_manifests) blast
qed

lemma manifestPath_json [simp]: "ends_with_json (snd (manifestPath pf i))"
  by (simp add: manifestPath_def ends_with_json_def)

lemma repo_load_listed:
  assumes "repo_ok pf fs" "listSessionManifests pf sid fs = Inr ms"
    and "repo_load pf i fs = Inr (Some m)" "m_sessionId m = sid"
  shows "m \<in> set ms"
proof -
  obtain tx where "map_of (fs_files fs) (manifestPath pf i) = Some tx" "parse_file pf tx = Inr m"
      "\<not> fs_fault fs FsRead (manifestPath pf i)"
    using assms(3) by (auto simp: repo_load_Some)
  then show ?thesis
    unfolding listSessionManifests_iff [OF assms(2)]
    by (intro bexI [of _ "(manifestPath pf i, tx)"]) (simp_all add: assms(4) map_of_SomeD)
qed

lemma listed_entry_ok:
  assumes "repo_ok pf fs" "listSessionManifests pf sid fs = Inr ms" "m \<in> set ms"
  obtains tx where "map_of (fs_files fs) (manifestPath pf (manifest_identity m)) = Some tx"
    "parse_file pf tx = Inr m" "entry_ok pf (manifestPath pf (manifest_identity m)) m"
    "\<not> fs_fault fs FsRead (manifestPath pf (manifest_identity m))" "m_sessionId m = sid"
proof -
  obtain path tx where e: "(path, tx) \<in> set (fs_files fs)" "parse_file pf tx = Inr m"
      "m_sessionId m = sid" "\<not> fs_fault fs FsRead path"
    using assms(3) listSessionManifests_iff [OF assms(2)] by fastforce
  have "map_of (fs_files fs) path = Some tx"
    using assms(1) e(1) by (simp add: repo_ok_def)
  moreover have "path = manifestPath pf (manifest_identity m)"
    using repo_okD [OF assms(1) calculation e(2)] by (simp add: entry_ok_def)
  ultimately show ?thesis
    using that e repo_okD [OF assms(1) _ e(2)] by blast
qed

lemma listed_same_place:
  assumes ok: "repo_ok pf fs" and ms: "listSessionManifests pf sid fs = Inr ms"
    and m: "m \<in> set ms" and m': "m' \<in> set ms"
    and same: "manifestPath pf (manifest_identity m) = manifestPath pf (manifest_identity m')"
  shows "m = m'"
proof -
  obtain t where "map_of (fs_files fs) (manifestPath pf (manifest_identity m)) = Some t"
      "parse_file pf t = Inr m"
    using listed_entry_ok [OF ok ms m] by blast
  moreover obtain t' where "map_of (fs_files fs) (manifestPath pf (manifest_identity m')) = Some t'"
      "parse_file pf t' = Inr m'"
    using listed_entry_ok [OF ok ms m'] by blast
  ultimately show ?thesis using same by simp
qed

lemma load_listed:
  assumes "repo_ok pf fs" "listSessionManifests pf sid fs = Inr ms" "m \<in> set ms"
    and "manifestPath pf i = manifestPath pf (manifest_identity m)"
  shows "repo_load pf i fs = Inr (Some m)"
  using listed_entry_ok [OF assms(1-3)] assms(4) by (metis repo_load_Some)

text \<open>After a session was invalidated no manifest of it loads as ready.\<close>

lemma invalidateSession_load:
  assumes ok: "repo_ok pf fs" and now: "dateParses pf now"
    and inv: "repo_invalidateSession pf sid reason now fs = (Inr n, fs')"
    and ld: "repo_load pf i fs' = Inr (Some m)" and sid: "m_sessionId m = sid"
  shows "m_state m = Invalid"
proof -
  obtain ms where ms: "listSessionManifests pf sid fs = Inr ms"
      and each: "invalidate_each pf reason now ms 0 fs = (Inr n, fs')"
    using inv by (auto simp: repo_invalidateSession_def split: sum.splits)
  let ?rs = "filter (\<lambda>m. m_state m \<noteq> Invalid) ms"
  let ?ws = "map (invalidated reason now) ?rs"
  have st: "repo.store_all pf ?ws fs = (Inr (), fs')"
    using each by (auto simp: invalidate_each_store_all split: prod.splits sum.splits)
  have storable: "\<And>w. w \<in> set ?ws \<Longrightarrow> manifest_ok pf w"
    using listed_entry_ok [OF ok ms] now by (auto simp: entry_ok_def intro: invalidated_ok)
  show ?thesis
  proof (cases "manifestPath pf i \<in> manifestPath pf ` manifest_identity ` set ?ws")
    case True
    have "\<not> fs_fault fs FsRead (manifestPath pf i)"
      using ld repo.readable_store_all [OF st, of i] by (simp add: repo_load_Some)
    then obtain w where "w \<in> set ?ws" "repo_load pf i fs' = Inr (Some w)"
      using repo.store_all_load [OF st storable _ True] by blast
    then show ?thesis using ld by auto
  next
    case False
    then have "repo_load pf i fs = Inr (Some m)"
      using repo.store_all_elsewhere [OF st False] ld by simp
    then have "m \<in> set ms" "manifestPath pf i = manifestPath pf (manifest_identity m)"
      using repo_load_listed [OF ok ms _ sid] repo_ok_load [OF ok] by (auto simp: entry_ok_def)
    then show ?thesis using False by (force simp: image_iff)
  qed
qed

lemma remove_each_load:
  assumes "remove_each pf ms n fs = (Inr k, fs')"
  shows "repo_load pf i fs' =
    (if manifestPath pf i \<in> manifestPath pf ` manifest_identity ` set ms
     then (if fs_fault fs FsRead (manifestPath pf i) then Inl metadata_io else Inr None)
     else repo_load pf i fs)"
  using assms
proof (induction pf ms n fs rule: remove_each.induct)
  case (2 pf m ms n fs)
  obtain r fs1 where rm: "repo_remove pf (manifest_identity m) fs = (r, fs1)" by force
  then obtain b where r: "r = Inr b" and rest: "remove_each pf ms (if b then n + 1 else n) fs1 = (Inr k, fs')"
    using "2.prems" by (cases r) auto
  have flt: "fs_fault fs1 = fs_fault fs"
    using rm by (auto simp: repo_remove_def Let_def split: if_splits)
  have ld: "repo_load pf i fs1 =
      (if manifestPath pf i = manifestPath pf (manifest_identity m)
       then (if fs_fault fs FsRead (manifestPath pf i) then Inl metadata_io else Inr None)
       else repo_load pf i fs)"
    using rm r by (auto simp: repo_remove_def repo_load_def Let_def split: if_splits)
  show ?case
    using "2.IH" [OF rm [symmetric] r rest] ld flt by auto
qed simp

lemma removeSession_load:
  assumes ok: "repo_ok pf fs" and rm: "repo_removeSession pf sid fs = (Inr n, fs')"
    and ld: "repo_load pf i fs' = Inr (Some m)"
  shows "m_sessionId m \<noteq> sid"
proof
  assume sid: "m_sessionId m = sid"
  obtain ms where ms: "listSessionManifests pf sid fs = Inr ms"
      and each: "remove_each pf ms 0 fs = (Inr n, fs')"
    using rm by (auto simp: repo_removeSession_def split: sum.splits)
  have "repo_load pf i fs = Inr (Some m)" "manifestPath pf i \<notin> manifestPath pf ` manifest_identity ` set ms"
    using ld unfolding remove_each_load [OF each] by (auto split: if_splits)
  moreover have "m \<in> set ms" "manifestPath pf i = manifestPath pf (manifest_identity m)"
    using repo_load_listed [OF ok ms calculation(1) sid] repo_ok_load [OF ok calculation(1)]
    by (auto simp: entry_ok_def)
  ultimately show False by auto
qed

subsection \<open>The compatibility gate\<close>

lemma findCompatible_Some:
  assumes "repo_findCompatible pf ident wc fs = (Inr (Some m), fs')"
  shows "fs' = fs \<and> repo_load pf ident fs = Inr (Some m) \<and> m_state m = Ready \<and>
    m_serverInstanceKey m = si_serverInstanceKey ident \<and> m_provider m = si_provider ident \<and>
    m_model m = si_model ident \<and> m_compatibilityVersion m = si_compatibilityVersion ident"
  using assms
  by (auto simp: repo_findCompatible_def split: sum.splits option.splits if_splits prod.splits)

lemma markInvalid_cases:
  assumes "repo_markInvalid pf ident reason now fs = (r, fs')"
  shows "fs' = fs \<or> (\<exists>m u. repo_load pf ident fs = Inr (Some m) \<and> m_state m \<noteq> Invalid \<and>
    repo_write pf (invalidated reason now m) fs = (Inr u, fs'))"
proof (cases "repo_load pf ident fs")
  case (Inr x)
  show ?thesis
  proof (cases x)
    case (Some m)
    then show ?thesis
      using assms Inr repo.store_atomic [of pf "invalidated reason now m" fs _ fs']
      by (cases r) (auto simp: repo_markInvalid_def split: if_splits)
  qed (use assms Inr in \<open>simp add: repo_markInvalid_def\<close>)
qed (use assms in \<open>simp add: repo_markInvalid_def\<close>)

lemma markInvalid_ok:
  assumes "repo_ok pf fs" "dateParses pf now" "repo_markInvalid pf ident reason now fs = (r, fs')"
  shows "repo_ok pf fs'"
  using markInvalid_cases [OF assms(3)]
proof (elim disjE exE conjE)
  fix m u assume ld: "repo_load pf ident fs = Inr (Some m)"
    and w: "repo_write pf (invalidated reason now m) fs = (Inr u, fs')"
  have "entry_ok pf (manifestPath pf ident) m" by (rule repo_ok_load [OF assms(1) ld])
  then show ?thesis
    using repo_write_ok [OF assms(1) w] assms(2) by (simp add: entry_ok_def invalidated_ok)
qed (use assms(1) in simp)

lemma markInvalid_load:
  assumes "repo_ok pf fs" "dateParses pf now" "repo_markInvalid pf ident reason now fs = (Inr u, fs')"
    and "repo_load pf ident fs' = Inr (Some m)"
  shows "m_state m = Invalid"
proof (cases "\<exists>m0. repo_load pf ident fs = Inr (Some m0) \<and> m_state m0 \<noteq> Invalid")
  case True
  then obtain m0 where ld: "repo_load pf ident fs = Inr (Some m0)" and nv: "m_state m0 \<noteq> Invalid" by blast
  have w: "repo_write pf (invalidated reason now m0) fs = (Inr u, fs')"
    using assms(3) ld nv by (simp add: repo_markInvalid_def)
  have e: "entry_ok pf (manifestPath pf ident) m0" by (rule repo_ok_load [OF assms(1) ld])
  have "repo_load pf ident fs' = Inr (Some (invalidated reason now m0))"
    by (rule repo_load_written [OF w])
      (use e ld assms(2) in \<open>auto simp: entry_ok_def repo_load_Some intro: invalidated_ok\<close>)
  then show ?thesis using assms(4) by auto
next
  case False
  then show ?thesis
    using assms(3,4) by (auto simp: repo_markInvalid_def split: sum.splits option.splits if_splits)
qed

lemma findCompatible_ok:
  assumes "repo_ok pf fs" "dateParses pf wc" "repo_findCompatible pf ident wc fs = (r, fs')"
  shows "repo_ok pf fs'"
  using assms(3) markInvalid_ok [OF assms(1,2), of ident MODEL_FINGERPRINT_CHANGED] assms(1)
  by (auto simp: repo_findCompatible_def split: sum.splits option.splits if_splits prod.splits)

lemma invalidate_each_ok:
  assumes "invalidate_each pf reason now ms n fs = (r, fs')" "repo_ok pf fs"
    and "\<And>m. m \<in> set ms \<Longrightarrow> manifest_ok pf m \<and> m_snapshotFilename m = snapshotFilename pf (manifest_identity m)"
    and "dateParses pf now"
  shows "repo_ok pf fs'"
  using assms
proof (induction pf reason now ms n fs rule: invalidate_each.induct)
  case (2 pf reason now m ms n fs)
  show ?case
  proof (cases "m_state m = Invalid")
    case False
    obtain r1 fs1 where w: "repo_write pf (invalidated reason now m) fs = (r1, fs1)" by force
    have ok1: "repo_ok pf fs1"
      by (rule repo_write_ok [OF "2.prems"(2) w]) (use "2.prems"(3,4) in \<open>auto intro: invalidated_ok\<close>)
    show ?thesis
      using "2.IH"(2) [OF False w [symmetric]] "2.prems" ok1 False w by (cases r1) auto
  qed (use 2 in auto)
qed simp

lemma invalidateSession_ok:
  assumes "repo_ok pf fs" "dateParses pf now" "repo_invalidateSession pf sid reason now fs = (r, fs')"
  shows "repo_ok pf fs'"
proof (cases "listSessionManifests pf sid fs")
  case (Inr ms)
  then have "invalidate_each pf reason now ms 0 fs = (r, fs')"
    using assms(3) by (simp add: repo_invalidateSession_def)
  then show ?thesis
    by (rule invalidate_each_ok [OF _ assms(1) _ assms(2)])
      (use listed_entry_ok [OF assms(1) Inr] in \<open>auto simp: entry_ok_def\<close>)
qed (use assms in \<open>simp add: repo_invalidateSession_def\<close>)

lemma remove_each_ok:
  "remove_each pf ms n fs = (r, fs') \<Longrightarrow> repo_ok pf fs \<Longrightarrow> repo_ok pf fs'"
  by (induction pf ms n fs rule: remove_each.induct)
    (auto split: prod.splits sum.splits if_splits dest: repo_remove_ok)

lemma removeSession_ok:
  "repo_ok pf fs \<Longrightarrow> repo_removeSession pf sid fs = (r, fs') \<Longrightarrow> repo_ok pf fs'"
  by (auto simp: repo_removeSession_def split: sum.splits dest: remove_each_ok)

end
