(* ===== verification/KvCoordinator.thy ===== *)
theory KvCoordinator
  imports KvState KvBreaker KvBackend KvRepository
begin

text \<open>
  The single-slot coordinator
  (\<open>plugins/dsh-kv-persist/src/coordinator/coordinator.ts\<close>): its private state as a
  record, every method that runs under the slot lease as a function of that state. The
  backend and the clock act on a world \<open>'w\<close> that is part of the state. \<open>kv_calls\<close> is the
  only field the class has not: the sequence of backend calls made so far.
  Logging is left out.
\<close>

datatype backend_call = CSave int string | CRestore int string | CErase int

record 'w kv =
  kv_slot :: managed_slot
  kv_sessions :: "string \<Rightarrow> session_runtime option"
  kv_breaker :: circuit_breaker
  kv_counters :: kv_counters
  kv_repo :: repo_fs
  kv_idleTimer :: "string option"
  kv_disposed :: bool
  kv_calls :: "backend_call list"
  kv_world :: 'w

text \<open>What the constructor is given; \<open>env_wallclock\<close> is \<open>new Date().toISOString()\<close>.\<close>

record 'w kv_env =
  env_cfg :: kv_config
  env_backend :: "'w backend"
  env_now :: "'w \<Rightarrow> int \<times> 'w"
  env_wallclock :: "'w \<Rightarrow> string"
  env_platform :: platform

definition new_coordinator :: "'w kv_env \<Rightarrow> repo_fs \<Rightarrow> 'w \<Rightarrow> 'w kv" where
  "new_coordinator env fs w =
     \<lparr>kv_slot = createManagedSlot (c_slotId (env_cfg env)),
      kv_sessions = (\<lambda>_. None),
      kv_breaker = new_breaker (c_maxConsecutiveFailures (env_cfg env)) (c_cooldownMs (env_cfg env)),
      kv_counters = new_counters,
      kv_repo = fs, kv_idleTimer = None, kv_disposed = False, kv_calls = [], kv_world = w\<rparr>"

subsection \<open>Field updates\<close>

abbreviation owner_of :: "'w kv \<Rightarrow> string option" where
  "owner_of s \<equiv> sl_owner (kv_slot s)"

definition set_slot :: "(managed_slot \<Rightarrow> managed_slot) \<Rightarrow> 'w kv \<Rightarrow> 'w kv" where
  "set_slot f s = s\<lparr>kv_slot := f (kv_slot s)\<rparr>"

abbreviation set_slot_state :: "slot_state \<Rightarrow> 'w kv \<Rightarrow> 'w kv" where
  "set_slot_state st \<equiv> set_slot (\<lambda>sl. sl\<lparr>sl_state := st\<rparr>)"

definition set_session :: "string \<Rightarrow> (session_runtime \<Rightarrow> session_runtime) \<Rightarrow> 'w kv \<Rightarrow> 'w kv" where
  "set_session sid f s = s\<lparr>kv_sessions := (kv_sessions s)(sid := map_option f (kv_sessions s sid))\<rparr>"

abbreviation set_lifecycle :: "string \<Rightarrow> lifecycle \<Rightarrow> 'w kv \<Rightarrow> 'w kv" where
  "set_lifecycle sid l \<equiv> set_session sid (\<lambda>r. r\<lparr>sn_lifecycle := l\<rparr>)"

definition count :: "(kv_counters \<Rightarrow> kv_counters) \<Rightarrow> 'w kv \<Rightarrow> 'w kv" where
  "count f s = s\<lparr>kv_counters := f (kv_counters s)\<rparr>"

definition now :: "'w kv_env \<Rightarrow> 'w kv \<Rightarrow> int \<times> 'w kv" where
  "now env s = (case env_now env (kv_world s) of (t, w) \<Rightarrow> (t, s\<lparr>kv_world := w\<rparr>))"

definition iso :: "'w kv_env \<Rightarrow> 'w kv \<Rightarrow> string \<times> 'w kv" where
  "iso env s = (case now env s of (t, s1) \<Rightarrow> (isoString (env_platform env) t, s1))"

text \<open>\<open>this.#breaker.isOpen(this.#now())\<close>, \<open>this.#breaker.recordFailure(this.#now())\<close>\<close>

definition circuit_open :: "'w kv_env \<Rightarrow> 'w kv \<Rightarrow> bool \<times> 'w kv" where
  "circuit_open env s = (case now env s of (t, s1) \<Rightarrow> (br_isOpen t (kv_breaker s1), s1))"

definition breaker_failure :: "'w kv_env \<Rightarrow> 'w kv \<Rightarrow> 'w kv" where
  "breaker_failure env s =
     (case now env s of (t, s1) \<Rightarrow> s1\<lparr>kv_breaker := br_recordFailure t (kv_breaker s1)\<rparr>)"

definition breaker_success :: "'w kv \<Rightarrow> 'w kv" where
  "breaker_success s = s\<lparr>kv_breaker := br_recordSuccess (kv_breaker s)\<rparr>"

subsection \<open>Backend calls\<close>

definition call_save :: "'w kv_env \<Rightarrow> string \<Rightarrow> 'w kv \<Rightarrow> (kv_error + int option) \<times> 'w kv" where
  "call_save env f s =
     (case be_saveSlot (env_backend env) (sl_id (kv_slot s)) f (kv_world s) of
        (r, w) \<Rightarrow> (r, s\<lparr>kv_world := w, kv_calls := kv_calls s @ [CSave (sl_id (kv_slot s)) f]\<rparr>))"

definition call_restore :: "'w kv_env \<Rightarrow> string \<Rightarrow> 'w kv \<Rightarrow> (kv_error + int option) \<times> 'w kv" where
  "call_restore env f s =
     (case be_restoreSlot (env_backend env) (sl_id (kv_slot s)) f (kv_world s) of
        (r, w) \<Rightarrow> (r, s\<lparr>kv_world := w, kv_calls := kv_calls s @ [CRestore (sl_id (kv_slot s)) f]\<rparr>))"

definition call_erase :: "'w kv_env \<Rightarrow> 'w kv \<Rightarrow> (kv_error + unit) \<times> 'w kv" where
  "call_erase env s =
     (case be_eraseSlot (env_backend env) (sl_id (kv_slot s)) (kv_world s) of
        (r, w) \<Rightarrow> (r, s\<lparr>kv_world := w, kv_calls := kv_calls s @ [CErase (sl_id (kv_slot s))]\<rparr>))"

subsection \<open>Internals\<close>

definition ensureRuntime :: "string \<Rightarrow> route \<Rightarrow> 'w kv \<Rightarrow> 'w kv" where
  "ensureRuntime sid rt s =
     (case kv_sessions s sid of
        Some r \<Rightarrow> s\<lparr>kv_sessions := (kv_sessions s)(sid \<mapsto> r\<lparr>sn_route := rt\<rparr>)\<rparr>
      | None \<Rightarrow> s\<lparr>kv_sessions := (kv_sessions s)(sid \<mapsto> createSessionRuntime sid rt)\<rparr>)"

definition requireRuntime :: "string \<Rightarrow> 'w kv \<Rightarrow> kv_error + session_runtime" where
  "requireRuntime sid s =
     (case kv_sessions s sid of
        None \<Rightarrow> Inl (KvError KV_INVARIANT ''missing session runtime'')
      | Some r \<Rightarrow> Inr r)"

definition identityFor :: "'w kv_env \<Rightarrow> string \<Rightarrow> route \<Rightarrow> kv_error + snapshot_identity" where
  "identityFor env sid rt =
     buildSnapshotIdentity (env_platform env) sid rt (c_baseURL (env_cfg env)) (c_runtimeKey (env_cfg env))"

definition assignSlot :: "'w kv_env \<Rightarrow> string \<Rightarrow> slot_state \<Rightarrow> 'w kv \<Rightarrow> 'w kv" where
  "assignSlot env sid st s =
     (let switched = owner_of s \<noteq> Some sid;
          s1 = set_slot (\<lambda>sl. sl\<lparr>sl_owner := Some sid, sl_state := st, sl_snapshotRevision := None\<rparr>) s;
          (t, s2) = now env s1;
          s3 = set_slot (\<lambda>sl. sl\<lparr>sl_lastUsedAt := Some t\<rparr>) s2
      in if switched then count (\<lambda>c. c\<lparr>ct_slotSwitches := ct_slotSwitches c + 1\<rparr>) s3 else s3)"

definition eraseSlotBestEffort :: "'w kv_env \<Rightarrow> 'w kv \<Rightarrow> 'w kv" where
  "eraseSlotBestEffort env s =
     (case call_erase env s of
        (Inr _, s1) \<Rightarrow> count (\<lambda>c. c\<lparr>ct_erases := ct_erases c + 1\<rparr>) s1
      | (Inl e, s1) \<Rightarrow> breaker_failure env s1)"

definition findCompatibleManifest :: "'w kv_env \<Rightarrow> snapshot_identity \<Rightarrow> 'w kv \<Rightarrow> manifest option \<times> 'w kv" where
  "findCompatibleManifest env ident s =
     (case repo_findCompatible (env_platform env) ident (env_wallclock env (kv_world s)) (kv_repo s) of
        (Inr m, fs) \<Rightarrow> (m, s\<lparr>kv_repo := fs\<rparr>)
      | (Inl e, fs) \<Rightarrow> (None, s\<lparr>kv_repo := fs\<rparr>))"

definition loseSlotTracking :: "'w kv \<Rightarrow> 'w kv" where
  "loseSlotTracking =
     set_slot (\<lambda>sl. sl\<lparr>sl_owner := None, sl_state := SUnknown, sl_snapshotRevision := None\<rparr>)"

definition releaseOwner :: "'w kv \<Rightarrow> 'w kv" where
  "releaseOwner = set_slot (\<lambda>sl. sl\<lparr>sl_owner := None, sl_state := SIdle\<rparr>)"

definition cancelIdleTimer :: "'w kv \<Rightarrow> 'w kv" where
  "cancelIdleTimer s = s\<lparr>kv_idleTimer := None\<rparr>"

definition scheduleIdleCheckpoint :: "'w kv_env \<Rightarrow> string \<Rightarrow> 'w kv \<Rightarrow> 'w kv" where
  "scheduleIdleCheckpoint env sid s =
     (let s1 = cancelIdleTimer s in
      if c_idleMs (env_cfg env) \<le> 0 then s1 else s1\<lparr>kv_idleTimer := Some sid\<rparr>)"

subsection \<open>Saving\<close>

definition snap_result ::
  "snapshot_kind \<Rightarrow> string \<Rightarrow> nat \<Rightarrow> int option \<Rightarrow> result_note option \<Rightarrow> snapshot_result" where
  "snap_result k sid rv bytes err =
     \<lparr>sr_kind = k, sr_sessionId = sid, sr_revision = rv, sr_bytes = bytes, sr_error = err\<rparr>"

text \<open>The \<open>catch\<close> branch of a save attempt.\<close>

definition save_failed :: "'w kv_env \<Rightarrow> string \<Rightarrow> nat \<Rightarrow> kv_error \<Rightarrow> 'w kv \<Rightarrow> snapshot_result \<times> 'w kv" where
  "save_failed env sid generation e s =
     (let s1 = breaker_failure env s;
          s2 = count (\<lambda>c. c\<lparr>ct_saveFailures := ct_saveFailures c + 1\<rparr>) s1;
          s3 = (if owner_of s2 = Some sid then set_slot_state SDirty s2 else s2);
          s4 = set_lifecycle sid LActiveDirty s3
      in (snap_result Failed sid generation None (Some (CaughtError e)), s4))"

text \<open>The rest of the \<open>try\<close> block once the snapshot and its manifest are stored.\<close>

definition save_succeeded ::
  "'w kv_env \<Rightarrow> string \<Rightarrow> nat \<Rightarrow> int \<Rightarrow> int option \<Rightarrow> 'w kv \<Rightarrow> snapshot_result \<times> 'w kv" where
  "save_succeeded env sid generation startedAt bytes s =
     (let s1 = set_session sid (markPersisted generation) s;
          s2 = (if owner_of s1 = Some sid then set_slot_state SReady s1 else s1);
          s3 = breaker_success s2;
          (t, s4) = now env s3;
          s5 = count (\<lambda>c. c\<lparr>ct_saves := ct_saves c + 1,
                 ct_saveDurationMs := ct_saveDurationMs c + (t - startedAt)\<rparr>) s4
      in (snap_result Saved sid generation bytes None, s5))"

text \<open>The attempt: guard the file name, save the slot, store the manifest.\<close>

definition save_attempt ::
  "'w kv_env \<Rightarrow> string \<Rightarrow> snapshot_identity \<Rightarrow> nat \<Rightarrow> int \<Rightarrow> 'w kv \<Rightarrow> snapshot_result \<times> 'w kv" where
  "save_attempt env sid ident generation startedAt s =
     (let file = snapshotFilename (env_platform env) ident in
      case assertPluginGeneratedFilename file of
        Inl e \<Rightarrow> save_failed env sid generation e s
      | Inr _ \<Rightarrow>
          (case call_save env file s of
             (Inl e, s1) \<Rightarrow> save_failed env sid generation e s1
           | (Inr bytes, s1) \<Rightarrow>
               (let (ts, s2) = iso env s1 in
                case repo_put (env_platform env)
                       \<lparr>pi_identity = ident, pi_slotId = num_of (sl_id (kv_slot s2)),
                        pi_sessionSeq = None, pi_tokens = None, pi_bytes = bytes, pi_now = ts\<rparr>
                       (kv_repo s2) of
                  (Inl e, fs) \<Rightarrow> save_failed env sid generation e (s2\<lparr>kv_repo := fs\<rparr>)
                | (Inr m, fs) \<Rightarrow>
                    save_succeeded env sid generation startedAt bytes (s2\<lparr>kv_repo := fs\<rparr>))))"

text \<open>
  \<open>#saveOwnedSession\<close>. The attempt is awaited under the lease: \<open>saveInFlight\<close> is set for
  its duration and cleared by its \<open>finally\<close>.
\<close>

definition saveOwnedSession ::
  "'w kv_env \<Rightarrow> string \<Rightarrow> 'w kv \<Rightarrow> (kv_error + snapshot_result) \<times> 'w kv" where
  "saveOwnedSession env sid s =
     (case kv_sessions s sid of
        None \<Rightarrow> (Inr (snap_result SkippedClean sid 0 None None), s)
      | Some r \<Rightarrow>
          if \<not> isDirty r then (Inr (snap_result SkippedClean sid (sn_persistedRevision r) None None), s)
          else if owner_of s \<noteq> Some sid
            then (Inr (snap_result SkippedNotOwner sid (sn_dirtyRevision r) None None), s)
          else (case sn_saveInFlight r of
                  Some pending \<Rightarrow> (Inr pending, s)
                | None \<Rightarrow>
                    (case identityFor env sid (sn_route r) of
                       Inl e \<Rightarrow> (Inl e, s)
                     | Inr ident \<Rightarrow>
                         (let generation = sn_dirtyRevision r;
                              (startedAt, s1) = now env s;
                              s2 = set_slot_state SSaving s1;
                              s3 = set_lifecycle sid LSaving s2;
                              (res, s4) = save_attempt env sid ident generation startedAt s3;
                              s5 = set_session sid (\<lambda>r. r\<lparr>sn_saveInFlight := None\<rparr>) s4
                          in (Inr res, s5)))))"

subsection \<open>Preparing a session\<close>

definition outcome :: "restore_kind \<Rightarrow> string \<Rightarrow> result_note option \<Rightarrow> restore_outcome" where
  "outcome k sid err =
     \<lparr>ro_kind = k, ro_sessionId = sid, ro_tokens = None, ro_bytes = None, ro_durationMs = None,
      ro_error = err\<rparr>"

text \<open>Step 3: cold assignment.\<close>

definition cold_assign :: "'w kv_env \<Rightarrow> string \<Rightarrow> 'w kv \<Rightarrow> restore_outcome \<times> 'w kv" where
  "cold_assign env sid s =
     (let s1 = eraseSlotBestEffort env s;
          s2 = assignSlot env sid SIdle s1;
          s3 = set_lifecycle sid LCold s2;
          s4 = count (\<lambda>c. c\<lparr>ct_coldPrefills := ct_coldPrefills c + 1\<rparr>) s3
      in (outcome ColdStart sid None, s4))"

text \<open>The \<open>catch\<close> branch of step 4.\<close>

definition restore_failed ::
  "'w kv_env \<Rightarrow> string \<Rightarrow> snapshot_identity \<Rightarrow> kv_error \<Rightarrow> 'w kv \<Rightarrow> restore_outcome \<times> 'w kv" where
  "restore_failed env sid ident e s =
     (let (ts, s1) = iso env s;
          s2 = s1\<lparr>kv_repo := snd (repo_markInvalid (env_platform env) ident RESTORE_FAILED ts (kv_repo s1))\<rparr>;
          s3 = eraseSlotBestEffort env s2;
          s4 = assignSlot env sid SIdle s3;
          s5 = set_lifecycle sid LCold s4;
          s6 = count (\<lambda>c. c\<lparr>ct_restoreFailures := ct_restoreFailures c + 1,
                            ct_coldPrefills := ct_coldPrefills c + 1\<rparr>) s5;
          s7 = breaker_failure env s6
      in (outcome ColdFallback sid (Some (CaughtError e)), s7))"

definition restore_succeeded ::
  "'w kv_env \<Rightarrow> string \<Rightarrow> manifest \<Rightarrow> int \<Rightarrow> int option \<Rightarrow> 'w kv \<Rightarrow> restore_outcome \<times> 'w kv" where
  "restore_succeeded env sid m startedAt nRestored s =
     (let (t, s1) = now env s;
          s2 = assignSlot env sid SReady s1;
          s3 = set_lifecycle sid LActiveClean s2;
          s4 = count (\<lambda>c. c\<lparr>ct_restores := ct_restores c + 1, ct_restoreHits := ct_restoreHits c + 1,
                 ct_restoreDurationMs := ct_restoreDurationMs c + (t - startedAt)\<rparr>) s3;
          s5 = breaker_success s4
      in (\<lparr>ro_kind = Restored, ro_sessionId = sid, ro_tokens = nRestored, ro_bytes = m_bytes m,
           ro_durationMs = Some (t - startedAt), ro_error = None\<rparr>, s5))"

text \<open>Step 4: lazy restore of a compatible snapshot.\<close>

definition restore_attempt ::
  "'w kv_env \<Rightarrow> string \<Rightarrow> snapshot_identity \<Rightarrow> manifest \<Rightarrow> 'w kv \<Rightarrow> restore_outcome \<times> 'w kv" where
  "restore_attempt env sid ident m s =
     (let (startedAt, s1) = now env s;
          s2 = set_slot_state SRestoring s1;
          s3 = set_lifecycle sid LRestoring s2
      in case assertPluginGeneratedFilename (m_snapshotFilename m) of
           Inl e \<Rightarrow> restore_failed env sid ident e s3
         | Inr _ \<Rightarrow>
             (case call_restore env (m_snapshotFilename m) s3 of
                (Inl e, s4) \<Rightarrow> restore_failed env sid ident e s4
              | (Inr nRestored, s4) \<Rightarrow>
                  if c_restoreVerify (env_cfg env) \<and>
                     (case nRestored of None \<Rightarrow> False | Some n \<Rightarrow> n \<le> 0)
                  then restore_failed env sid ident (KvError KV_RESTORE_FAILED ''verification'') s4
                  else restore_succeeded env sid m startedAt nRestored s4))"

text \<open>Step 2: save-before-evict.\<close>

definition evict_owner :: "'w kv_env \<Rightarrow> string \<Rightarrow> 'w kv \<Rightarrow> (kv_error + unit) \<times> 'w kv" where
  "evict_owner env sid s =
     (case owner_of s of
        None \<Rightarrow> (Inr (), s)
      | Some owner \<Rightarrow>
          if owner = sid then (Inr (), s)
          else
           (let s1 = count (\<lambda>c. c\<lparr>ct_slotSwitches := ct_slotSwitches c + 1\<rparr>) s in
            if shouldCheckpoint (env_cfg env) (kv_sessions s1 owner) TSwitch
            then (case saveOwnedSession env owner s1 of
                    (Inl e, s2) \<Rightarrow> (Inl e, s2) | (Inr _, s2) \<Rightarrow> (Inr (), s2))
            else (Inr (), s1)))"

definition slot_resident :: "string \<Rightarrow> 'w kv \<Rightarrow> bool" where
  "slot_resident sid s \<longleftrightarrow> owner_of s = Some sid \<and> sl_state (kv_slot s) \<noteq> SBroken
     \<and> sl_state (kv_slot s) \<noteq> SUnknown"

definition prepareSession ::
  "'w kv_env \<Rightarrow> string \<Rightarrow> snapshot_identity \<Rightarrow> 'w kv \<Rightarrow> (kv_error + restore_outcome) \<times> 'w kv" where
  "prepareSession env sid ident s =
     (case requireRuntime sid s of
        Inl e \<Rightarrow> (Inl e, s)
      | Inr r \<Rightarrow>
          if slot_resident sid s then
            (Inr (outcome AlreadyActive sid None),
             set_lifecycle sid (if isDirty r then LActiveDirty else LActiveClean) s)
          else
           (case evict_owner env sid s of
              (Inl e, s1) \<Rightarrow> (Inl e, s1)
            | (Inr _, s1) \<Rightarrow>
                (let (found, s2) = (if c_restoreEnabled (env_cfg env)
                                    then findCompatibleManifest env ident s1 else (None, s1))
                 in case found of
                      None \<Rightarrow> (case cold_assign env sid s2 of (out, s3) \<Rightarrow> (Inr out, s3))
                    | Some m \<Rightarrow> (case restore_attempt env sid ident m s2 of (out, s3) \<Rightarrow> (Inr out, s3)))))"

subsection \<open>Requests\<close>

record request =
  req_sessionId :: "string option"
  req_route :: route
  req_purpose :: "string option"

text \<open>
  The leased part of \<open>runSessionRequest\<close> up to \<open>#execute\<close>: on the right the stream may
  start, on the left the request fails (and the caller releases the lease).
\<close>

definition session_request_body ::
  "'w kv_env \<Rightarrow> string \<Rightarrow> route \<Rightarrow> 'w kv \<Rightarrow> (kv_error + unit) \<times> 'w kv" where
  "session_request_body env sid rt s =
     (if kv_disposed s then (Inl (KvError KV_COORDINATOR_DISPOSED ''request''), s)
      else
       (let s1 = cancelIdleTimer s;
            (isOpen, s2) = circuit_open env s1
        in if isOpen then
             (Inr (), loseSlotTracking (count (\<lambda>c. c\<lparr>ct_circuitSkips := ct_circuitSkips c + 1\<rparr>) s2))
           else
            (case identityFor env sid rt of
               Inl e \<Rightarrow> (Inl e, s2)
             | Inr ident \<Rightarrow>
                 (case prepareSession env sid ident s2 of
                    (Inl e, s3) \<Rightarrow> (Inl e, s3)
                  | (Inr out, s3) \<Rightarrow>
                      if c_strict (env_cfg env) \<and> ro_kind out = ColdFallback
                      then (Inl (KvError KV_RESTORE_FAILED ''strict mode''), s3)
                      else if owner_of s3 = Some sid then
                        (let s4 = set_slot_state SInference s3;
                             (t, s5) = now env s4
                         in (Inr (), set_slot (\<lambda>sl. sl\<lparr>sl_lastUsedAt := Some t\<rparr>) s5))
                      else (Inr (), s3)))))"

definition auxiliary_body :: "'w kv_env \<Rightarrow> 'w kv \<Rightarrow> (kv_error + unit) \<times> 'w kv" where
  "auxiliary_body env s =
     (if kv_disposed s then (Inl (KvError KV_COORDINATOR_DISPOSED ''request''), s)
      else
       (let s1 = cancelIdleTimer s;
            (isOpen, s2) = circuit_open env s1
        in if isOpen then
             (Inr (), loseSlotTracking (count (\<lambda>c. c\<lparr>ct_circuitSkips := ct_circuitSkips c + 1\<rparr>) s2))
           else
            (case owner_of s2 of
               None \<Rightarrow> (Inr (), s2)
             | Some owner \<Rightarrow>
                 (case (if shouldCheckpoint (env_cfg env) (kv_sessions s2 owner) TSwitch
                        then saveOwnedSession env owner s2
                        else (Inr (snap_result SkippedClean owner 0 None None), s2)) of
                    (Inl e, s3) \<Rightarrow> (Inl e, s3)
                  | (Inr _, s3) \<Rightarrow> (Inr (), releaseOwner s3)))))"

text \<open>\<open>finish(succeeded)\<close> of the stream wrapper.\<close>

definition onInferenceSuccess :: "'w kv_env \<Rightarrow> string \<Rightarrow> 'w kv \<Rightarrow> 'w kv" where
  "onInferenceSuccess env sid s =
     (let s1 = set_session sid markDirty s in
      if owner_of s1 = Some sid then
        (let s2 = set_slot_state SDirty s1;
             (t, s3) = now env s2;
             s4 = set_slot (\<lambda>sl. sl\<lparr>sl_lastUsedAt := Some t\<rparr>) s3
         in scheduleIdleCheckpoint env sid s4)
      else s1)"

subsection \<open>Checkpoints, management, shutdown\<close>

definition checkpoint_body ::
  "'w kv_env \<Rightarrow> string \<Rightarrow> checkpoint_trigger \<Rightarrow> 'w kv \<Rightarrow> (kv_error + snapshot_result option) \<times> 'w kv" where
  "checkpoint_body env sid trigger s =
     (if \<not> shouldCheckpoint (env_cfg env) (kv_sessions s sid) trigger then (Inr None, s)
      else
       (let (isOpen, s1) = circuit_open env s in
        if isOpen then (Inr None, s1)
        else (case saveOwnedSession env sid s1 of
                (Inl e, s2) \<Rightarrow> (Inl e, s2) | (Inr res, s2) \<Rightarrow> (Inr (Some res), s2))))"

definition forget_session :: "string \<Rightarrow> 'w kv \<Rightarrow> 'w kv" where
  "forget_session sid s = s\<lparr>kv_sessions := (kv_sessions s)(sid := None)\<rparr>"

text \<open>\<open>handleSessionDisposed\<close>: the final checkpoint, then release and forget.\<close>

definition disposed_checkpoint :: "'w kv_env \<Rightarrow> string \<Rightarrow> 'w kv \<Rightarrow> (kv_error + unit) \<times> 'w kv" where
  "disposed_checkpoint env sid s =
     (if kv_sessions s sid \<noteq> None \<and> owner_of s = Some sid \<and>
         shouldCheckpoint (env_cfg env) (kv_sessions s sid) TSessionDisposed
      then (let (isOpen, s1) = circuit_open env s in
            if \<not> isOpen
            then (case saveOwnedSession env sid s1 of
                    (Inl e, s2) \<Rightarrow> (Inl e, s2) | (Inr _, s2) \<Rightarrow> (Inr (), s2))
            else (Inr (), s1))
      else (Inr (), s))"

definition disposed_end :: "string \<Rightarrow> 'w kv \<Rightarrow> 'w kv" where
  "disposed_end sid s =
     (let s1 = (if owner_of s = Some sid then releaseOwner s else s);
          s2 = forget_session sid s1
      in if kv_idleTimer s2 = Some sid then cancelIdleTimer s2 else s2)"

definition disposed_body :: "'w kv_env \<Rightarrow> string \<Rightarrow> 'w kv \<Rightarrow> (kv_error + unit) \<times> 'w kv" where
  "disposed_body env sid s =
     (case disposed_checkpoint env sid s of
        (Inl e, s1) \<Rightarrow> (Inl e, s1)
      | (Inr _, s1) \<Rightarrow> (Inr (), disposed_end sid s1))"

definition flushOwned_body :: "'w kv_env \<Rightarrow> checkpoint_trigger \<Rightarrow> 'w kv \<Rightarrow> (kv_error + unit) \<times> 'w kv" where
  "flushOwned_body env trigger s =
     (case owner_of s of
        None \<Rightarrow> (Inr (), s)
      | Some owner \<Rightarrow>
          if \<not> shouldCheckpoint (env_cfg env) (kv_sessions s owner) trigger then (Inr (), s)
          else
           (let (isOpen, s1) = circuit_open env s in
            if isOpen then (Inr (), s1)
            else (case saveOwnedSession env owner s1 of
                    (Inl e, s2) \<Rightarrow> (Inl e, s2) | (Inr _, s2) \<Rightarrow> (Inr (), s2))))"

definition idle_body :: "'w kv_env \<Rightarrow> string \<Rightarrow> 'w kv \<Rightarrow> (kv_error + unit) \<times> 'w kv" where
  "idle_body env sid s =
     (if kv_disposed s then (Inr (), s)
      else if owner_of s \<noteq> Some sid then (Inr (), s)
      else if \<not> shouldCheckpoint (env_cfg env) (kv_sessions s sid) TIdle then (Inr (), s)
      else
       (let (isOpen, s1) = circuit_open env s in
        if isOpen then (Inr (), s1)
        else (case saveOwnedSession env sid s1 of
                (Inl e, s2) \<Rightarrow> (Inl e, s2) | (Inr _, s2) \<Rightarrow> (Inr (), s2))))"

definition restoreNow_body :: "'w kv_env \<Rightarrow> string \<Rightarrow> 'w kv \<Rightarrow> (kv_error + restore_outcome) \<times> 'w kv" where
  "restoreNow_body env sid s =
     (case kv_sessions s sid of
        None \<Rightarrow> (Inr (outcome ColdStart sid (Some (Note ''no known route for session''))), s)
      | Some r \<Rightarrow>
          (let (isOpen, s1) = circuit_open env s in
           if isOpen then (Inr (outcome ColdFallback sid (Some (Note ''circuit open''))), s1)
           else (case identityFor env sid (sn_route r) of
                   Inl e \<Rightarrow> (Inl e, s1)
                 | Inr ident \<Rightarrow> prepareSession env sid ident s1)))"

definition saveNow_body :: "'w kv_env \<Rightarrow> string \<Rightarrow> 'w kv \<Rightarrow> (kv_error + snapshot_result) \<times> 'w kv" where
  "saveNow_body env sid s =
     (if \<not> shouldCheckpoint (env_cfg env) (kv_sessions s sid) TManual
      then (Inr (snap_result SkippedClean sid 0 None (Some (Note ''nothing to save''))), s)
      else saveOwnedSession env sid s)"

definition invalidate_body ::
  "'w kv_env \<Rightarrow> string \<Rightarrow> invalidation_reason \<Rightarrow> 'w kv \<Rightarrow> (kv_error + unit) \<times> 'w kv" where
  "invalidate_body env sid reason s =
     (let s1 = set_lifecycle sid LInvalid s;
          s2 = (if owner_of s1 = Some sid then releaseOwner (eraseSlotBestEffort env s1) else s1);
          (ts, s3) = iso env s2
      in case repo_invalidateSession (env_platform env) sid reason ts (kv_repo s3) of
           (Inl e, fs) \<Rightarrow> (Inl e, s3\<lparr>kv_repo := fs\<rparr>)
         | (Inr _, fs) \<Rightarrow> (Inr (), s3\<lparr>kv_repo := fs\<rparr>))"

definition purge_body :: "'w kv_env \<Rightarrow> string \<Rightarrow> 'w kv \<Rightarrow> (kv_error + unit) \<times> 'w kv" where
  "purge_body env sid s =
     (let s1 = (if owner_of s = Some sid then releaseOwner (eraseSlotBestEffort env s) else s) in
      case repo_removeSession (env_platform env) sid (kv_repo s1) of
        (Inl e, fs) \<Rightarrow> (Inl e, s1\<lparr>kv_repo := fs\<rparr>)
      | (Inr _, fs) \<Rightarrow> (Inr (), forget_session sid (s1\<lparr>kv_repo := fs\<rparr>)))"

text \<open>Outside the lease: the probe.\<close>

definition probeBackend :: "'w kv_env \<Rightarrow> 'w kv \<Rightarrow> (kv_error + jsnum list) \<times> 'w kv" where
  "probeBackend env s =
     (case be_probe (env_backend env) (kv_world s) of
        (Inr ids, w) \<Rightarrow> (Inr ids, breaker_success (s\<lparr>kv_world := w\<rparr>))
      | (Inl e, w) \<Rightarrow> (Inl e, s\<lparr>kv_world := w\<rparr>))"

end
