(* ===== verification/KvInvariant.thy ===== *)
theory KvInvariant
  imports KvCoordinator
begin

text \<open>
  The coordinator's invariant: what every method that runs under the lease keeps true of
  sessions, slot, breaker, snapshot store and call history, whatever the backend and the
  file system answer. The first part says what each primitive step leaves alone; the
  methods' proofs are rewriting with these facts.
\<close>

subsection \<open>What the primitives change\<close>

lemma set_slot_fields [frame_simps]:
  "kv_slot (set_slot f s) = f (kv_slot s)" "kv_sessions (set_slot f s) = kv_sessions s"
  "kv_breaker (set_slot f s) = kv_breaker s" "kv_counters (set_slot f s) = kv_counters s"
  "kv_repo (set_slot f s) = kv_repo s" "kv_idleTimer (set_slot f s) = kv_idleTimer s"
  "kv_disposed (set_slot f s) = kv_disposed s" "kv_calls (set_slot f s) = kv_calls s"
  by (simp_all add: set_slot_def)

lemma set_session_fields [frame_simps]:
  "kv_slot (set_session i f s) = kv_slot s"
  "kv_sessions (set_session i f s) = (kv_sessions s)(i := map_option f (kv_sessions s i))"
  "kv_breaker (set_session i f s) = kv_breaker s" "kv_counters (set_session i f s) = kv_counters s"
  "kv_repo (set_session i f s) = kv_repo s" "kv_idleTimer (set_session i f s) = kv_idleTimer s"
  "kv_disposed (set_session i f s) = kv_disposed s" "kv_calls (set_session i f s) = kv_calls s"
  by (simp_all add: set_session_def)

lemma count_fields [frame_simps]:
  "kv_slot (count f s) = kv_slot s" "kv_sessions (count f s) = kv_sessions s"
  "kv_breaker (count f s) = kv_breaker s" "kv_counters (count f s) = f (kv_counters s)"
  "kv_repo (count f s) = kv_repo s" "kv_idleTimer (count f s) = kv_idleTimer s"
  "kv_disposed (count f s) = kv_disposed s" "kv_calls (count f s) = kv_calls s"
  by (simp_all add: count_def)

lemma now_fields [frame_simps]:
  "kv_slot (snd (now env s)) = kv_slot s" "kv_sessions (snd (now env s)) = kv_sessions s"
  "kv_breaker (snd (now env s)) = kv_breaker s" "kv_counters (snd (now env s)) = kv_counters s"
  "kv_repo (snd (now env s)) = kv_repo s" "kv_idleTimer (snd (now env s)) = kv_idleTimer s"
  "kv_disposed (snd (now env s)) = kv_disposed s" "kv_calls (snd (now env s)) = kv_calls s"
  by (simp_all add: now_def split: prod.splits)

lemma iso_fields [frame_simps]:
  "kv_slot (snd (iso env s)) = kv_slot s" "kv_sessions (snd (iso env s)) = kv_sessions s"
  "kv_breaker (snd (iso env s)) = kv_breaker s" "kv_counters (snd (iso env s)) = kv_counters s"
  "kv_repo (snd (iso env s)) = kv_repo s" "kv_idleTimer (snd (iso env s)) = kv_idleTimer s"
  "kv_disposed (snd (iso env s)) = kv_disposed s" "kv_calls (snd (iso env s)) = kv_calls s"
  by (simp_all add: iso_def split_beta frame_simps)

lemma circuit_open_fields [frame_simps]:
  "kv_slot (snd (circuit_open env s)) = kv_slot s"
  "kv_sessions (snd (circuit_open env s)) = kv_sessions s"
  "kv_breaker (snd (circuit_open env s)) = kv_breaker s"
  "kv_counters (snd (circuit_open env s)) = kv_counters s"
  "kv_repo (snd (circuit_open env s)) = kv_repo s"
  "kv_idleTimer (snd (circuit_open env s)) = kv_idleTimer s"
  "kv_disposed (snd (circuit_open env s)) = kv_disposed s"
  "kv_calls (snd (circuit_open env s)) = kv_calls s"
  by (simp_all add: circuit_open_def split_beta frame_simps)

lemma breaker_failure_fields [frame_simps]:
  "kv_slot (breaker_failure env s) = kv_slot s" "kv_sessions (breaker_failure env s) = kv_sessions s"
  "kv_breaker (breaker_failure env s) = br_recordFailure (fst (now env s)) (kv_breaker s)"
  "kv_counters (breaker_failure env s) = kv_counters s"
  "kv_repo (breaker_failure env s) = kv_repo s" "kv_idleTimer (breaker_failure env s) = kv_idleTimer s"
  "kv_disposed (breaker_failure env s) = kv_disposed s" "kv_calls (breaker_failure env s) = kv_calls s"
  by (simp_all add: breaker_failure_def split_beta frame_simps)

lemma breaker_success_fields [frame_simps]:
  "kv_slot (breaker_success s) = kv_slot s" "kv_sessions (breaker_success s) = kv_sessions s"
  "kv_breaker (breaker_success s) = br_recordSuccess (kv_breaker s)"
  "kv_counters (breaker_success s) = kv_counters s"
  "kv_repo (breaker_success s) = kv_repo s" "kv_idleTimer (breaker_success s) = kv_idleTimer s"
  "kv_disposed (breaker_success s) = kv_disposed s" "kv_calls (breaker_success s) = kv_calls s"
  by (simp_all add: breaker_success_def)

lemma call_save_fields [frame_simps]:
  "kv_slot (snd (call_save env f s)) = kv_slot s" "kv_sessions (snd (call_save env f s)) = kv_sessions s"
  "kv_breaker (snd (call_save env f s)) = kv_breaker s"
  "kv_counters (snd (call_save env f s)) = kv_counters s"
  "kv_repo (snd (call_save env f s)) = kv_repo s" "kv_idleTimer (snd (call_save env f s)) = kv_idleTimer s"
  "kv_disposed (snd (call_save env f s)) = kv_disposed s"
  "kv_calls (snd (call_save env f s)) = kv_calls s @ [CSave (sl_id (kv_slot s)) f]"
  by (simp_all add: call_save_def split_beta)

lemma call_restore_fields [frame_simps]:
  "kv_slot (snd (call_restore env f s)) = kv_slot s"
  "kv_sessions (snd (call_restore env f s)) = kv_sessions s"
  "kv_breaker (snd (call_restore env f s)) = kv_breaker s"
  "kv_counters (snd (call_restore env f s)) = kv_counters s"
  "kv_repo (snd (call_restore env f s)) = kv_repo s"
  "kv_idleTimer (snd (call_restore env f s)) = kv_idleTimer s"
  "kv_disposed (snd (call_restore env f s)) = kv_disposed s"
  "kv_calls (snd (call_restore env f s)) = kv_calls s @ [CRestore (sl_id (kv_slot s)) f]"
  by (simp_all add: call_restore_def split_beta)

lemma call_erase_fields [frame_simps]:
  "kv_slot (snd (call_erase env s)) = kv_slot s" "kv_sessions (snd (call_erase env s)) = kv_sessions s"
  "kv_breaker (snd (call_erase env s)) = kv_breaker s"
  "kv_counters (snd (call_erase env s)) = kv_counters s"
  "kv_repo (snd (call_erase env s)) = kv_repo s" "kv_idleTimer (snd (call_erase env s)) = kv_idleTimer s"
  "kv_disposed (snd (call_erase env s)) = kv_disposed s"
  "kv_calls (snd (call_erase env s)) = kv_calls s @ [CErase (sl_id (kv_slot s))]"
  by (simp_all add: call_erase_def split_beta)

lemma misc_fields [frame_simps]:
  "kv_slot (cancelIdleTimer s) = kv_slot s" "kv_sessions (cancelIdleTimer s) = kv_sessions s"
  "kv_breaker (cancelIdleTimer s) = kv_breaker s" "kv_counters (cancelIdleTimer s) = kv_counters s"
  "kv_repo (cancelIdleTimer s) = kv_repo s" "kv_idleTimer (cancelIdleTimer s) = None"
  "kv_disposed (cancelIdleTimer s) = kv_disposed s" "kv_calls (cancelIdleTimer s) = kv_calls s"
  "kv_slot (forget_session i s) = kv_slot s"
  "kv_sessions (forget_session i s) = (kv_sessions s)(i := None)"
  "kv_breaker (forget_session i s) = kv_breaker s" "kv_counters (forget_session i s) = kv_counters s"
  "kv_repo (forget_session i s) = kv_repo s" "kv_idleTimer (forget_session i s) = kv_idleTimer s"
  "kv_disposed (forget_session i s) = kv_disposed s" "kv_calls (forget_session i s) = kv_calls s"
  by (simp_all add: cancelIdleTimer_def forget_session_def)

lemma assignSlot_fields [frame_simps]:
  "sl_id (kv_slot (assignSlot env i st s)) = sl_id (kv_slot s)"
  "owner_of (assignSlot env i st s) = Some i" "sl_state (kv_slot (assignSlot env i st s)) = st"
  "kv_sessions (assignSlot env i st s) = kv_sessions s"
  "kv_breaker (assignSlot env i st s) = kv_breaker s"
  "kv_counters (assignSlot env i st s) = (if owner_of s = Some i then kv_counters s
     else (kv_counters s)\<lparr>ct_slotSwitches := ct_slotSwitches (kv_counters s) + 1\<rparr>)"
  "kv_repo (assignSlot env i st s) = kv_repo s"
  "kv_idleTimer (assignSlot env i st s) = kv_idleTimer s"
  "kv_disposed (assignSlot env i st s) = kv_disposed s" "kv_calls (assignSlot env i st s) = kv_calls s"
  by (simp_all add: assignSlot_def Let_def split_beta frame_simps)

lemma erase_fields [frame_simps]:
  "kv_slot (eraseSlotBestEffort env s) = kv_slot s"
  "kv_sessions (eraseSlotBestEffort env s) = kv_sessions s"
  "kv_repo (eraseSlotBestEffort env s) = kv_repo s"
  "kv_idleTimer (eraseSlotBestEffort env s) = kv_idleTimer s"
  "kv_disposed (eraseSlotBestEffort env s) = kv_disposed s"
  "kv_calls (eraseSlotBestEffort env s) = kv_calls s @ [CErase (sl_id (kv_slot s))]"
  by (simp_all add: eraseSlotBestEffort_def split_beta frame_simps split: sum.splits)

lemma erase_counters [frame_simps]:
  "kv_counters (eraseSlotBestEffort env s) =
     (case fst (call_erase env s) of
        Inr _ \<Rightarrow> (kv_counters s)\<lparr>ct_erases := ct_erases (kv_counters s) + 1\<rparr>
      | Inl _ \<Rightarrow> kv_counters s)"
  by (simp add: eraseSlotBestEffort_def split_beta frame_simps split: sum.splits)

lemma loss_fields [frame_simps]:
  "sl_id (kv_slot (loseSlotTracking s)) = sl_id (kv_slot s)" "owner_of (loseSlotTracking s) = None"
  "sl_state (kv_slot (loseSlotTracking s)) = SUnknown"
  "kv_sessions (loseSlotTracking s) = kv_sessions s" "kv_breaker (loseSlotTracking s) = kv_breaker s"
  "kv_counters (loseSlotTracking s) = kv_counters s" "kv_repo (loseSlotTracking s) = kv_repo s"
  "kv_idleTimer (loseSlotTracking s) = kv_idleTimer s"
  "kv_disposed (loseSlotTracking s) = kv_disposed s" "kv_calls (loseSlotTracking s) = kv_calls s"
  by (simp_all add: loseSlotTracking_def frame_simps)

lemma release_fields [frame_simps]:
  "sl_id (kv_slot (releaseOwner s)) = sl_id (kv_slot s)" "owner_of (releaseOwner s) = None"
  "sl_state (kv_slot (releaseOwner s)) = SIdle"
  "kv_sessions (releaseOwner s) = kv_sessions s" "kv_breaker (releaseOwner s) = kv_breaker s"
  "kv_counters (releaseOwner s) = kv_counters s" "kv_repo (releaseOwner s) = kv_repo s"
  "kv_idleTimer (releaseOwner s) = kv_idleTimer s"
  "kv_disposed (releaseOwner s) = kv_disposed s" "kv_calls (releaseOwner s) = kv_calls s"
  by (simp_all add: releaseOwner_def frame_simps)

lemma find_fields [frame_simps]:
  "kv_slot (snd (findCompatibleManifest env i s)) = kv_slot s"
  "kv_sessions (snd (findCompatibleManifest env i s)) = kv_sessions s"
  "kv_breaker (snd (findCompatibleManifest env i s)) = kv_breaker s"
  "kv_counters (snd (findCompatibleManifest env i s)) = kv_counters s"
  "kv_idleTimer (snd (findCompatibleManifest env i s)) = kv_idleTimer s"
  "kv_disposed (snd (findCompatibleManifest env i s)) = kv_disposed s"
  "kv_calls (snd (findCompatibleManifest env i s)) = kv_calls s"
  by (simp_all add: findCompatibleManifest_def split_beta split: sum.splits)

subsection \<open>The invariant\<close>

text \<open>What the environment is relied on for.\<close>

definition env_ok :: "'w kv_env \<Rightarrow> bool" where
  "env_ok env \<longleftrightarrow> sha_shape (env_platform env) \<and>
     (\<forall>t. dateParses (env_platform env) (isoString (env_platform env) t)) \<and>
     (\<forall>w. dateParses (env_platform env) (env_wallclock env w)) \<and>
     persistence_backend (env_backend env) (c_slotId (env_cfg env))"

definition session_ok :: "string \<Rightarrow> session_runtime \<Rightarrow> bool" where
  "session_ok i r \<longleftrightarrow> runtime_ok r \<and> sn_sessionId r = i \<and> i \<noteq> [] \<and>
     rt_provider (sn_route r) \<noteq> [] \<and> rt_model (sn_route r) \<noteq> []"

definition settled :: "session_runtime \<Rightarrow> bool" where
  "settled r \<longleftrightarrow> sn_lifecycle r \<noteq> LSaving \<and> sn_lifecycle r \<noteq> LRestoring"

text \<open>\<open>X\<close>: the sessions a running method may have in a transient lifecycle.\<close>

definition sessions_ok :: "string set \<Rightarrow> (string \<Rightarrow> session_runtime option) \<Rightarrow> bool" where
  "sessions_ok X f \<longleftrightarrow> (\<forall>i r. f i = Some r \<longrightarrow> session_ok i r \<and> (i \<in> X \<or> settled r))"

definition breaker_ok :: "kv_config \<Rightarrow> circuit_breaker \<Rightarrow> bool" where
  "breaker_ok cfg b \<longleftrightarrow> br_max b = c_maxConsecutiveFailures cfg \<and> br_cooldown b = c_cooldownMs cfg \<and>
     br_state b \<noteq> HalfOpen \<and> (br_state b = Healthy \<longleftrightarrow> br_failures b = 0) \<and>
     (br_state b = Open \<longrightarrow> c_maxConsecutiveFailures cfg \<le> int (br_failures b))"

fun call_ok :: "int \<Rightarrow> backend_call \<Rightarrow> bool" where
  "call_ok n (CSave k f) = (k = n \<and> plugin_filename f)"
| "call_ok n (CRestore k f) = (k = n \<and> plugin_filename f)"
| "call_ok n (CErase k) = (k = n)"

fun n_saves :: "backend_call list \<Rightarrow> nat" where
  "n_saves [] = 0"
| "n_saves (CSave k f # cs) = Suc (n_saves cs)"
| "n_saves (_ # cs) = n_saves cs"

fun n_restores :: "backend_call list \<Rightarrow> nat" where
  "n_restores [] = 0"
| "n_restores (CRestore k f # cs) = Suc (n_restores cs)"
| "n_restores (_ # cs) = n_restores cs"

fun n_erases :: "backend_call list \<Rightarrow> nat" where
  "n_erases [] = 0"
| "n_erases (CErase k # cs) = Suc (n_erases cs)"
| "n_erases (_ # cs) = n_erases cs"

lemma n_calls_append [simp]:
  "n_saves (xs @ ys) = n_saves xs + n_saves ys"
  "n_restores (xs @ ys) = n_restores xs + n_restores ys"
  "n_erases (xs @ ys) = n_erases xs + n_erases ys"
proof -
  show "n_saves (xs @ ys) = n_saves xs + n_saves ys" by (induction xs rule: n_saves.induct) simp_all
  show "n_restores (xs @ ys) = n_restores xs + n_restores ys"
    by (induction xs rule: n_restores.induct) simp_all
  show "n_erases (xs @ ys) = n_erases xs + n_erases ys" by (induction xs rule: n_erases.induct) simp_all
qed

definition counters_ok :: "backend_call list \<Rightarrow> kv_counters \<Rightarrow> bool" where
  "counters_ok cs c \<longleftrightarrow>
     ct_saves c + ct_saveFailures c = n_saves cs \<and>
     ct_restores c + ct_restoreFailures c = n_restores cs \<and> ct_restoreHits c = ct_restores c \<and>
     ct_erases c \<le> n_erases cs \<and> ct_restoreFailures c \<le> ct_coldPrefills c"

definition slot_quiet :: "managed_slot \<Rightarrow> bool" where
  "slot_quiet sl \<longleftrightarrow> sl_state sl \<noteq> SSaving \<and> sl_state sl \<noteq> SRestoring \<and> sl_state sl \<noteq> SBroken"

definition kv_core :: "string set \<Rightarrow> 'w kv_env \<Rightarrow> 'w kv \<Rightarrow> bool" where
  "kv_core X env s \<longleftrightarrow>
     sessions_ok X (kv_sessions s) \<and>
     (\<forall>i. owner_of s = Some i \<longrightarrow> i \<in> dom (kv_sessions s)) \<and>
     breaker_ok (env_cfg env) (kv_breaker s) \<and>
     repo_ok (env_platform env) (kv_repo s) \<and>
     sl_id (kv_slot s) = c_slotId (env_cfg env) \<and>
     list_all (call_ok (c_slotId (env_cfg env))) (kv_calls s)"

definition kv_inv :: "'w kv_env \<Rightarrow> 'w kv \<Rightarrow> bool" where
  "kv_inv env s \<longleftrightarrow> kv_core {} env s \<and> slot_quiet (kv_slot s) \<and>
     counters_ok (kv_calls s) (kv_counters s)"

lemma breaker_ok_steps [simp]:
  "breaker_ok cfg b \<Longrightarrow> breaker_ok cfg (br_recordSuccess b)"
  "breaker_ok cfg b \<Longrightarrow> breaker_ok cfg (br_recordFailure t b)"
  by (auto simp: breaker_ok_def br_recordSuccess_def br_recordFailure_def Let_def)

lemma erase_breaker_ok [simp]:
  "breaker_ok cfg (kv_breaker s) \<Longrightarrow> breaker_ok cfg (kv_breaker (eraseSlotBestEffort env s))"
  by (simp add: eraseSlotBestEffort_def split_beta frame_simps split: sum.splits)

lemma new_coordinator_inv:
  "repo_ok (env_platform env) fs \<Longrightarrow> kv_inv env (new_coordinator env fs w)"
  by (simp add: kv_inv_def kv_core_def new_coordinator_def sessions_ok_def breaker_ok_def
      new_breaker_def createManagedSlot_def slot_quiet_def counters_ok_def new_counters_def)

lemma sessions_ok_upd:
  assumes "sessions_ok X f" "\<And>r. f i = Some r \<Longrightarrow> session_ok i r \<Longrightarrow> session_ok i (g r) \<and> (i \<in> Y \<or> settled (g r))"
    and "X \<subseteq> insert i Y"
  shows "sessions_ok Y (f(i := map_option g (f i)))"
  using assms by (auto simp: sessions_ok_def)

lemma sessions_ok_set:
  assumes "sessions_ok X f" "session_ok i r" "i \<in> Y \<or> settled r" "X \<subseteq> insert i Y"
  shows "sessions_ok Y (f(i \<mapsto> r))"
  using assms by (auto simp: sessions_ok_def)

lemma sessions_ok_forget: "sessions_ok X f \<Longrightarrow> X \<subseteq> insert i Y \<Longrightarrow> sessions_ok Y (f(i := None))"
  by (auto simp: sessions_ok_def)

lemma sessions_okD: "sessions_ok X f \<Longrightarrow> f i = Some r \<Longrightarrow> session_ok i r"
  by (simp add: sessions_ok_def)

lemma session_ok_lifecycle [simp]: "session_ok i (r\<lparr>sn_lifecycle := l\<rparr>) = session_ok i r"
  by (simp add: session_ok_def runtime_ok_def)

lemma session_ok_inFlight [simp]: "session_ok i r \<Longrightarrow> r\<lparr>sn_saveInFlight := None\<rparr> = r"
  by (simp add: session_ok_def runtime_ok_def)

lemma session_ok_persisted:
  "session_ok i r \<Longrightarrow> n \<le> sn_dirtyRevision r \<Longrightarrow>
   session_ok i (markPersisted n r) \<and> settled (markPersisted n r)"
  by (simp add: session_ok_def settled_def runtime_ok_def markPersisted_def Let_def)

lemma session_ok_dirty: "session_ok i r \<Longrightarrow> session_ok i (markDirty r) \<and> settled (markDirty r)"
  by (simp add: session_ok_def settled_def runtime_ok_def markDirty_def)

subsection \<open>Saving\<close>

lemma env_ok_iso: "env_ok env \<Longrightarrow> dateParses (env_platform env) (fst (iso env s))"
  by (simp add: env_ok_def iso_def split_beta)

lemma env_ok_sha: "env_ok env \<Longrightarrow> sha_shape (env_platform env)"
  by (simp add: env_ok_def)

lemma save_size_ok:
  assumes "env_ok env" "fst (call_save env f s) = Inr n"
  shows "opt_nonneg n"
proof (cases n)
  case (Some k)
  have "persistence_backend (env_backend env) (c_slotId (env_cfg env))"
    using assms(1) by (simp add: env_ok_def)
  then show ?thesis
    using assms(2) Some persistence_backend.save_size
    by (fastforce simp: call_save_def opt_nonneg_def split: prod.splits)
qed (simp add: opt_nonneg_def)

text \<open>The identity of a session carries its id and route.\<close>

lemma identityFor_fields:
  assumes "identityFor env i rt = Inr ident"
  shows "si_sessionId ident = i" "si_provider ident = rt_provider rt" "si_model ident = rt_model rt"
    "si_backend ident = ''llama.cpp''"
    "si_compatibilityVersion ident =
       compatibilityVersion (env_platform env) ''llama.cpp'' (c_runtimeKey (env_cfg env)) (rt_model rt)"
  using assms by (auto simp: identityFor_def buildSnapshotIdentity_def Let_def split: sum.splits)

definition save_input :: "'w kv_env \<Rightarrow> snapshot_identity \<Rightarrow> int option \<Rightarrow> 'w kv \<Rightarrow> put_input" where
  "save_input env ident bytes s =
     \<lparr>pi_identity = ident, pi_slotId = num_of (sl_id (kv_slot s)), pi_sessionSeq = None,
      pi_tokens = None, pi_bytes = bytes, pi_now = fst (iso env s)\<rparr>"

lemma save_input_ok:
  assumes "env_ok env" "identityFor env i rt = Inr ident" "i \<noteq> []" "rt_provider rt \<noteq> []" "rt_model rt \<noteq> []"
    and "fst (call_save env f s) = Inr bytes"
  shows "put_ok (env_platform env) (save_input env ident bytes s')"
  using assms env_ok_iso save_size_ok [OF assms(1,6)] identityFor_fields [OF assms(2)]
  by (simp add: put_ok_def save_input_def opt_nonneg_def)

text \<open>The three ways an attempt ends.\<close>

lemma save_attempt_cases [consumes 1, case_names save_error put_error stored]:
  assumes "sha_shape (env_platform env)"
  obtains e where "fst (call_save env (snapshotFilename (env_platform env) ident) s) = Inl e"
      "save_attempt env i ident n t s =
         save_failed env i n e (snd (call_save env (snapshotFilename (env_platform env) ident) s))"
  | bytes e fs s1 where
      "fst (call_save env (snapshotFilename (env_platform env) ident) s) = Inr bytes"
      "s1 = snd (call_save env (snapshotFilename (env_platform env) ident) s)"
      "repo_put (env_platform env) (save_input env ident bytes s1) (kv_repo s) = (Inl e, fs)"
      "save_attempt env i ident n t s =
         save_failed env i n e ((snd (iso env s1))\<lparr>kv_repo := fs\<rparr>)"
  | bytes m fs s1 where
      "fst (call_save env (snapshotFilename (env_platform env) ident) s) = Inr bytes"
      "s1 = snd (call_save env (snapshotFilename (env_platform env) ident) s)"
      "repo_put (env_platform env) (save_input env ident bytes s1) (kv_repo s) = (Inr m, fs)"
      "save_attempt env i ident n t s =
         save_succeeded env i n t bytes ((snd (iso env s1))\<lparr>kv_repo := fs\<rparr>)"
proof (cases "call_save env (snapshotFilename (env_platform env) ident) s")
  case (Pair r s1)
  have s1: "s1 = snd (call_save env (snapshotFilename (env_platform env) ident) s)" by (simp add: Pair)
  then have repo: "kv_repo (snd (iso env s1)) = kv_repo s" "kv_slot (snd (iso env s1)) = kv_slot s1"
    by (simp_all add: frame_simps)
  show ?thesis
  proof (cases r)
    case (Inl e)
    then show ?thesis using that(1) assms Pair by (simp add: save_attempt_def)
  next
    case (Inr bytes)
    obtain res fs where put: "repo_put (env_platform env) (save_input env ident bytes s1) (kv_repo s) = (res, fs)"
      by force
    show ?thesis
    proof (cases res)
      case (Inl e)
      then show ?thesis
        using that(2) [OF _ s1, of bytes e fs] put assms Pair \<open>r = Inr bytes\<close> repo
        by (simp add: save_attempt_def Let_def split_beta save_input_def)
    next
      case (Inr m)
      then show ?thesis
        using that(3) [OF _ s1, of bytes m fs] put assms Pair \<open>r = Inr bytes\<close> repo
        by (simp add: save_attempt_def Let_def split_beta save_input_def)
    qed
  qed
qed

lemma save_failed_fields:
  fixes s :: "'w kv" and env i n e
  defines "s' \<equiv> snd (save_failed env i n e s)"
  shows "fst (save_failed env i n e s) = snap_result Failed i n None (Some (CaughtError e))"
    "sl_id (kv_slot s') = sl_id (kv_slot s)" "owner_of s' = owner_of s"
    "sl_state (kv_slot s') = (if owner_of s = Some i then SDirty else sl_state (kv_slot s))"
    "kv_sessions s' = (kv_sessions s)(i := map_option (\<lambda>r. r\<lparr>sn_lifecycle := LActiveDirty\<rparr>) (kv_sessions s i))"
    "kv_breaker s' = br_recordFailure (fst (now env s)) (kv_breaker s)"
    "kv_counters s' = (kv_counters s)\<lparr>ct_saveFailures := ct_saveFailures (kv_counters s) + 1\<rparr>"
    "kv_repo s' = kv_repo s" "kv_calls s' = kv_calls s" "kv_disposed s' = kv_disposed s"
    "kv_idleTimer s' = kv_idleTimer s"
  by (simp_all add: s'_def save_failed_def Let_def frame_simps)

lemma save_succeeded_fields:
  fixes s :: "'w kv" and env i n t b
  defines "s' \<equiv> snd (save_succeeded env i n t b s)"
  shows "fst (save_succeeded env i n t b s) = snap_result Saved i n b None"
    "sl_id (kv_slot s') = sl_id (kv_slot s)" "owner_of s' = owner_of s"
    "sl_state (kv_slot s') = (if owner_of s = Some i then SReady else sl_state (kv_slot s))"
    "kv_sessions s' = (kv_sessions s)(i := map_option (markPersisted n) (kv_sessions s i))"
    "kv_breaker s' = br_recordSuccess (kv_breaker s)"
    "ct_saves (kv_counters s') = ct_saves (kv_counters s) + 1"
    "ct_saveFailures (kv_counters s') = ct_saveFailures (kv_counters s)"
    "ct_restores (kv_counters s') = ct_restores (kv_counters s)"
    "ct_restoreHits (kv_counters s') = ct_restoreHits (kv_counters s)"
    "ct_restoreFailures (kv_counters s') = ct_restoreFailures (kv_counters s)"
    "ct_coldPrefills (kv_counters s') = ct_coldPrefills (kv_counters s)"
    "ct_erases (kv_counters s') = ct_erases (kv_counters s)"
    "ct_slotSwitches (kv_counters s') = ct_slotSwitches (kv_counters s)"
    "kv_repo s' = kv_repo s" "kv_calls s' = kv_calls s" "kv_disposed s' = kv_disposed s"
    "kv_idleTimer s' = kv_idleTimer s"
  by (simp_all add: s'_def save_succeeded_def Let_def split_beta frame_simps)

text \<open>Everything but the outcome-specific fields, for a save that was started.\<close>

definition save_start :: "'w kv_env \<Rightarrow> string \<Rightarrow> 'w kv \<Rightarrow> 'w kv" where
  "save_start env i s = set_lifecycle i LSaving (set_slot_state SSaving (snd (now env s)))"

lemma save_start_fields [frame_simps]:
  "sl_id (kv_slot (save_start env i s)) = sl_id (kv_slot s)"
  "owner_of (save_start env i s) = owner_of s"
  "kv_sessions (save_start env i s) =
     (kv_sessions s)(i := map_option (\<lambda>r. r\<lparr>sn_lifecycle := LSaving\<rparr>) (kv_sessions s i))"
  "kv_breaker (save_start env i s) = kv_breaker s" "kv_counters (save_start env i s) = kv_counters s"
  "kv_repo (save_start env i s) = kv_repo s" "kv_calls (save_start env i s) = kv_calls s"
  "kv_disposed (save_start env i s) = kv_disposed s" "kv_idleTimer (save_start env i s) = kv_idleTimer s"
  by (simp_all add: save_start_def frame_simps)

abbreviation clear_inFlight :: "string \<Rightarrow> 'w kv \<Rightarrow> 'w kv" where
  "clear_inFlight i \<equiv> set_session i (\<lambda>r. r\<lparr>sn_saveInFlight := None\<rparr>)"

lemma saveOwned_started:
  assumes "kv_sessions s i = Some r" "isDirty r" "owner_of s = Some i" "sn_saveInFlight r = None"
    and "identityFor env i (sn_route r) = Inr ident"
  shows "saveOwnedSession env i s =
    (case save_attempt env i ident (sn_dirtyRevision r) (fst (now env s)) (save_start env i s) of
       (res, s4) \<Rightarrow> (Inr res, clear_inFlight i s4))"
  using assms by (simp add: saveOwnedSession_def save_start_def Let_def split_beta)

text \<open>The other ways out of \<open>saveOwnedSession\<close> leave the state as it was.\<close>

lemma saveOwned_cases [consumes 1, case_names skipped no_identity started]:
  assumes "kv_core X env s"
  obtains k n where "saveOwnedSession env i s = (Inr (snap_result k i n None None), s)"
      "k = SkippedClean \<or> k = SkippedNotOwner"
      "kv_sessions s i = None \<or> (\<exists>r. kv_sessions s i = Some r \<and> \<not> isDirty r) \<or> owner_of s \<noteq> Some i"
  | r e where "kv_sessions s i = Some r" "identityFor env i (sn_route r) = Inl e"
      "saveOwnedSession env i s = (Inl e, s)"
  | r ident where "kv_sessions s i = Some r" "isDirty r" "owner_of s = Some i" "session_ok i r"
      "identityFor env i (sn_route r) = Inr ident"
      "saveOwnedSession env i s =
        (case save_attempt env i ident (sn_dirtyRevision r) (fst (now env s)) (save_start env i s) of
           (res, s4) \<Rightarrow> (Inr res, clear_inFlight i s4))"
proof (cases "kv_sessions s i")
  case None
  then show ?thesis using that(1) [of SkippedClean 0] by (simp add: saveOwnedSession_def)
next
  case (Some r)
  have ok: "session_ok i r" using assms Some by (auto simp: kv_core_def intro: sessions_okD)
  then have nf: "sn_saveInFlight r = None" by (simp add: session_ok_def runtime_ok_def)
  consider "\<not> isDirty r" | "isDirty r" "owner_of s \<noteq> Some i" | "isDirty r" "owner_of s = Some i" by blast
  then show ?thesis
  proof cases
    case 3
    show ?thesis
    proof (cases "identityFor env i (sn_route r)")
      case (Inl e)
      then show ?thesis using that(2) Some 3 nf by (simp add: saveOwnedSession_def)
    next
      case (Inr ident)
      then show ?thesis using that(3) Some 3 ok saveOwned_started [OF Some 3 nf Inr] by simp
    qed
  qed (use that(1) Some in \<open>simp_all add: saveOwnedSession_def\<close>)
qed

lemma iso_put_fields [simp]:
  "kv_slot ((snd (iso env s))\<lparr>kv_repo := fs\<rparr>) = kv_slot s"
  "kv_sessions ((snd (iso env s))\<lparr>kv_repo := fs\<rparr>) = kv_sessions s"
  "kv_breaker ((snd (iso env s))\<lparr>kv_repo := fs\<rparr>) = kv_breaker s"
  "kv_counters ((snd (iso env s))\<lparr>kv_repo := fs\<rparr>) = kv_counters s"
  "kv_calls ((snd (iso env s))\<lparr>kv_repo := fs\<rparr>) = kv_calls s"
  "kv_disposed ((snd (iso env s))\<lparr>kv_repo := fs\<rparr>) = kv_disposed s"
  "kv_idleTimer ((snd (iso env s))\<lparr>kv_repo := fs\<rparr>) = kv_idleTimer s"
  by (simp_all add: frame_simps)

lemma save_start_core:
  "kv_core {} env s \<Longrightarrow> kv_core {i} env (save_start env i s)"
  by (auto simp: kv_core_def frame_simps intro: sessions_ok_upd sessions_ok_forget)

lemma call_save_core:
  assumes "kv_core X env s" "plugin_filename f"
  shows "kv_core X env (snd (call_save env f s))"
  using assms by (simp add: kv_core_def frame_simps)

lemma save_failed_inv:
  assumes "kv_core {i} env s" "owner_of s = Some i" "kv_calls s = cs @ [CSave k f]"
    and "counters_ok cs (kv_counters s)"
  shows "kv_inv env (snd (save_failed env i n e s))"
  using assms
  by (auto simp: kv_inv_def kv_core_def save_failed_fields slot_quiet_def counters_ok_def settled_def
      intro!: sessions_ok_upd)

lemma save_succeeded_inv:
  assumes "kv_core {i} env s" "owner_of s = Some i" "kv_calls s = cs @ [CSave k f]"
    and "counters_ok cs (kv_counters s)" "kv_sessions s i = Some r" "n \<le> sn_dirtyRevision r"
  shows "kv_inv env (snd (save_succeeded env i n t b s))"
  using assms session_ok_persisted [of i r n] sessions_okD
  by (auto simp: kv_inv_def kv_core_def save_succeeded_fields slot_quiet_def counters_ok_def
      intro!: sessions_ok_set dest: sessions_okD)

lemma clear_inFlight_core:
  assumes "kv_core {} env s" shows "clear_inFlight i s = s"
proof -
  have "(kv_sessions s)(i := map_option (\<lambda>r. r\<lparr>sn_saveInFlight := None\<rparr>) (kv_sessions s i)) = kv_sessions s"
    using assms by (cases "kv_sessions s i") (auto simp: kv_core_def fun_upd_idem dest: sessions_okD)
  then show ?thesis by (simp add: set_session_def)
qed

definition file_of :: "'w kv_env \<Rightarrow> snapshot_identity \<Rightarrow> string" where
  "file_of env ident = snapshotFilename (env_platform env) ident"

text \<open>What a started save did: the session is clean and its manifest loads, or nothing
  but the failure is recorded. Either way exactly one backend call was made.\<close>

definition same_route :: "snapshot_identity \<Rightarrow> manifest \<Rightarrow> bool" where
  "same_route ident m \<longleftrightarrow> m_provider m = si_provider ident \<and> m_model m = si_model ident"

text \<open>
  The manifest a save leaves behind; a manifest already at that place keeps its route, which
  is the session's own unless two digests collide.
\<close>

definition stored_manifest :: "platform \<Rightarrow> snapshot_identity \<Rightarrow> repo_fs \<Rightarrow> repo_fs \<Rightarrow> bool" where
  "stored_manifest pf ident fs fs' \<longleftrightarrow> (\<exists>m.
     repo_load pf ident fs' = Inr (Some m) \<and> m_state m = Ready \<and>
     m_snapshotFilename m = snapshotFilename pf ident \<and>
     m_compatibilityVersion m = si_compatibilityVersion ident \<and>
     m_serverInstanceKey m = si_serverInstanceKey ident \<and>
     ((\<forall>old. repo_load pf ident fs = Inr (Some old) \<longrightarrow> same_route ident old) \<longrightarrow> same_route ident m))"

lemma put_stored_manifest:
  assumes ok: "repo_ok pf fs" and pok: "put_ok pf input" and put: "repo_put pf input fs = (Inr m, fs')"
    and ident: "pi_identity input = ident"
  shows "stored_manifest pf ident fs fs'"
proof -
  note ld = repo_put_load [OF ok pok put, unfolded ident]
  have ok': "repo_ok pf fs'" by (rule repo_put_ok [OF ok pok put])
  have "entry_ok pf (manifestPath pf ident) m"
    by (rule repo_ok_load [OF ok']) (use ld in simp)
  then have key: "m_serverInstanceKey m = si_serverInstanceKey ident"
    unfolding entry_ok_def by (metis manifestPath_filename manifest_identity_def snapshot_identity.select_convs(5))
  obtain existing where ex: "repo_load pf ident fs = Inr existing" "m = put_manifest pf input existing"
    using put ident by (auto elim: repo_put_cases)
  have "same_route ident m" if "\<forall>old. repo_load pf ident fs = Inr (Some old) \<longrightarrow> same_route ident old"
    using that ex ident
    by (cases existing) (auto simp: put_manifest_def same_route_def createManifest_def)
  then show ?thesis
    unfolding stored_manifest_def using ld key by blast
qed

definition saved_effect :: "'w kv_env \<Rightarrow> string \<Rightarrow> 'w kv \<Rightarrow> 'w kv \<Rightarrow> bool" where
  "saved_effect env i s s' \<longleftrightarrow>
     (\<exists>r r' ident. kv_sessions s i = Some r \<and> isDirty r \<and> owner_of s = Some i \<and>
        identityFor env i (sn_route r) = Inr ident \<and>
        kv_sessions s' i = Some r' \<and> \<not> isDirty r' \<and> sn_lifecycle r' = LSaved \<and>
        sn_dirtyRevision r' = sn_dirtyRevision r \<and> sn_route r' = sn_route r \<and>
        sl_state (kv_slot s') = SReady \<and> br_failures (kv_breaker s') = 0 \<and>
        stored_manifest (env_platform env) ident (kv_repo s) (kv_repo s') \<and>
        kv_calls s' = kv_calls s @ [CSave (sl_id (kv_slot s)) (file_of env ident)])"

definition failed_effect :: "'w kv_env \<Rightarrow> string \<Rightarrow> 'w kv \<Rightarrow> 'w kv \<Rightarrow> bool" where
  "failed_effect env i s s' \<longleftrightarrow>
     (\<exists>r ident. kv_sessions s i = Some r \<and> isDirty r \<and> owner_of s = Some i \<and>
        identityFor env i (sn_route r) = Inr ident \<and>
        kv_sessions s' i = Some (r\<lparr>sn_lifecycle := LActiveDirty\<rparr>) \<and>
        sl_state (kv_slot s') = SDirty \<and> br_failures (kv_breaker s') = br_failures (kv_breaker s) + 1 \<and>
        kv_repo s' = kv_repo s \<and>
        kv_calls s' = kv_calls s @ [CSave (sl_id (kv_slot s)) (file_of env ident)])"

text \<open>What no save changes.\<close>

definition same_frame :: "string \<Rightarrow> 'w kv \<Rightarrow> 'w kv \<Rightarrow> bool" where
  "same_frame i s s' \<longleftrightarrow> owner_of s' = owner_of s \<and> kv_disposed s' = kv_disposed s \<and>
     kv_idleTimer s' = kv_idleTimer s \<and> dom (kv_sessions s') = dom (kv_sessions s) \<and>
     (\<forall>j. j \<noteq> i \<longrightarrow> kv_sessions s' j = kv_sessions s j)"

lemma same_frame_refl [simp]: "same_frame i s s"
  by (simp add: same_frame_def)

lemma recordFailure_failures [simp]: "br_failures (br_recordFailure t b) = Suc (br_failures b)"
  by (simp add: br_recordFailure_def Let_def)

lemma recordSuccess_failures [simp]: "br_failures (br_recordSuccess b) = 0"
  by (simp add: br_recordSuccess_def Let_def)

text \<open>The state in the middle of a save: the call was made, nothing else changed yet.\<close>

definition in_save :: "'w kv_env \<Rightarrow> string \<Rightarrow> session_runtime \<Rightarrow> snapshot_identity \<Rightarrow> 'w kv \<Rightarrow> 'w kv \<Rightarrow> bool" where
  "in_save env i r ident s s1 \<longleftrightarrow>
     kv_core {i} env s1 \<and> owner_of s1 = Some i \<and> kv_counters s1 = kv_counters s \<and>
     kv_calls s1 = kv_calls s @ [CSave (sl_id (kv_slot s)) (file_of env ident)] \<and>
     kv_sessions s1 = (kv_sessions s)(i \<mapsto> r\<lparr>sn_lifecycle := LSaving\<rparr>) \<and>
     kv_breaker s1 = kv_breaker s \<and> kv_disposed s1 = kv_disposed s \<and> kv_idleTimer s1 = kv_idleTimer s"

lemma in_save_call:
  assumes env: "env_ok env" and inv: "kv_inv env s" and r: "kv_sessions s i = Some r"
    and own: "owner_of s = Some i"
  shows "in_save env i r ident s (snd (call_save env (file_of env ident) (save_start env i s)))"
    (is "in_save _ _ _ _ _ ?s1")
proof -
  have "plugin_filename (file_of env ident)"
    using assert_snapshotFilename [OF env_ok_sha [OF env], of ident]
    by (simp add: assertPluginGeneratedFilename_def file_of_def split: if_splits)
  then have "kv_core {i} env ?s1"
    using inv by (intro call_save_core save_start_core) (simp_all add: kv_inv_def)
  then show ?thesis using r own by (simp add: in_save_def frame_simps)
qed

lemma in_save_failed:
  assumes "in_save env i r ident s s1" "kv_repo s1 = kv_repo s" "counters_ok (kv_calls s) (kv_counters s)"
    and "kv_sessions s i = Some r" "isDirty r" "owner_of s = Some i" "identityFor env i (sn_route r) = Inr ident"
  shows "kv_inv env (snd (save_failed env i n e s1)) \<and> same_frame i s (snd (save_failed env i n e s1)) \<and>
     failed_effect env i s (snd (save_failed env i n e s1))"
proof (intro conjI)
  show "kv_inv env (snd (save_failed env i n e s1))"
    by (rule save_failed_inv [of i env s1 "kv_calls s"]) (use assms in \<open>simp_all add: in_save_def\<close>)
qed (use assms in \<open>auto simp: in_save_def same_frame_def failed_effect_def save_failed_fields\<close>)

lemma in_save_succeeded:
  assumes in_save: "in_save env i r ident s s1" and cnt: "counters_ok (kv_calls s) (kv_counters s)"
    and r: "kv_sessions s i = Some r" "isDirty r" and own: "owner_of s = Some i"
    and ident: "identityFor env i (sn_route r) = Inr ident"
    and m: "stored_manifest (env_platform env) ident (kv_repo s) (kv_repo s1)"
  shows "kv_inv env (snd (save_succeeded env i (sn_dirtyRevision r) t b s1)) \<and>
     same_frame i s (snd (save_succeeded env i (sn_dirtyRevision r) t b s1)) \<and>
     saved_effect env i s (snd (save_succeeded env i (sn_dirtyRevision r) t b s1))" (is "?inv \<and> ?frame \<and> ?eff")
proof (intro conjI)
  show ?inv
    by (rule save_succeeded_inv [of i env s1 "kv_calls s" _ _ "r\<lparr>sn_lifecycle := LSaving\<rparr>"])
      (use in_save cnt in \<open>simp_all add: in_save_def\<close>)
  show ?frame
    using in_save r own by (auto simp: in_save_def same_frame_def save_succeeded_fields)
  have "\<not> isDirty (markPersisted (sn_dirtyRevision r) (r\<lparr>sn_lifecycle := LSaving\<rparr>)) \<and>
      sn_lifecycle (markPersisted (sn_dirtyRevision r) (r\<lparr>sn_lifecycle := LSaving\<rparr>)) = LSaved"
    by (rule markPersisted_clean) simp
  then show ?eff
    using in_save r own ident m by (auto simp: in_save_def saved_effect_def save_succeeded_fields)
qed

lemma kv_core_repo:
  "kv_core X env s \<Longrightarrow> repo_ok (env_platform env) fs \<Longrightarrow>
   kv_core X env ((snd (iso env s))\<lparr>kv_repo := fs\<rparr>)"
  by (simp add: kv_core_def)

lemma in_save_repo:
  "in_save env i r ident s s1 \<Longrightarrow> repo_ok (env_platform env) fs \<Longrightarrow>
   in_save env i r ident s ((snd (iso env s1))\<lparr>kv_repo := fs\<rparr>)"
  by (simp add: in_save_def kv_core_repo)

lemma save_attempt_effect:
  assumes env: "env_ok env" and inv: "kv_inv env s"
    and r: "kv_sessions s i = Some r" "isDirty r" and own: "owner_of s = Some i"
    and ok: "session_ok i r" and ident: "identityFor env i (sn_route r) = Inr ident"
    and att: "save_attempt env i ident (sn_dirtyRevision r) t (save_start env i s) = (res, s')"
  shows "kv_inv env s' \<and> same_frame i s s' \<and>
     ((sr_kind res = Saved \<and> saved_effect env i s s') \<or> (sr_kind res = Failed \<and> failed_effect env i s s'))"
proof -
  let ?s0 = "save_start env i s"
  have cnt: "counters_ok (kv_calls s) (kv_counters s)" using inv by (simp add: kv_inv_def)
  have mid: "in_save env i r ident s (snd (call_save env (file_of env ident) ?s0))"
    by (rule in_save_call [OF env inv r(1) own])
  have rok: "repo_ok (env_platform env) (kv_repo s)" using inv by (simp add: kv_inv_def kv_core_def)
  have repo: "kv_repo ?s0 = kv_repo s" by (simp add: frame_simps)
  note failed = in_save_failed [OF _ _ cnt r own ident]
  from env_ok_sha [OF env] show ?thesis
  proof (cases rule: save_attempt_cases [of env ident ?s0 i "sn_dirtyRevision r" t])
    case (save_error e)
    then have "(res, s') = save_failed env i (sn_dirtyRevision r) e (snd (call_save env (file_of env ident) ?s0))"
      using att by (simp add: file_of_def)
    then show ?thesis
      using failed [OF mid, of "sn_dirtyRevision r" e] repo
      by (simp add: prod_eq_iff frame_simps save_failed_fields(1) snap_result_def)
  next
    case (put_error bytes e fs s1)
    let ?s2 = "(snd (iso env s1))\<lparr>kv_repo := fs\<rparr>"
    have "fs = kv_repo s" using put_error(3) repo by (auto elim: repo_put_cases)
    moreover have "in_save env i r ident s ?s2"
      using in_save_repo [OF mid rok] put_error(2) calculation by (simp add: file_of_def)
    moreover have "(res, s') = save_failed env i (sn_dirtyRevision r) e ?s2"
      using att put_error(4) by simp
    ultimately show ?thesis
      using failed [of ?s2 "sn_dirtyRevision r" e]
      by (simp add: prod_eq_iff save_failed_fields(1) snap_result_def)
  next
    case (stored bytes m fs s1)
    let ?s2 = "(snd (iso env s1))\<lparr>kv_repo := fs\<rparr>"
    have put: "repo_put (env_platform env) (save_input env ident bytes s1) (kv_repo s) = (Inr m, fs)"
      using stored(3) repo by simp
    have pok: "put_ok (env_platform env) (save_input env ident bytes s1)"
      by (rule save_input_ok [OF env ident _ _ _ stored(1)]) (use ok in \<open>simp_all add: session_ok_def\<close>)
    have "in_save env i r ident s ?s2"
      using in_save_repo [OF mid repo_put_ok [OF rok pok put]] stored(2) by (simp add: file_of_def)
    moreover have "(res, s') = save_succeeded env i (sn_dirtyRevision r) t bytes ?s2"
      using att stored(4) by simp
    moreover have "stored_manifest (env_platform env) ident (kv_repo s) fs"
      by (rule put_stored_manifest [OF rok pok put]) (simp add: save_input_def)
    ultimately show ?thesis
      using in_save_succeeded [of env i r ident s ?s2 t bytes, OF _ cnt r own ident]
      by (simp add: prod_eq_iff save_succeeded_fields(1) snap_result_def)
  qed
qed

text \<open>All outcomes of \<open>saveOwnedSession\<close>.\<close>

lemma saveOwned_effect:
  assumes env: "env_ok env" and inv: "kv_inv env s"
    and save: "saveOwnedSession env i s = (x, s')"
  shows "kv_inv env s' \<and> same_frame i s s' \<and>
    (case x of Inl e \<Rightarrow> s' = s
     | Inr res \<Rightarrow> (sr_kind res = Saved \<and> saved_effect env i s s') \<or>
        (sr_kind res = Failed \<and> failed_effect env i s s') \<or>
        (sr_kind res \<in> {SkippedClean, SkippedNotOwner} \<and> s' = s))"
proof -
  have core: "kv_core {} env s" using inv by (simp add: kv_inv_def)
  then show ?thesis
  proof (cases rule: saveOwned_cases [of "{}" env s i])
    case (started r ident)
    obtain res s4 where att:
      "save_attempt env i ident (sn_dirtyRevision r) (fst (now env s)) (save_start env i s) = (res, s4)"
      by force
    note eff = save_attempt_effect [OF env inv started(1,2,3,4,5) att]
    then have "clear_inFlight i s4 = s4"
      by (intro clear_inFlight_core [of env]) (simp add: kv_inv_def)
    then show ?thesis using started(6) att eff save by auto
  qed (use save inv in \<open>auto simp: snap_result_def\<close>)
qed

subsection \<open>Preparing a session\<close>

lemma count_core: "kv_core X env (count f s) = kv_core X env s"
  by (simp add: kv_core_def frame_simps)

lemma set_lifecycle_core:
  assumes "kv_core X env s" "X \<subseteq> {i}" "l \<noteq> LSaving \<and> l \<noteq> LRestoring"
  shows "kv_core {} env (set_lifecycle i l s)"
  using assms by (auto simp: kv_core_def frame_simps settled_def intro: sessions_ok_upd sessions_ok_forget)

lemma erase_core: "kv_core X env s \<Longrightarrow> kv_core X env (eraseSlotBestEffort env s)"
  by (simp add: kv_core_def frame_simps)

lemma assign_core: "kv_core X env s \<Longrightarrow> i \<in> dom (kv_sessions s) \<Longrightarrow> kv_core X env (assignSlot env i st s)"
  by (simp add: kv_core_def frame_simps)

lemma restore_start_core:
  "kv_core {} env s \<Longrightarrow> kv_core {i} env (set_lifecycle i LRestoring (set_slot_state SRestoring (snd (now env s))))"
  by (auto simp: kv_core_def frame_simps intro: sessions_ok_upd sessions_ok_forget)

lemma dom_set_session [simp]: "dom ((kv_sessions s)(i := map_option f (kv_sessions s i))) = dom (kv_sessions s)"
  by (auto split: if_splits)

lemma map_option_upd_other: "i \<noteq> j \<Longrightarrow> (f(i := x)) j = f j"
  by simp

lemma cold_assign_fields:
  fixes s :: "'w kv" and env i
  defines "s' \<equiv> snd (cold_assign env i s)"
  shows "fst (cold_assign env i s) = outcome ColdStart i None"
    "owner_of s' = Some i" "sl_state (kv_slot s') = SIdle"
    "kv_sessions s' = (kv_sessions s)(i := map_option (\<lambda>r. r\<lparr>sn_lifecycle := LCold\<rparr>) (kv_sessions s i))"
    "kv_repo s' = kv_repo s" "kv_disposed s' = kv_disposed s" "kv_idleTimer s' = kv_idleTimer s"
    "kv_calls s' = kv_calls s @ [CErase (sl_id (kv_slot s))]"
  by (simp_all add: s'_def cold_assign_def Let_def frame_simps)

lemma cold_assign_inv:
  assumes core: "kv_core {} env s" and cnt: "counters_ok (kv_calls s) (kv_counters s)"
    and i: "i \<in> dom (kv_sessions s)"
  shows "kv_inv env (snd (cold_assign env i s))"
proof -
  have "kv_core {} env (set_lifecycle i LCold (assignSlot env i SIdle (eraseSlotBestEffort env s)))"
    using core i by (intro set_lifecycle_core assign_core erase_core) (auto simp: frame_simps)
  then have "kv_core {} env (snd (cold_assign env i s))"
    by (simp add: cold_assign_def Let_def count_core)
  moreover have "counters_ok (kv_calls (snd (cold_assign env i s))) (kv_counters (snd (cold_assign env i s)))"
    using cnt by (auto simp: cold_assign_def Let_def counters_ok_def frame_simps split: sum.splits)
  ultimately show ?thesis
    by (simp add: kv_inv_def slot_quiet_def cold_assign_fields)
qed

lemma restore_failed_fields:
  fixes s :: "'w kv" and env i ident e
  defines "s' \<equiv> snd (restore_failed env i ident e s)"
  shows "fst (restore_failed env i ident e s) = outcome ColdFallback i (Some (CaughtError e))"
    "owner_of s' = Some i" "sl_state (kv_slot s') = SIdle"
    "kv_sessions s' = (kv_sessions s)(i := map_option (\<lambda>r. r\<lparr>sn_lifecycle := LCold\<rparr>) (kv_sessions s i))"
    "kv_repo s' = snd (repo_markInvalid (env_platform env) ident RESTORE_FAILED (fst (iso env s)) (kv_repo s))"
    "kv_disposed s' = kv_disposed s" "kv_idleTimer s' = kv_idleTimer s"
    "kv_calls s' = kv_calls s @ [CErase (sl_id (kv_slot s))]"
  by (simp_all add: s'_def restore_failed_def Let_def split_beta frame_simps)

lemma restore_failed_inv:
  assumes env: "env_ok env" and core: "kv_core {i} env s" and i: "i \<in> dom (kv_sessions s)"
    and calls: "kv_calls s = cs @ [CRestore k f]" and cnt: "counters_ok cs (kv_counters s)"
  shows "kv_inv env (snd (restore_failed env i ident e s))"
proof -
  let ?fs = "snd (repo_markInvalid (env_platform env) ident RESTORE_FAILED (fst (iso env s)) (kv_repo s))"
  let ?s2 = "(snd (iso env s))\<lparr>kv_repo := ?fs\<rparr>"
  have "repo_ok (env_platform env) ?fs"
    using markInvalid_ok [OF _ env_ok_iso [OF env]] core unfolding kv_core_def by (metis prod.collapse)
  then have "kv_core {i} env ?s2" by (rule kv_core_repo [OF core])
  then have "kv_core {} env (set_lifecycle i LCold (assignSlot env i SIdle (eraseSlotBestEffort env ?s2)))"
    using i by (intro set_lifecycle_core [of "{i}"] assign_core erase_core) (auto simp: frame_simps)
  then have "kv_core {} env (snd (restore_failed env i ident e s))"
    by (simp add: restore_failed_def Let_def split_beta kv_core_def frame_simps)
  moreover have "counters_ok (kv_calls (snd (restore_failed env i ident e s)))
      (kv_counters (snd (restore_failed env i ident e s)))"
    using cnt calls
    by (auto simp: restore_failed_def Let_def split_beta counters_ok_def frame_simps split: sum.splits)
  ultimately show ?thesis
    by (simp add: kv_inv_def slot_quiet_def restore_failed_fields)
qed

lemma restore_succeeded_fields:
  fixes s :: "'w kv" and env i m t n
  defines "s' \<equiv> snd (restore_succeeded env i m t n s)"
  shows "ro_kind (fst (restore_succeeded env i m t n s)) = Restored"
    "owner_of s' = Some i" "sl_state (kv_slot s') = SReady"
    "kv_sessions s' = (kv_sessions s)(i := map_option (\<lambda>r. r\<lparr>sn_lifecycle := LActiveClean\<rparr>) (kv_sessions s i))"
    "kv_repo s' = kv_repo s" "kv_disposed s' = kv_disposed s" "kv_idleTimer s' = kv_idleTimer s"
    "kv_calls s' = kv_calls s" "br_failures (kv_breaker s') = 0"
  by (simp_all add: s'_def restore_succeeded_def Let_def split_beta frame_simps)

lemma restore_succeeded_inv:
  assumes core: "kv_core {i} env s" and i: "i \<in> dom (kv_sessions s)"
    and calls: "kv_calls s = cs @ [CRestore k f]" and cnt: "counters_ok cs (kv_counters s)"
  shows "kv_inv env (snd (restore_succeeded env i m t n s))"
proof -
  have "kv_core {i} env (snd (now env s))"
    using core by (simp add: kv_core_def frame_simps)
  then have "kv_core {} env (set_lifecycle i LActiveClean (assignSlot env i SReady (snd (now env s))))"
    using i by (intro set_lifecycle_core [of "{i}"] assign_core) (auto simp: frame_simps)
  then have "kv_core {} env (snd (restore_succeeded env i m t n s))"
    by (simp add: restore_succeeded_def Let_def split_beta kv_core_def frame_simps)
  moreover have "counters_ok (kv_calls (snd (restore_succeeded env i m t n s)))
      (kv_counters (snd (restore_succeeded env i m t n s)))"
    using cnt calls
    by (auto simp: restore_succeeded_def Let_def split_beta counters_ok_def frame_simps)
  ultimately show ?thesis
    by (simp add: kv_inv_def slot_quiet_def restore_succeeded_fields)
qed

definition restore_start :: "'w kv_env \<Rightarrow> string \<Rightarrow> 'w kv \<Rightarrow> 'w kv" where
  "restore_start env i s = set_lifecycle i LRestoring (set_slot_state SRestoring (snd (now env s)))"

definition relife :: "string \<Rightarrow> lifecycle \<Rightarrow> (string \<Rightarrow> session_runtime option) \<Rightarrow> string \<Rightarrow> session_runtime option" where
  "relife i l f = f(i := map_option (\<lambda>r. r\<lparr>sn_lifecycle := l\<rparr>) (f i))"

text \<open>How step 4 ends.\<close>

definition restored_effect :: "'w kv_env \<Rightarrow> string \<Rightarrow> snapshot_identity \<Rightarrow> 'w kv \<Rightarrow> 'w kv \<Rightarrow> bool" where
  "restored_effect env i ident s s' \<longleftrightarrow>
     kv_calls s' = kv_calls s @ [CRestore (sl_id (kv_slot s)) (file_of env ident)] \<and>
     kv_repo s' = kv_repo s \<and> sl_state (kv_slot s') = SReady \<and>
     kv_sessions s' = relife i LActiveClean (kv_sessions s) \<and> br_failures (kv_breaker s') = 0"

definition fallback_effect :: "'w kv_env \<Rightarrow> string \<Rightarrow> snapshot_identity \<Rightarrow> 'w kv \<Rightarrow> 'w kv \<Rightarrow> bool" where
  "fallback_effect env i ident s s' \<longleftrightarrow>
     kv_calls s' = kv_calls s @ [CRestore (sl_id (kv_slot s)) (file_of env ident), CErase (sl_id (kv_slot s))] \<and>
     sl_state (kv_slot s') = SIdle \<and> kv_sessions s' = relife i LCold (kv_sessions s) \<and>
     (\<exists>ts. dateParses (env_platform env) ts \<and>
        kv_repo s' = snd (repo_markInvalid (env_platform env) ident RESTORE_FAILED ts (kv_repo s)))"

lemma entry_file:
  "entry_ok pf (manifestPath pf ident) m \<Longrightarrow> m_snapshotFilename m = snapshotFilename pf ident"
  unfolding entry_ok_def by (metis manifestPath_filename)

lemma relife_twice [simp]: "relife i l (relife i l' f) = relife i l f"
  by (auto simp: relife_def map_option.compositionality comp_def)

lemma relife_none: "relife i l f j = None \<longleftrightarrow> f j = None"
  by (auto simp: relife_def)

lemma dom_relife [simp]: "dom (relife i l f) = dom f"
  by (auto simp: dom_def relife_none)

lemma restore_start_fields [frame_simps]:
  "sl_id (kv_slot (restore_start env i s)) = sl_id (kv_slot s)"
  "owner_of (restore_start env i s) = owner_of s"
  "kv_sessions (restore_start env i s) = relife i LRestoring (kv_sessions s)"
  "kv_breaker (restore_start env i s) = kv_breaker s" "kv_counters (restore_start env i s) = kv_counters s"
  "kv_repo (restore_start env i s) = kv_repo s" "kv_calls (restore_start env i s) = kv_calls s"
  "kv_disposed (restore_start env i s) = kv_disposed s"
  "kv_idleTimer (restore_start env i s) = kv_idleTimer s"
  by (simp_all add: restore_start_def relife_def frame_simps)

text \<open>The attempt is a restore call followed by one of the two ends.\<close>

lemma restore_attempt_cases [consumes 2, case_names failed succeeded]:
  assumes "sha_shape (env_platform env)" "m_snapshotFilename m = file_of env ident"
  obtains e where
      "restore_attempt env i ident m s =
         restore_failed env i ident e (snd (call_restore env (file_of env ident) (restore_start env i s)))"
  | n where "fst (call_restore env (file_of env ident) (restore_start env i s)) = Inr n"
      "c_restoreVerify (env_cfg env) \<Longrightarrow> n = None \<or> 0 < the n"
      "restore_attempt env i ident m s =
         restore_succeeded env i m (fst (now env s)) n
           (snd (call_restore env (file_of env ident) (restore_start env i s)))"
proof -
  obtain r s4 where call: "call_restore env (file_of env ident) (restore_start env i s) = (r, s4)" by force
  have guard: "assertPluginGeneratedFilename (file_of env ident) = Inr ()"
    using assms(1) by (simp add: file_of_def)
  note unf = restore_attempt_def restore_start_def Let_def split_beta
  show ?thesis
  proof (cases r)
    case (Inl e)
    then show ?thesis
      using that(1) [of e] assms(2) guard call by (simp add: unf)
  next
    case (Inr n)
    show ?thesis
    proof (cases "c_restoreVerify (env_cfg env) \<and> (case n of None \<Rightarrow> False | Some k \<Rightarrow> k \<le> 0)")
      case True
      then show ?thesis
        using that(1) [of "KvError KV_RESTORE_FAILED ''verification''"] assms(2) guard call Inr
        by (simp add: unf)
    next
      case False
      moreover from False have "c_restoreVerify (env_cfg env) \<Longrightarrow> n = None \<or> 0 < the n"
        by (cases n) auto
      moreover have "restore_attempt env i ident m s = restore_succeeded env i m (fst (now env s)) n s4"
        using False assms(2) guard call Inr by (auto simp: unf)
      ultimately show ?thesis
        using that(2) [of n] call Inr by simp
    qed
  qed
qed

lemma restore_attempt_effect:
  assumes env: "env_ok env" and core: "kv_core {} env s" and cnt: "counters_ok (kv_calls s) (kv_counters s)"
    and i: "i \<in> dom (kv_sessions s)" and fname: "m_snapshotFilename m = file_of env ident"
    and att: "restore_attempt env i ident m s = (out, s')"
  shows "kv_inv env s' \<and> owner_of s' = Some i \<and> kv_disposed s' = kv_disposed s \<and>
    kv_idleTimer s' = kv_idleTimer s \<and>
    ((ro_kind out = Restored \<and> restored_effect env i ident s s') \<or>
     (ro_kind out = ColdFallback \<and> fallback_effect env i ident s s'))"
proof -
  let ?s1 = "snd (call_restore env (file_of env ident) (restore_start env i s))"
  have "plugin_filename (file_of env ident)"
    using assert_snapshotFilename [OF env_ok_sha [OF env], of ident]
    by (simp add: assertPluginGeneratedFilename_def file_of_def split: if_splits)
  then have core1: "kv_core {i} env ?s1"
    using restore_start_core [OF core, of i] unfolding restore_start_def [symmetric]
    by (simp add: kv_core_def call_restore_fields)
  have calls1: "kv_calls ?s1 = kv_calls s @ [CRestore (sl_id (kv_slot s)) (file_of env ident)]"
    and cnt1: "counters_ok (kv_calls s) (kv_counters ?s1)" and i1: "i \<in> dom (kv_sessions ?s1)"
    and same: "kv_sessions ?s1 = relife i LRestoring (kv_sessions s)" "kv_repo ?s1 = kv_repo s"
      "kv_disposed ?s1 = kv_disposed s" "kv_idleTimer ?s1 = kv_idleTimer s"
      "sl_id (kv_slot ?s1) = sl_id (kv_slot s)"
    using cnt i by (simp_all add: frame_simps)
  from env_ok_sha [OF env] fname show ?thesis
  proof (cases rule: restore_attempt_cases [of env m ident i s])
    case (failed e)
    have "out = outcome ColdFallback i (Some (CaughtError e))" "s' = snd (restore_failed env i ident e ?s1)"
      using att failed by (simp_all add: prod_eq_iff restore_failed_fields(1))
    then show ?thesis
      using restore_failed_inv [OF env core1 i1 calls1 cnt1] same calls1 env_ok_iso [OF env]
      by (auto simp: restore_failed_fields [folded relife_def] fallback_effect_def outcome_def)
  next
    case (succeeded n)
    have "restore_succeeded env i m (fst (now env s)) n ?s1 = (out, s')"
      using att succeeded(3) by simp
    then have "ro_kind out = Restored" "s' = snd (restore_succeeded env i m (fst (now env s)) n ?s1)"
      using restore_succeeded_fields(1) [of env i m "fst (now env s)" n ?s1] by simp_all
    then show ?thesis
      using restore_succeeded_inv [OF core1 i1 calls1 cnt1] same calls1
      by (auto simp: restore_succeeded_fields [folded relife_def] restored_effect_def)
  qed
qed

subsection \<open>The whole preparation\<close>

text \<open>What the eviction of the previous owner may have done.\<close>

definition evict_effect :: "'w kv_env \<Rightarrow> string \<Rightarrow> 'w kv \<Rightarrow> 'w kv \<Rightarrow> bool" where
  "evict_effect env i s s' \<longleftrightarrow>
     kv_inv env s' \<and> owner_of s' = owner_of s \<and> kv_disposed s' = kv_disposed s \<and>
     kv_idleTimer s' = kv_idleTimer s \<and> dom (kv_sessions s') = dom (kv_sessions s) \<and>
     kv_sessions s' i = kv_sessions s i \<and>
     ((\<exists>ow. owner_of s = Some ow \<and> ow \<noteq> i \<and> (saved_effect env ow s s' \<or> failed_effect env ow s s')) \<or>
      (kv_calls s' = kv_calls s \<and> kv_repo s' = kv_repo s \<and> kv_sessions s' = kv_sessions s))"

lemma count_switch_inv [simp]:
  "kv_inv env (count (\<lambda>c. c\<lparr>ct_slotSwitches := f c\<rparr>) s) = kv_inv env s"
  by (simp add: kv_inv_def count_core frame_simps counters_ok_def)

lemma effects_count [simp]:
  "saved_effect env i (count f s) s' = saved_effect env i s s'"
  "failed_effect env i (count f s) s' = failed_effect env i s s'"
  "same_frame i (count f s) s' = same_frame i s s'"
  by (simp_all add: saved_effect_def failed_effect_def same_frame_def frame_simps)

lemma saveOwned_error:
  "saveOwnedSession env i s = (Inl e, s') \<Longrightarrow>
   s' = s \<and> (\<exists>r. kv_sessions s i = Some r \<and> identityFor env i (sn_route r) = Inl e)"
  by (auto simp: saveOwnedSession_def Let_def split: option.splits if_splits sum.splits prod.splits)

lemma evict_owner_effect:
  assumes env: "env_ok env" and inv: "kv_inv env s" and ev: "evict_owner env i s = (x, s')"
  shows "evict_effect env i s s' \<and>
    (\<forall>e. x = Inl e \<longrightarrow> (\<exists>ow r. kv_sessions s ow = Some r \<and> identityFor env ow (sn_route r) = Inl e))"
proof (cases "owner_of s")
  case None
  then show ?thesis using ev inv by (auto simp: evict_owner_def evict_effect_def)
next
  case (Some ow)
  let ?s1 = "count (\<lambda>c. c\<lparr>ct_slotSwitches := ct_slotSwitches c + 1\<rparr>) s"
  show ?thesis
  proof (cases "ow \<noteq> i \<and> shouldCheckpoint (env_cfg env) (kv_sessions s ow) TSwitch")
    case False
    then have "x = Inr () \<and> (s' = s \<or> s' = ?s1)"
      using ev Some by (cases "ow = i") (simp_all add: evict_owner_def Let_def count_fields)
    then show ?thesis
      using inv by (auto simp: evict_effect_def count_fields)
  next
    case True
    obtain y s2 where save: "saveOwnedSession env ow ?s1 = (y, s2)" by force
    have "x = (case y of Inl e \<Rightarrow> Inl e | Inr _ \<Rightarrow> Inr ())" "s' = s2"
      using ev True Some save by (simp_all add: evict_owner_def Let_def count_fields split: sum.splits)
    moreover note eff = saveOwned_effect [OF env _ save, simplified, OF inv]
    moreover have "kv_inv env s2" "same_frame ow s s2" using eff by simp_all
    ultimately show ?thesis
      using True Some saveOwned_error [of env ow ?s1 _ s2] save
      by (auto simp: evict_effect_def same_frame_def frame_simps split: sum.splits)
  qed
qed

lemma find_core:
  assumes env: "env_ok env" and core: "kv_core X env s"
  shows "kv_core X env (snd (findCompatibleManifest env ident s))"
proof -
  have "repo_ok (env_platform env) (kv_repo (snd (findCompatibleManifest env ident s)))"
    using core findCompatible_ok [of "env_platform env" "kv_repo s" "env_wallclock env (kv_world s)" ident] env
    by (auto simp: findCompatibleManifest_def kv_core_def env_ok_def split: prod.splits sum.splits)
  then show ?thesis using core by (simp add: kv_core_def find_fields)
qed

lemma find_Some:
  assumes core: "kv_core X env s" and found: "fst (findCompatibleManifest env ident s) = Some m"
  shows "snd (findCompatibleManifest env ident s) = s \<and>
    repo_load (env_platform env) ident (kv_repo s) = Inr (Some m) \<and> m_state m = Ready \<and>
    m_provider m = si_provider ident \<and> m_model m = si_model ident \<and>
    m_compatibilityVersion m = si_compatibilityVersion ident \<and> m_snapshotFilename m = file_of env ident"
proof -
  obtain fs where f: "repo_findCompatible (env_platform env) ident (env_wallclock env (kv_world s)) (kv_repo s)
      = (Inr (Some m), fs)"
    using found by (auto simp: findCompatibleManifest_def split: prod.splits sum.splits)
  note F = findCompatible_Some [OF f]
  have "entry_ok (env_platform env) (manifestPath (env_platform env) ident) m"
    by (rule repo_ok_load [of _ "kv_repo s"]) (use core F in \<open>simp_all add: kv_core_def\<close>)
  then show ?thesis
    using F entry_file by (simp add: findCompatibleManifest_def f file_of_def)
qed

text \<open>What a preparation that returns has done, by the kind of its outcome.\<close>

definition prep_effect :: "'w kv_env \<Rightarrow> string \<Rightarrow> snapshot_identity \<Rightarrow> restore_kind \<Rightarrow> 'w kv \<Rightarrow> 'w kv \<Rightarrow> bool" where
  "prep_effect env i ident k s s' \<longleftrightarrow>
     (if k = AlreadyActive
      then slot_resident i s \<and> kv_calls s' = kv_calls s \<and> kv_repo s' = kv_repo s \<and>
           kv_slot s' = kv_slot s \<and> kv_counters s' = kv_counters s \<and> kv_breaker s' = kv_breaker s
      else \<not> slot_resident i s \<and> (\<exists>s1 s2. snd (evict_owner env i s) = s1 \<and> evict_effect env i s s1 \<and>
        kv_calls s2 = kv_calls s1 \<and> sl_id (kv_slot s2) = sl_id (kv_slot s1) \<and> kv_sessions s2 = kv_sessions s1 \<and>
        (case k of
           ColdStart \<Rightarrow> kv_calls s' = kv_calls s2 @ [CErase (sl_id (kv_slot s2))] \<and> sl_state (kv_slot s') = SIdle
         | Restored \<Rightarrow> kv_repo s2 = kv_repo s1 \<and> restored_effect env i ident s2 s' \<and>
             (\<exists>m. repo_load (env_platform env) ident (kv_repo s1) = Inr (Some m) \<and> m_state m = Ready)
         | _ \<Rightarrow> fallback_effect env i ident s2 s')))"

lemma prep_effect_other:
  assumes "k \<noteq> AlreadyActive" "\<not> slot_resident i s" "snd (evict_owner env i s) = s1" "evict_effect env i s s1"
    and "kv_calls s2 = kv_calls s1" "sl_id (kv_slot s2) = sl_id (kv_slot s1)" "kv_sessions s2 = kv_sessions s1"
    and "case k of
           ColdStart \<Rightarrow> kv_calls s' = kv_calls s2 @ [CErase (sl_id (kv_slot s2))] \<and> sl_state (kv_slot s') = SIdle
         | Restored \<Rightarrow> kv_repo s2 = kv_repo s1 \<and> restored_effect env i ident s2 s' \<and>
             (\<exists>m. repo_load (env_platform env) ident (kv_repo s1) = Inr (Some m) \<and> m_state m = Ready)
         | _ \<Rightarrow> fallback_effect env i ident s2 s'"
  shows "prep_effect env i ident k s s'"
  unfolding prep_effect_def using assms by (simp del: restore_kind.case) blast

lemma kv_inv_core: "kv_inv env s \<Longrightarrow> kv_core {} env s"
  by (simp add: kv_inv_def)

lemma prepare_effect:
  assumes env: "env_ok env" and inv: "kv_inv env s" and i: "i \<in> dom (kv_sessions s)"
    and prep: "prepareSession env i ident s = (Inr out, s')"
  shows "kv_inv env s' \<and> owner_of s' = Some i \<and> kv_disposed s' = kv_disposed s \<and>
    kv_idleTimer s' = kv_idleTimer s \<and> dom (kv_sessions s') = dom (kv_sessions s) \<and>
    prep_effect env i ident (ro_kind out) s s'"
proof -
  obtain r where r: "kv_sessions s i = Some r" using i by blast
  show ?thesis
  proof (cases "slot_resident i s")
    case True
    then have out: "ro_kind out = AlreadyActive"
        and s': "s' = set_lifecycle i (if isDirty r then LActiveDirty else LActiveClean) s"
      using prep r by (auto simp: prepareSession_def requireRuntime_def outcome_def)
    have "kv_core {} env s'"
      unfolding s' by (rule set_lifecycle_core [OF kv_inv_core [OF inv]]) auto
    then show ?thesis
      using inv True out r s' by (simp add: kv_inv_def prep_effect_def set_session_fields slot_resident_def)
        (auto split: if_splits)
  next
    case False
    obtain x s1 where ev: "evict_owner env i s = (x, s1)" by force
    note EV = evict_owner_effect [OF env inv ev]
    have x: "x = Inr ()"
      using prep ev r False by (cases x) (simp_all add: prepareSession_def requireRuntime_def)
    define fnd where "fnd = (if c_restoreEnabled (env_cfg env) then findCompatibleManifest env ident s1 else (None, s1))"
    let ?s2 = "snd fnd"
    have inv1: "kv_inv env s1" and i1: "i \<in> dom (kv_sessions s1)"
      using EV i by (simp_all add: evict_effect_def)
    then have core2: "kv_core {} env ?s2" and cnt2: "counters_ok (kv_calls ?s2) (kv_counters ?s2)"
      and i2: "i \<in> dom (kv_sessions ?s2)"
      using find_core [OF env, of "{}" s1 ident] by (simp_all add: kv_inv_def find_fields fnd_def)
    have same: "kv_calls ?s2 = kv_calls s1" "kv_slot ?s2 = kv_slot s1" "kv_sessions ?s2 = kv_sessions s1"
        "kv_disposed ?s2 = kv_disposed s1" "kv_idleTimer ?s2 = kv_idleTimer s1"
      by (simp_all add: find_fields fnd_def)
    have frame: "evict_effect env i s s1" "sl_id (kv_slot ?s2) = sl_id (kv_slot s1)"
        "kv_disposed ?s2 = kv_disposed s" "kv_idleTimer ?s2 = kv_idleTimer s"
        "dom (kv_sessions ?s2) = dom (kv_sessions s)"
      using EV same by (simp_all add: evict_effect_def)
    have "snd (evict_owner env i s) = s1" using ev by simp
    note eff = prep_effect_other [OF _ False this frame(1) same(1) frame(2) same(3)]
    have body: "prepareSession env i ident s =
        (case fst fnd of None \<Rightarrow> (case cold_assign env i ?s2 of (out, s3) \<Rightarrow> (Inr out, s3))
         | Some m \<Rightarrow> (case restore_attempt env i ident m ?s2 of (out, s3) \<Rightarrow> (Inr out, s3)))"
      unfolding fnd_def using ev x r False by (simp add: prepareSession_def requireRuntime_def split_beta Let_def)
    show ?thesis
    proof (cases "fst fnd")
      case None
      then have c: "cold_assign env i ?s2 = (out, s')"
        using prep unfolding body by (simp split: prod.splits)
      have out: "ro_kind out = ColdStart" using c cold_assign_fields(1) [of env i ?s2] by (simp add: outcome_def)
      have s': "s' = snd (cold_assign env i ?s2)" using c by simp
      have "kv_inv env s'" unfolding s' by (rule cold_assign_inv [OF core2 cnt2 i2])
      moreover have "prep_effect env i ident ColdStart s s'"
        unfolding s' by (rule eff) (simp_all add: cold_assign_fields)
      moreover have "owner_of s' = Some i" "kv_disposed s' = kv_disposed ?s2"
          "kv_idleTimer s' = kv_idleTimer ?s2" "dom (kv_sessions s') = dom (kv_sessions ?s2)"
        unfolding s' cold_assign_fields dom_set_session by simp_all
      ultimately show ?thesis using out frame by simp
    next
      case (Some m)
      then have c: "restore_attempt env i ident m ?s2 = (out, s')"
        using prep unfolding body by (simp split: prod.splits)
      have en: "fnd = findCompatibleManifest env ident s1" using Some by (auto simp: fnd_def split: if_splits)
      note F = find_Some [OF kv_inv_core [OF inv1], of ident m]
      have ld: "repo_load (env_platform env) ident (kv_repo s1) = Inr (Some m)" "m_state m = Ready"
          "m_snapshotFilename m = file_of env ident" "kv_repo ?s2 = kv_repo s1"
        using F Some unfolding en by simp_all
      note R = restore_attempt_effect [OF env core2 cnt2 i2 ld(3) c]
      have "prep_effect env i ident (ro_kind out) s s'"
        by (rule eff) (use R ld in auto)
      moreover have "\<exists>l. kv_sessions s' = relife i l (kv_sessions ?s2)"
        using R unfolding restored_effect_def fallback_effect_def by blast
      then have "dom (kv_sessions s') = dom (kv_sessions ?s2)"
        by (elim exE) (simp only: dom_relife)
      ultimately show ?thesis using R frame by simp
    qed
  qed
qed

text \<open>A preparation fails only for a missing runtime, or for the identity of the evicted owner.\<close>

lemma prepare_error:
  assumes "env_ok env" "kv_inv env s" "prepareSession env i ident s = (Inl e, s')"
  shows "(kv_sessions s i = None \<and> s' = s) \<or>
    (evict_effect env i s s' \<and> (\<exists>ow r. kv_sessions s ow = Some r \<and> identityFor env ow (sn_route r) = Inl e))"
proof (cases "kv_sessions s i")
  case (Some r)
  obtain x s1 where ev: "evict_owner env i s = (x, s1)" by force
  have "\<not> slot_resident i s" "x = Inl e" "s1 = s'"
    using assms(3) Some ev
    by (auto simp: prepareSession_def requireRuntime_def Let_def split: if_splits sum.splits prod.splits option.splits)
  then show ?thesis using evict_owner_effect [OF assms(1,2) ev] by auto
qed (use assms in \<open>simp add: prepareSession_def requireRuntime_def\<close>)

subsection \<open>Every method keeps the invariant\<close>

lemma inv_steps [inv_intros]:
  "kv_inv env s \<Longrightarrow> kv_inv env (cancelIdleTimer s)"
  "kv_inv env s \<Longrightarrow> kv_inv env (snd (circuit_open env s))"
  "kv_inv env s \<Longrightarrow> kv_inv env (snd (now env s))"
  "kv_inv env s \<Longrightarrow> kv_inv env (snd (iso env s))"
  "kv_inv env s \<Longrightarrow> kv_inv env (loseSlotTracking s)"
  "kv_inv env s \<Longrightarrow> kv_inv env (releaseOwner s)"
  "kv_inv env s \<Longrightarrow> kv_inv env (count (\<lambda>c. c\<lparr>ct_circuitSkips := f c\<rparr>) s)"
  "kv_inv env s \<Longrightarrow> kv_inv env (count (\<lambda>c. c\<lparr>ct_auxiliaryRequests := g c\<rparr>) s)"
  "kv_inv env s \<Longrightarrow> kv_inv env (breaker_success s)"
  "kv_inv env s \<Longrightarrow> kv_inv env (set_slot (\<lambda>sl. sl\<lparr>sl_lastUsedAt := t\<rparr>) s)"
  "kv_inv env s \<Longrightarrow> kv_inv env (scheduleIdleCheckpoint env i s)"
  by (simp_all add: kv_inv_def kv_core_def slot_quiet_def counters_ok_def frame_simps
      scheduleIdleCheckpoint_def Let_def)

lemma inv_slot_state [inv_intros]:
  "kv_inv env s \<Longrightarrow> st \<noteq> SSaving \<Longrightarrow> st \<noteq> SRestoring \<Longrightarrow> st \<noteq> SBroken \<Longrightarrow> kv_inv env (set_slot_state st s)"
  by (simp add: kv_inv_def kv_core_def slot_quiet_def frame_simps)

lemma inv_erase [inv_intros]: "kv_inv env s \<Longrightarrow> kv_inv env (eraseSlotBestEffort env s)"
  by (auto simp: kv_inv_def kv_core_def slot_quiet_def counters_ok_def frame_simps split: sum.splits)

lemma inv_lifecycle [inv_intros]:
  "kv_inv env s \<Longrightarrow> l \<noteq> LSaving \<Longrightarrow> l \<noteq> LRestoring \<Longrightarrow> kv_inv env (set_lifecycle i l s)"
  using set_lifecycle_core [of "{}" env s i l] by (simp add: kv_inv_def frame_simps)

lemma inv_dirty [inv_intros]:
  assumes "kv_inv env s" shows "kv_inv env (set_session i markDirty s)"
  using assms session_ok_dirty
  by (auto simp: kv_inv_def kv_core_def frame_simps intro: sessions_ok_upd sessions_ok_forget)

lemma inv_forget [inv_intros]:
  assumes "kv_inv env s" "owner_of s \<noteq> Some i" shows "kv_inv env (forget_session i s)"
  using assms by (auto simp: kv_inv_def kv_core_def frame_simps intro: sessions_ok_forget)

lemma inv_repo [inv_intros]:
  "kv_inv env s \<Longrightarrow> repo_ok (env_platform env) fs \<Longrightarrow> kv_inv env (s\<lparr>kv_repo := fs\<rparr>)"
  by (simp add: kv_inv_def kv_core_def)

lemma inv_save [inv_intros]:
  "env_ok env \<Longrightarrow> kv_inv env s \<Longrightarrow> kv_inv env (snd (saveOwnedSession env i s))"
  using saveOwned_effect by (metis prod.collapse)

lemma inv_world: "kv_inv env s \<Longrightarrow> kv_inv env (s\<lparr>kv_world := w\<rparr>)"
  by (simp add: kv_inv_def kv_core_def)

lemma inv_prepare [inv_intros]:
  assumes "env_ok env" "kv_inv env s" shows "kv_inv env (snd (prepareSession env i ident s))"
proof (cases "prepareSession env i ident s")
  case (Pair x s')
  show ?thesis
  proof (cases x)
    case (Inl e)
    then show ?thesis
      using prepare_error [OF assms, of i ident e s'] Pair assms by (auto simp: evict_effect_def)
  next
    case (Inr out)
    have "i \<in> dom (kv_sessions s)"
      using Pair Inr by (auto simp: prepareSession_def requireRuntime_def split: option.splits)
    then show ?thesis using prepare_effect [OF assms] Pair Inr by simp
  qed
qed

lemma inv_ensureRuntime:
  assumes "kv_inv env s" "i \<noteq> []" "rt_provider rt \<noteq> []" "rt_model rt \<noteq> []"
  shows "kv_inv env (ensureRuntime i rt s)"
proof (cases "kv_sessions s i")
  case None
  have "session_ok i (createSessionRuntime i rt)" "settled (createSessionRuntime i rt)"
    using assms by (simp_all add: session_ok_def settled_def runtime_ok_def createSessionRuntime_def)
  then show ?thesis using assms None
    by (auto simp: ensureRuntime_def kv_inv_def kv_core_def intro!: sessions_ok_set)
next
  case (Some r)
  then have "session_ok i (r\<lparr>sn_route := rt\<rparr>) \<and> settled (r\<lparr>sn_route := rt\<rparr>)"
    using assms by (auto simp: kv_inv_def kv_core_def sessions_ok_def session_ok_def settled_def runtime_ok_def)
  then show ?thesis using assms Some
    by (auto simp: ensureRuntime_def kv_inv_def kv_core_def intro!: sessions_ok_set)
qed

lemma inv_probe: "kv_inv env s \<Longrightarrow> kv_inv env (snd (probeBackend env s))"
  by (auto simp: probeBackend_def intro: inv_intros inv_world split: prod.splits sum.splits)

lemma inv_inference_success: "kv_inv env s \<Longrightarrow> kv_inv env (onInferenceSuccess env i s)"
  by (auto simp: onInferenceSuccess_def Let_def split_beta intro!: inv_intros)

lemma inv_session_request:
  assumes "env_ok env" "kv_inv env s" shows "kv_inv env (snd (session_request_body env i rt s))"
  using assms
  by (auto simp: session_request_body_def Let_def split_beta split: sum.splits
      intro!: inv_intros)

lemma inv_auxiliary:
  assumes "env_ok env" "kv_inv env s" shows "kv_inv env (snd (auxiliary_body env s))"
  using assms
  by (auto simp: auxiliary_body_def Let_def split_beta split: sum.splits option.splits
      intro!: inv_intros)

lemma inv_checkpoint:
  assumes "env_ok env" "kv_inv env s" shows "kv_inv env (snd (checkpoint_body env i tr s))"
  using assms by (auto simp: checkpoint_body_def Let_def split_beta split: sum.splits intro!: inv_intros)

lemma inv_flush:
  assumes "env_ok env" "kv_inv env s" shows "kv_inv env (snd (flushOwned_body env tr s))"
  using assms
  by (auto simp: flushOwned_body_def Let_def split_beta split: sum.splits option.splits intro!: inv_intros)

lemma inv_idle:
  assumes "env_ok env" "kv_inv env s" shows "kv_inv env (snd (idle_body env i s))"
  using assms by (auto simp: idle_body_def Let_def split_beta split: sum.splits intro!: inv_intros)

lemma inv_restoreNow:
  assumes "env_ok env" "kv_inv env s" shows "kv_inv env (snd (restoreNow_body env i s))"
  using assms
  by (auto simp: restoreNow_body_def Let_def split_beta split: sum.splits option.splits intro!: inv_intros)

lemma inv_saveNow:
  assumes "env_ok env" "kv_inv env s" shows "kv_inv env (snd (saveNow_body env i s))"
  using assms by (auto simp: saveNow_body_def intro!: inv_intros)

lemma inv_disposed_end: "kv_inv env s \<Longrightarrow> kv_inv env (disposed_end i s)"
  by (auto simp: disposed_end_def Let_def frame_simps intro!: inv_intros)

lemma inv_disposed_checkpoint:
  assumes "env_ok env" "kv_inv env s" shows "kv_inv env (snd (disposed_checkpoint env i s))"
  using assms by (auto simp: disposed_checkpoint_def Let_def split_beta split: sum.splits intro!: inv_intros)

lemma inv_disposed:
  assumes "env_ok env" "kv_inv env s" shows "kv_inv env (snd (disposed_body env i s))"
  using inv_disposed_checkpoint [OF assms, of i]
  by (auto simp: disposed_body_def split_beta split: sum.splits intro!: inv_disposed_end)

lemma inv_invalidate:
  assumes "env_ok env" "kv_inv env s" shows "kv_inv env (snd (invalidate_body env i reason s))"
proof -
  define s2 where "s2 = (let s1 = set_lifecycle i LInvalid s
    in if owner_of s1 = Some i then releaseOwner (eraseSlotBestEffort env s1) else s1)"
  have s2: "kv_inv env s2"
    unfolding s2_def Let_def using assms by (auto intro!: inv_intros)
  obtain r fs where inv: "repo_invalidateSession (env_platform env) i reason (fst (iso env s2)) (kv_repo s2) = (r, fs)"
    by force
  have "repo_ok (env_platform env) fs"
    by (rule invalidateSession_ok [OF _ env_ok_iso [OF assms(1)] inv])
      (use s2 in \<open>simp add: kv_inv_def kv_core_def\<close>)
  then have "kv_inv env ((snd (iso env s2))\<lparr>kv_repo := fs\<rparr>)"
    using s2 by (intro inv_intros)
  then show ?thesis
    using inv unfolding s2_def
    by (auto simp: invalidate_body_def Let_def split_beta iso_fields split: sum.splits)
qed

lemma inv_purge:
  assumes "env_ok env" "kv_inv env s" shows "kv_inv env (snd (purge_body env i s))"
proof -
  define s1 where "s1 = (if owner_of s = Some i then releaseOwner (eraseSlotBestEffort env s) else s)"
  have s1: "kv_inv env s1" "owner_of s1 \<noteq> Some i"
    unfolding s1_def using assms by (auto simp: frame_simps intro!: inv_intros)
  obtain r fs where rm: "repo_removeSession (env_platform env) i (kv_repo s1) = (r, fs)" by force
  have "repo_ok (env_platform env) fs"
    by (rule removeSession_ok [OF _ rm]) (use s1 in \<open>simp add: kv_inv_def kv_core_def\<close>)
  then have "kv_inv env (s1\<lparr>kv_repo := fs\<rparr>)" using s1 by (intro inv_intros)
  then show ?thesis
    using rm s1(2) unfolding purge_body_def s1_def [symmetric] Let_def
    by (cases r) (auto intro!: inv_intros)
qed

lemmas body_inv = inv_session_request inv_auxiliary inv_checkpoint inv_flush inv_idle inv_restoreNow
  inv_saveNow inv_disposed inv_invalidate inv_purge

subsection \<open>The promises of a request\<close>

lemma identityFor_ok:
  "urlOrigin (env_platform env) (c_baseURL (env_cfg env)) \<noteq> None \<Longrightarrow> \<exists>ident. identityFor env i rt = Inr ident"
  by (auto simp: identityFor_def buildSnapshotIdentity_def deriveServerInstanceKey_def Let_def)

lemma saveOwned_starts:
  assumes env: "env_ok env" and inv: "kv_inv env s" and r: "kv_sessions s i = Some r" "isDirty r"
    and own: "owner_of s = Some i" and ident: "identityFor env i (sn_route r) = Inr ident"
    and save: "saveOwnedSession env i s = (x, s')"
  shows "\<exists>res. x = Inr res \<and>
    ((sr_kind res = Saved \<and> saved_effect env i s s') \<or> (sr_kind res = Failed \<and> failed_effect env i s s'))"
proof -
  have ok: "session_ok i r" using inv r by (auto simp: kv_inv_def kv_core_def dest: sessions_okD)
  then have nf: "sn_saveInFlight r = None" by (simp add: session_ok_def runtime_ok_def)
  obtain res s4 where att:
    "save_attempt env i ident (sn_dirtyRevision r) (fst (now env s)) (save_start env i s) = (res, s4)" by force
  note eff = save_attempt_effect [OF env inv r own ok ident att]
  then have "clear_inFlight i s4 = s4"
    by (intro clear_inFlight_core [of env]) (simp add: kv_inv_def)
  then show ?thesis
    using saveOwned_started [OF r own nf ident] att eff save by auto
qed

text \<open>An eviction of a dirty owner is exactly one save call of that owner's snapshot.\<close>

lemma evict_saves:
  assumes env: "env_ok env" and inv: "kv_inv env s" and own: "owner_of s = Some ow" "ow \<noteq> i"
    and r: "kv_sessions s ow = Some r" "isDirty r" and sw: "c_onSwitch (env_cfg env)"
    and ident: "identityFor env ow (sn_route r) = Inr oident" and ev: "evict_owner env i s = (x, s')"
  shows "x = Inr () \<and> kv_calls s' = kv_calls s @ [CSave (sl_id (kv_slot s)) (file_of env oident)]"
proof -
  let ?s1 = "count (\<lambda>c. c\<lparr>ct_slotSwitches := ct_slotSwitches c + 1\<rparr>) s"
  obtain y s2 where save: "saveOwnedSession env ow ?s1 = (y, s2)" by force
  have "\<exists>res. y = Inr res \<and> ((sr_kind res = Saved \<and> saved_effect env ow ?s1 s2) \<or>
      (sr_kind res = Failed \<and> failed_effect env ow ?s1 s2))"
    by (rule saveOwned_starts [OF env _ _ r(2) _ ident save]) (use inv r own in \<open>simp_all add: count_fields\<close>)
  moreover have "x = (case y of Inl e \<Rightarrow> Inl e | Inr _ \<Rightarrow> Inr ())" "s' = s2"
    using ev own r sw save
    by (auto simp: evict_owner_def Let_def count_fields shouldCheckpoint_def split: sum.splits)
  ultimately show ?thesis
    using r(1) ident by (auto simp: saved_effect_def failed_effect_def count_fields)
qed

lemma prep_later_calls:
  assumes "prep_effect env i ident k s s'"
  shows "k = AlreadyActive \<or>
    (\<exists>rest. kv_calls s' = kv_calls (snd (evict_owner env i s)) @ rest \<and> n_saves rest = 0)"
  using assms
  by (cases k) (auto simp: prep_effect_def restored_effect_def fallback_effect_def)

text \<open>Only a missing runtime or an unusable base URL can make a preparation fail.\<close>

lemma prepare_total:
  assumes "env_ok env" "kv_inv env s" "i \<in> dom (kv_sessions s)"
    and "urlOrigin (env_platform env) (c_baseURL (env_cfg env)) \<noteq> None"
  shows "\<exists>out s'. prepareSession env i ident s = (Inr out, s')"
proof (cases "prepareSession env i ident s")
  case (Pair x s')
  have "x \<noteq> Inl e" for e
  proof
    assume "x = Inl e"
    then have "\<exists>ow rt. identityFor env ow rt = Inl e"
      using prepare_error [OF assms(1,2), of i ident e s'] Pair assms(3) by blast
    then show False using identityFor_ok [OF assms(4)] by (metis sum.distinct(1))
  qed
  then show ?thesis using Pair by (cases x) auto
qed

lemma request_prepared:
  assumes "\<not> kv_disposed s" "\<not> fst (circuit_open env (cancelIdleTimer s))" "identityFor env i rt = Inr ident"
    and "prepareSession env i ident (snd (circuit_open env (cancelIdleTimer s))) = (Inr out, s1)"
    and "owner_of s1 = Some i" "\<not> (c_strict (env_cfg env) \<and> ro_kind out = ColdFallback)"
  shows "fst (session_request_body env i rt s) = Inr ()"
    "kv_calls (snd (session_request_body env i rt s)) = kv_calls s1"
    "kv_repo (snd (session_request_body env i rt s)) = kv_repo s1"
    "kv_sessions (snd (session_request_body env i rt s)) = kv_sessions s1"
    "kv_counters (snd (session_request_body env i rt s)) = kv_counters s1"
    "owner_of (snd (session_request_body env i rt s)) = Some i"
    "sl_state (kv_slot (snd (session_request_body env i rt s))) = SInference"
  using assms by (auto simp: session_request_body_def Let_def split_beta frame_simps)

end
