(* ===== verification/KvMutex.thy ===== *)
theory KvMutex
  imports Prelude
begin

text \<open>
  The slot mutex (\<open>plugins/dsh-kv-persist/src/coordinator/slot-lease.ts\<close>): a chain of
  promises. The promise of the \<open>i\<close>-th lease is \<open>mx_locks ! i\<close>, true once it resolved;
  a caller of \<open>acquire\<close> awaits the promise before its own, and gets its release function
  only then. A release function resolves its promise once.
\<close>

record slot_mutex =
  mx_name :: string
  mx_depth :: nat
  mx_locks :: "bool list"

definition new_mutex :: "string \<Rightarrow> slot_mutex" where
  "new_mutex name = \<lparr>mx_name = name, mx_depth = 0, mx_locks = []\<rparr>"

definition mx_held :: "slot_mutex \<Rightarrow> bool" where
  "mx_held m \<longleftrightarrow> mx_depth m > 0"

text \<open>The synchronous part of \<open>acquire\<close>: the ticket of the new lease.\<close>

definition mx_acquire :: "slot_mutex \<Rightarrow> nat \<times> slot_mutex" where
  "mx_acquire m = (length (mx_locks m),
     m\<lparr>mx_depth := mx_depth m + 1, mx_locks := mx_locks m @ [False]\<rparr>)"

text \<open>\<open>await previous\<close> is over: the lease is granted.\<close>

definition mx_granted :: "nat \<Rightarrow> slot_mutex \<Rightarrow> bool" where
  "mx_granted t m \<longleftrightarrow> t < length (mx_locks m) \<and> (t = 0 \<or> mx_locks m ! (t - 1))"

definition mx_released :: "nat \<Rightarrow> slot_mutex \<Rightarrow> bool" where
  "mx_released t m \<longleftrightarrow> mx_locks m ! t"

text \<open>The release function of a granted lease.\<close>

definition mx_release :: "nat \<Rightarrow> slot_mutex \<Rightarrow> slot_mutex" where
  "mx_release t m =
     (if mx_released t m then m
      else m\<lparr>mx_depth := mx_depth m - 1, mx_locks := (mx_locks m)[t := True]\<rparr>)"

definition mx_holds :: "nat \<Rightarrow> slot_mutex \<Rightarrow> bool" where
  "mx_holds t m \<longleftrightarrow> mx_granted t m \<and> \<not> mx_released t m"

text \<open>
  \<open>runExclusive\<close>: the body runs under the granted lease and the lease is released
  whatever the body did (\<open>finally\<close>).
\<close>

definition mx_runExclusive :: "nat \<Rightarrow> ('s \<Rightarrow> 'r \<times> 's) \<Rightarrow> slot_mutex \<times> 's \<Rightarrow> 'r \<times> (slot_mutex \<times> 's)" where
  "mx_runExclusive t body st =
     (case body (snd st) of (r, s1) \<Rightarrow> (r, (mx_release t (fst st), s1)))"

subsection \<open>The lease contract\<close>

text \<open>
  What users of a lease queue rely on: tickets are granted in order, one at a time, a
  release passes the lease on, and somebody holds it while anybody waits.
\<close>

locale lease_queue =
  fixes acquire :: "'q \<Rightarrow> nat \<times> 'q"
    and release :: "nat \<Rightarrow> 'q \<Rightarrow> 'q"
    and holds :: "nat \<Rightarrow> 'q \<Rightarrow> bool"
    and issued :: "'q \<Rightarrow> nat"
    and served :: "'q \<Rightarrow> nat"
    and good :: "'q \<Rightarrow> bool"
  assumes served_le: "good q \<Longrightarrow> served q \<le> issued q"
    and holds_iff: "good q \<Longrightarrow> holds t q \<longleftrightarrow> t = served q \<and> t < issued q"
    and acquire_ticket: "good q \<Longrightarrow> fst (acquire q) = issued q"
    and acquire_good: "good q \<Longrightarrow> good (snd (acquire q))"
    and acquire_issued: "good q \<Longrightarrow> issued (snd (acquire q)) = Suc (issued q)"
    and acquire_served: "good q \<Longrightarrow> served (snd (acquire q)) = served q"
    and release_good: "good q \<Longrightarrow> holds t q \<Longrightarrow> good (release t q)"
    and release_issued: "good q \<Longrightarrow> holds t q \<Longrightarrow> issued (release t q) = issued q"
    and release_served: "good q \<Longrightarrow> holds t q \<Longrightarrow> served (release t q) = Suc (served q)"
begin

lemma exclusive: "good q \<Longrightarrow> holds t q \<Longrightarrow> holds u q \<Longrightarrow> t = u"
  by (simp add: holds_iff)

lemma somebody_holds: "good q \<Longrightarrow> served q < issued q \<Longrightarrow> \<exists>t. holds t q"
  by (simp add: holds_iff)

lemma release_passes_on:
  "good q \<Longrightarrow> holds t q \<Longrightarrow> holds u (release t q) \<longleftrightarrow> u = Suc t \<and> Suc t < issued q"
  using holds_iff [of "release t q" u] by (auto simp: release_good release_issued release_served holds_iff)

lemma acquire_keeps_holder:
  "good q \<Longrightarrow> holds t q \<Longrightarrow> holds t (snd (acquire q))"
  by (simp add: holds_iff acquire_good acquire_issued acquire_served)

lemma fifo: "good q \<Longrightarrow> holds u q \<Longrightarrow> t < u \<Longrightarrow> t < served q"
  by (simp add: holds_iff)

lemmas queue_simps = acquire_ticket acquire_good acquire_issued acquire_served
  release_good release_issued release_served

end

text \<open>Released promises form a prefix of the chain; the depth counts the others.\<close>

definition mx_served :: "slot_mutex \<Rightarrow> nat" where
  "mx_served m = length (takeWhile (\<lambda>b. b) (mx_locks m))"

definition mx_good :: "slot_mutex \<Rightarrow> bool" where
  "mx_good m \<longleftrightarrow>
     mx_locks m = replicate (mx_served m) True @ replicate (length (mx_locks m) - mx_served m) False \<and>
     mx_depth m = length (mx_locks m) - mx_served m"

lemma mx_goodI:
  assumes "mx_locks m = replicate k True @ replicate n False" "mx_depth m = n"
  shows "mx_good m" "mx_served m = k"
proof -
  show k: "mx_served m = k"
    using assms by (cases n) (simp_all add: mx_served_def takeWhile_append)
  then show "mx_good m"
    using assms by (simp add: mx_good_def)
qed

lemma mx_goodE:
  assumes "mx_good m"
  obtains n where "mx_locks m = replicate (mx_served m) True @ replicate n False" "mx_depth m = n"
    "length (mx_locks m) = mx_served m + n"
proof -
  have "mx_served m \<le> length (mx_locks m)"
    by (simp add: mx_served_def length_takeWhile_le)
  then show ?thesis
    using assms that [of "length (mx_locks m) - mx_served m"] by (simp add: mx_good_def)
qed

lemma new_mutex_good: "mx_good (new_mutex name)" "mx_served (new_mutex name) = 0"
  by (simp_all add: mx_good_def mx_served_def new_mutex_def)

lemma mx_holds_iff: "mx_good m \<Longrightarrow> mx_holds t m \<longleftrightarrow> t = mx_served m \<and> t < length (mx_locks m)"
  by (erule mx_goodE)
    (auto simp: mx_holds_def mx_granted_def mx_released_def nth_append split: if_splits)

lemma mx_release_locks:
  assumes "mx_good m" "mx_holds t m"
  shows "mx_good (mx_release t m) \<and> length (mx_locks (mx_release t m)) = length (mx_locks m)
    \<and> mx_served (mx_release t m) = Suc (mx_served m)"
proof -
  obtain n where n: "mx_locks m = replicate (mx_served m) True @ replicate n False" "mx_depth m = n"
      "length (mx_locks m) = mx_served m + n"
    using assms(1) by (rule mx_goodE)
  have t: "t = mx_served m" "t < length (mx_locks m)"
    using assms mx_holds_iff by auto
  then obtain n' where n': "n = Suc n'" using n by (cases n) auto
  have locks: "mx_locks (mx_release t m) = replicate (Suc (mx_served m)) True @ replicate n' False"
  proof -
    have "mx_locks (mx_release t m) = (replicate (mx_served m) True @ False # replicate n' False)[mx_served m := True]"
      using n(1) n' t assms(2) by (simp add: mx_release_def mx_holds_def)
    also have "\<dots> = replicate (mx_served m) True @ True # replicate n' False"
      by (simp add: list_update_append)
    finally show ?thesis
      by (metis append.assoc append_Cons append_Nil replicate_Suc replicate_append_same)
  qed
  moreover have "mx_depth (mx_release t m) = n'"
    using n n' assms(2) by (simp add: mx_release_def mx_holds_def)
  ultimately show ?thesis
    using mx_goodI [of "mx_release t m" "Suc (mx_served m)" n'] n n' by simp
qed

lemma mx_acquire_locks:
  assumes "mx_good m"
  shows "mx_good (snd (mx_acquire m)) \<and> mx_served (snd (mx_acquire m)) = mx_served m"
proof -
  obtain n where n: "mx_locks m = replicate (mx_served m) True @ replicate n False" "mx_depth m = n"
    using assms by (rule mx_goodE)
  have "mx_locks (snd (mx_acquire m)) = replicate (mx_served m) True @ replicate (Suc n) False"
    using n(1) by (simp add: mx_acquire_def replicate_append_same)
  then show ?thesis
    using mx_goodI [of "snd (mx_acquire m)" "mx_served m" "Suc n"] n(2) by (simp add: mx_acquire_def)
qed

interpretation mx: lease_queue mx_acquire mx_release mx_holds "\<lambda>m. length (mx_locks m)" mx_served mx_good
proof unfold_locales
  show "mx_good m \<Longrightarrow> mx_served m \<le> length (mx_locks m)" for m
    by (simp add: mx_served_def length_takeWhile_le)
  show "mx_good m \<Longrightarrow> length (mx_locks (snd (mx_acquire m))) = Suc (length (mx_locks m))" for m
    by (simp add: mx_acquire_def)
  show "mx_good m \<Longrightarrow> fst (mx_acquire m) = length (mx_locks m)" for m
    by (simp add: mx_acquire_def)
qed (simp_all add: mx_holds_iff mx_acquire_locks mx_release_locks)

end
