(* ===== verification/KvSystem.thy ===== *)
theory KvSystem
  imports KvInvariant KvMutex
begin

text \<open>
  The coordinator as a concurrent system: callers of its public methods
  (\<open>coordinator/coordinator.ts\<close>) queue for the slot lease (\<open>coordinator/slot-lease.ts\<close>),
  the method at the head of the queue runs its leased part, and a request keeps the lease
  until its stream ends. Between two steps the host may arrive with another call, the idle
  timer may fire, the backend, the clock and the file system may change.
\<close>

subsection \<open>Jobs and streams\<close>

datatype job =
    JRequest string route | JAuxiliary | JCheckpoint string checkpoint_trigger | JDisposed string
  | JFlush checkpoint_trigger | JIdle string | JRestore string | JSave string
  | JInvalidate string invalidation_reason | JPurge string

text \<open>What the stream wrapper sees of a chunk: a finish with its \<open>reason.kind\<close>, or another type.\<close>

datatype llm_chunk = FinishChunk string | OtherChunk

record open_stream =
  st_ticket :: nat
  st_session :: "string option"
  st_succeeded :: bool

record 'w system =
  sy_kv :: "'w kv"
  sy_mutex :: slot_mutex
  sy_jobs :: "(nat \<times> job) list"
  sy_stream :: "open_stream option"

definition init_system :: "'w kv_env \<Rightarrow> repo_fs \<Rightarrow> 'w \<Rightarrow> 'w system" where
  "init_system env fs w =
     \<lparr>sy_kv = new_coordinator env fs w, sy_mutex = new_mutex ''llama-slot'', sy_jobs = [],
      sy_stream = None\<rparr>"

definition set_kv :: "'w kv \<Rightarrow> 'w system \<Rightarrow> 'w system" where
  "set_kv k s = s\<lparr>sy_kv := k\<rparr>"

text \<open>\<open>await mutex.acquire()\<close> of a caller that will then run \<open>j\<close>.\<close>

definition enqueue :: "job \<Rightarrow> 'w system \<Rightarrow> 'w system" where
  "enqueue j s = (case mx_acquire (sy_mutex s) of
     (t, m) \<Rightarrow> s\<lparr>sy_mutex := m, sy_jobs := sy_jobs s @ [(t, j)]\<rparr>)"

subsection \<open>Calls arriving from the host\<close>

text \<open>\<open>runSessionRequest\<close> and \<open>#runAuxiliary\<close> up to \<open>acquire\<close>.\<close>

definition arrive_request :: "request \<Rightarrow> 'w system \<Rightarrow> (kv_error + unit) \<times> 'w system" where
  "arrive_request req s =
     (if kv_disposed (sy_kv s) then (Inl (KvError KV_COORDINATOR_DISPOSED ''request''), s)
      else case (req_purpose req, req_sessionId req) of
        (None, Some sid) \<Rightarrow>
          (Inr (), enqueue (JRequest sid (req_route req))
                     (set_kv (ensureRuntime sid (req_route req) (sy_kv s)) s))
      | _ \<Rightarrow> (Inr (), enqueue JAuxiliary (set_kv
               (count (\<lambda>c. c\<lparr>ct_auxiliaryRequests := ct_auxiliaryRequests c + 1\<rparr>) (sy_kv s)) s)))"

definition arrive_checkpoint :: "string \<Rightarrow> checkpoint_trigger \<Rightarrow> 'w system \<Rightarrow> 'w system" where
  "arrive_checkpoint sid trigger s =
     (if kv_disposed (sy_kv s) then s else enqueue (JCheckpoint sid trigger) s)"

definition arrive_disposed :: "string \<Rightarrow> 'w system \<Rightarrow> 'w system" where
  "arrive_disposed sid s = (if kv_disposed (sy_kv s) then s else enqueue (JDisposed sid) s)"

definition arrive_flush :: "checkpoint_trigger \<Rightarrow> 'w system \<Rightarrow> 'w system" where
  "arrive_flush trigger s = (if kv_disposed (sy_kv s) then s else enqueue (JFlush trigger) s)"

text \<open>\<open>restoreNow\<close>, \<open>saveNow\<close>, \<open>invalidate\<close> and \<open>purge\<close> have no disposal guard.\<close>

definition arrive_management :: "job \<Rightarrow> 'w system \<Rightarrow> 'w system" where
  "arrive_management j s = enqueue j s"

fun management_job :: "job \<Rightarrow> bool" where
  "management_job (JRestore _) = True"
| "management_job (JSave _) = True"
| "management_job (JInvalidate _ _) = True"
| "management_job (JPurge _) = True"
| "management_job _ = False"

text \<open>The callback of the idle timer.\<close>

definition fire_idle :: "'w system \<Rightarrow> 'w system" where
  "fire_idle s = (case kv_idleTimer (sy_kv s) of
     None \<Rightarrow> s
   | Some sid \<Rightarrow> enqueue (JIdle sid) (set_kv (cancelIdleTimer (sy_kv s)) s))"

text \<open>\<open>dispose\<close>; its bounded wait changes nothing.\<close>

definition dispose :: "'w kv_env \<Rightarrow> 'w system \<Rightarrow> 'w system" where
  "dispose env s =
     (let s1 = set_kv (cancelIdleTimer ((sy_kv s)\<lparr>kv_disposed := True\<rparr>)) s
      in if \<not> c_onShutdown (env_cfg env) then s1 else enqueue (JFlush TShutdown) s1)"

subsection \<open>Running under the lease\<close>

fun run_body :: "'w kv_env \<Rightarrow> job \<Rightarrow> 'w kv \<Rightarrow> (kv_error + unit) \<times> 'w kv" where
  "run_body env (JRequest sid rt) k = session_request_body env sid rt k"
| "run_body env JAuxiliary k = auxiliary_body env k"
| "run_body env (JCheckpoint sid trigger) k = map_prod (map_sum id (\<lambda>_. ())) id (checkpoint_body env sid trigger k)"
| "run_body env (JDisposed sid) k = disposed_body env sid k"
| "run_body env (JFlush trigger) k = flushOwned_body env trigger k"
| "run_body env (JIdle sid) k = idle_body env sid k"
| "run_body env (JRestore sid) k = map_prod (map_sum id (\<lambda>_. ())) id (restoreNow_body env sid k)"
| "run_body env (JSave sid) k = map_prod (map_sum id (\<lambda>_. ())) id (saveNow_body env sid k)"
| "run_body env (JInvalidate sid reason) k = invalidate_body env sid reason k"
| "run_body env (JPurge sid) k = purge_body env sid k"

text \<open>A request that got through opens its stream and keeps the lease.\<close>

fun job_stream :: "job \<Rightarrow> string option option" where
  "job_stream (JRequest sid rt) = Some (Some sid)"
| "job_stream JAuxiliary = Some None"
| "job_stream _ = None"

text \<open>The job whose lease is granted runs; \<open>None\<close> when the lease is taken or nobody waits.\<close>

definition run_next :: "'w kv_env \<Rightarrow> 'w system \<Rightarrow> ((kv_error + unit) \<times> 'w system) option" where
  "run_next env s =
     (case sy_jobs s of
        [] \<Rightarrow> None
      | (t, j) # rest \<Rightarrow>
          if \<not> mx_holds t (sy_mutex s) \<or> sy_stream s \<noteq> None then None
          else
           (case run_body env j (sy_kv s) of (r, k) \<Rightarrow>
             Some (r,
              (let s1 = (set_kv k s)\<lparr>sy_jobs := rest\<rparr> in
               case (r, job_stream j) of
                 (Inr _, Some sess) \<Rightarrow>
                   s1\<lparr>sy_stream := Some \<lparr>st_ticket = t, st_session = sess, st_succeeded = False\<rparr>\<rparr>
               | _ \<Rightarrow> s1\<lparr>sy_mutex := mx_release t (sy_mutex s1)\<rparr>))))"

text \<open>One chunk passes through the wrapper.\<close>

fun chunk_success :: "llm_chunk \<Rightarrow> bool" where
  "chunk_success (FinishChunk k) = (k \<noteq> ''error'' \<and> k \<noteq> ''aborted'')"
| "chunk_success OtherChunk = False"

definition stream_chunk :: "llm_chunk \<Rightarrow> 'w system \<Rightarrow> 'w system" where
  "stream_chunk c s = (case sy_stream s of
     None \<Rightarrow> s
   | Some st \<Rightarrow> s\<lparr>sy_stream := Some (st\<lparr>st_succeeded := st_succeeded st \<or> chunk_success c\<rparr>)\<rparr>)"

text \<open>The stream ended, failed or was closed: \<open>finish(succeeded)\<close>, then the release.\<close>

definition stream_end :: "'w kv_env \<Rightarrow> 'w system \<Rightarrow> 'w system" where
  "stream_end env s = (case sy_stream s of
     None \<Rightarrow> s
   | Some st \<Rightarrow>
       (let k = (case st_session st of
                   Some sid \<Rightarrow> if st_succeeded st then onInferenceSuccess env sid (sy_kv s) else sy_kv s
                 | None \<Rightarrow> sy_kv s)
        in (set_kv k s)\<lparr>sy_stream := None, sy_mutex := mx_release (st_ticket st) (sy_mutex s)\<rparr>))"

subsection \<open>Steps\<close>

text \<open>What the host passes for a session request: ids and routes are never empty.\<close>

definition request_ok :: "request \<Rightarrow> bool" where
  "request_ok req \<longleftrightarrow> req_sessionId req \<noteq> Some [] \<and>
     rt_provider (req_route req) \<noteq> [] \<and> rt_model (req_route req) \<noteq> []"

inductive kv_step :: "'w kv_env \<Rightarrow> 'w system \<Rightarrow> 'w system \<Rightarrow> bool" for env where
  st_request: "request_ok req \<Longrightarrow> kv_step env s (snd (arrive_request req s))"
| st_checkpoint: "kv_step env s (arrive_checkpoint sid trigger s)"
| st_disposed: "kv_step env s (arrive_disposed sid s)"
| st_flush: "kv_step env s (arrive_flush trigger s)"
| st_management: "management_job j \<Longrightarrow> kv_step env s (arrive_management j s)"
| st_idle: "kv_step env s (fire_idle s)"
| st_dispose: "kv_step env s (dispose env s)"
| st_run: "run_next env s = Some (r, s') \<Longrightarrow> kv_step env s s'"
| st_chunk: "kv_step env s (stream_chunk c s)"
| st_end: "kv_step env s (stream_end env s)"
| st_probe: "kv_step env s (set_kv (snd (probeBackend env (sy_kv s))) s)"
| st_world: "kv_step env s (set_kv ((sy_kv s)\<lparr>kv_world := w\<rparr>) s)"
| st_faults: "kv_step env s
    (set_kv ((sy_kv s)\<lparr>kv_repo := (kv_repo (sy_kv s))\<lparr>fs_fault := flt\<rparr>\<rparr>) s)"

inductive kv_reach :: "'w kv_env \<Rightarrow> 'w system \<Rightarrow> bool" for env where
  init: "repo_ok (env_platform env) fs \<Longrightarrow> kv_reach env (init_system env fs w)"
| step: "kv_reach env s \<Longrightarrow> kv_step env s s' \<Longrightarrow> kv_reach env s'"

subsection \<open>The system invariant\<close>

definition lease_base :: "'w system \<Rightarrow> nat" where
  "lease_base s = mx_served (sy_mutex s) + (if sy_stream s = None then 0 else 1)"

text \<open>Who may own the slot while a stream is open.\<close>

definition stream_owner_ok :: "'w system \<Rightarrow> bool" where
  "stream_owner_ok s \<longleftrightarrow> (case sy_stream s of None \<Rightarrow> True
     | Some st \<Rightarrow> st_ticket st = mx_served (sy_mutex s) \<and>
         (owner_of (sy_kv s) = None \<or> (st_session st \<noteq> None \<and> owner_of (sy_kv s) = st_session st)))"

definition sys_inv :: "'w kv_env \<Rightarrow> 'w system \<Rightarrow> bool" where
  "sys_inv env s \<longleftrightarrow> kv_inv env (sy_kv s) \<and> mx_good (sy_mutex s) \<and> stream_owner_ok s \<and>
     lease_base s \<le> length (mx_locks (sy_mutex s)) \<and>
     map fst (sy_jobs s) = [lease_base s ..< length (mx_locks (sy_mutex s))]"

lemma init_sys_inv:
  "repo_ok (env_platform env) fs \<Longrightarrow> sys_inv env (init_system env fs w)"
  by (simp add: sys_inv_def init_system_def new_coordinator_inv stream_owner_ok_def lease_base_def
      new_mutex_good) (simp add: new_mutex_def)

lemma enqueue_fields [simp]:
  "sy_kv (enqueue j s) = sy_kv s" "sy_stream (enqueue j s) = sy_stream s"
  "sy_mutex (enqueue j s) = snd (mx_acquire (sy_mutex s))"
  "sy_jobs (enqueue j s) = sy_jobs s @ [(fst (mx_acquire (sy_mutex s)), j)]"
  by (simp_all add: enqueue_def split: prod.splits)

lemma set_kv_fields [simp]:
  "sy_kv (set_kv k s) = k" "sy_stream (set_kv k s) = sy_stream s"
  "sy_mutex (set_kv k s) = sy_mutex s" "sy_jobs (set_kv k s) = sy_jobs s"
  by (simp_all add: set_kv_def)

lemma enqueue_inv:
  assumes "sys_inv env s" shows "sys_inv env (enqueue j s)"
proof -
  have g: "mx_good (sy_mutex s)" and b: "lease_base s \<le> length (mx_locks (sy_mutex s))"
    using assms by (simp_all add: sys_inv_def)
  have "lease_base (enqueue j s) = lease_base s"
    using mx.acquire_served [OF g] by (simp add: lease_base_def)
  moreover have "stream_owner_ok (enqueue j s) = stream_owner_ok s"
    using mx.acquire_served [OF g] by (simp add: stream_owner_ok_def split: option.splits)
  ultimately show ?thesis
    using assms b by (simp add: sys_inv_def mx.acquire_good mx.acquire_issued mx.acquire_ticket)
qed

lemma set_kv_inv:
  "sys_inv env s \<Longrightarrow> kv_inv env k \<Longrightarrow> owner_of k = owner_of (sy_kv s) \<Longrightarrow> sys_inv env (set_kv k s)"
  by (auto simp: sys_inv_def stream_owner_ok_def lease_base_def split: option.splits)

lemma owner_ensureRuntime [simp]: "owner_of (ensureRuntime i rt k) = owner_of k"
  by (simp add: ensureRuntime_def split: option.splits)

lemma arrive_request_inv:
  assumes "sys_inv env s" "request_ok req" shows "sys_inv env (snd (arrive_request req s))"
proof -
  have kv: "kv_inv env (sy_kv s)" using assms by (simp add: sys_inv_def)
  have "kv_inv env (ensureRuntime i (req_route req) (sy_kv s))" if "req_sessionId req = Some i" for i
    using assms(2) that by (intro inv_ensureRuntime kv) (auto simp: request_ok_def)
  moreover have "kv_inv env (count (\<lambda>c. c\<lparr>ct_auxiliaryRequests := ct_auxiliaryRequests c + 1\<rparr>) (sy_kv s))"
    by (intro inv_intros kv)
  ultimately show ?thesis
    using assms(1)
    by (auto simp: arrive_request_def count_fields split: option.splits intro!: enqueue_inv set_kv_inv)
qed

lemma fire_idle_inv: "sys_inv env s \<Longrightarrow> sys_inv env (fire_idle s)"
  by (auto simp: fire_idle_def sys_inv_def [of env s] misc_fields intro!: enqueue_inv set_kv_inv inv_intros
      split: option.splits)

lemma dispose_inv: "sys_inv env s \<Longrightarrow> sys_inv env (dispose env s)"
proof -
  assume inv: "sys_inv env s"
  then have "kv_inv env (cancelIdleTimer ((sy_kv s)\<lparr>kv_disposed := True\<rparr>))"
    by (intro inv_intros) (simp add: sys_inv_def kv_inv_def kv_core_def)
  then have "sys_inv env (set_kv (cancelIdleTimer ((sy_kv s)\<lparr>kv_disposed := True\<rparr>)) s)"
    by (intro set_kv_inv inv) (simp_all add: misc_fields)
  then show ?thesis by (auto simp: dispose_def Let_def intro: enqueue_inv)
qed

lemma request_owner:
  assumes "env_ok env" "kv_inv env k" "session_request_body env i rt k = (Inr u, k')"
  shows "owner_of k' = None \<or> owner_of k' = Some i"
proof -
  let ?k = "snd (circuit_open env (cancelIdleTimer k))"
  have inv: "kv_inv env ?k" using assms(2) by (intro inv_intros)
  have "owner_of k1 = Some i" if "prepareSession env i ident ?k = (Inr out, k1)" for ident out k1
  proof -
    have "i \<in> dom (kv_sessions ?k)"
      using that by (auto simp: prepareSession_def requireRuntime_def split: option.splits)
    then show ?thesis using prepare_effect [OF assms(1) inv _ that] by simp
  qed
  then show ?thesis
    using assms(3)
    by (auto simp: session_request_body_def Let_def split_beta frame_simps split: if_splits sum.splits)
      (metis prod.collapse)+
qed

lemma auxiliary_owner:
  assumes "auxiliary_body env k = (Inr u, k')" shows "owner_of k' = None"
  using assms
  by (auto simp: auxiliary_body_def Let_def split_beta frame_simps split: if_splits sum.splits option.splits)

lemma run_body_inv:
  "env_ok env \<Longrightarrow> kv_inv env k \<Longrightarrow> kv_inv env (snd (run_body env j k))"
  by (cases j) (simp_all add: body_inv)

lemma run_body_owner:
  assumes "env_ok env" "kv_inv env k" "run_body env j k = (Inr u, k')" "job_stream j = Some sess"
  shows "owner_of k' = None \<or> (sess \<noteq> None \<and> owner_of k' = sess)"
  using assms(3,4) by (cases j) (auto dest: request_owner [OF assms(1,2)] auxiliary_owner)

text \<open>The three ways a granted job leaves the system.\<close>

lemma run_next_cases [consumes 1, case_names stream finished]:
  assumes "run_next env s = Some (r, s')"
  obtains t j rest k sess where "sy_jobs s = (t, j) # rest" "mx_holds t (sy_mutex s)" "sy_stream s = None"
      "run_body env j (sy_kv s) = (r, k)" "r = Inr ()" "job_stream j = Some sess"
      "s' = (set_kv k s)\<lparr>sy_jobs := rest,
              sy_stream := Some \<lparr>st_ticket = t, st_session = sess, st_succeeded = False\<rparr>\<rparr>"
  | t j rest k where "sy_jobs s = (t, j) # rest" "mx_holds t (sy_mutex s)" "sy_stream s = None"
      "run_body env j (sy_kv s) = (r, k)" "(\<exists>e. r = Inl e) \<or> job_stream j = None"
      "s' = (set_kv k s)\<lparr>sy_jobs := rest, sy_mutex := mx_release t (sy_mutex s)\<rparr>"
proof -
  obtain t j rest where jobs: "sy_jobs s = (t, j) # rest" "mx_holds t (sy_mutex s)" "sy_stream s = None"
    using assms by (auto simp: run_next_def split: list.splits if_splits)
  obtain r' k where body: "run_body env j (sy_kv s) = (r', k)" by force
  have run: "Some (r, s') = Some (r', case (r', job_stream j) of
       (Inr _, Some sess) \<Rightarrow> (set_kv k s)\<lparr>sy_jobs := rest,
          sy_stream := Some \<lparr>st_ticket = t, st_session = sess, st_succeeded = False\<rparr>\<rparr>
     | _ \<Rightarrow> (set_kv k s)\<lparr>sy_jobs := rest, sy_mutex := mx_release t (sy_mutex s)\<rparr>)"
    using assms jobs body by (simp add: run_next_def Let_def split: sum.splits option.splits)
  show ?thesis
  proof (cases "(\<exists>e. r = Inl e) \<or> job_stream j = None")
    case True
    then have "s' = (set_kv k s)\<lparr>sy_jobs := rest, sy_mutex := mx_release t (sy_mutex s)\<rparr>"
      using run by (auto split: sum.splits option.splits)
    then show ?thesis using that(2) [OF jobs _ True] body run by simp
  next
    case False
    then obtain sess where sess: "r = Inr ()" "job_stream j = Some sess" by (cases r) auto
    have r': "r' = Inr ()" using run sess(1) by simp
    show ?thesis
      by (rule that(1) [OF jobs _ sess]) (use run body sess in \<open>simp_all add: r'\<close>)
  qed
qed

lemma run_next_inv:
  assumes env: "env_ok env" and inv: "sys_inv env s" and run: "run_next env s = Some (r, s')"
  shows "sys_inv env s'"
proof -
  have kv: "kv_inv env (sy_kv s)" and g: "mx_good (sy_mutex s)"
    and jobs: "map fst (sy_jobs s) = [lease_base s ..< length (mx_locks (sy_mutex s))]"
    using inv by (simp_all add: sys_inv_def)
  from run show ?thesis
  proof (cases rule: run_next_cases)
    case (stream t j rest k sess)
    have t: "t = mx_served (sy_mutex s)" "t < length (mx_locks (sy_mutex s))"
      using stream(2) mx.holds_iff [OF g] by auto
    have "kv_inv env k" using run_body_inv [OF env kv, of j] stream(4) by simp
    moreover have "map fst rest = [Suc t ..< length (mx_locks (sy_mutex s))]"
      using jobs stream(1,3) t by (simp add: lease_base_def upt_conv_Cons)
    ultimately show ?thesis
      using g t run_body_owner [OF env kv _ stream(6)] stream
      by (simp add: sys_inv_def stream_owner_ok_def lease_base_def)
  next
    case (finished t j rest k)
    have t: "t = mx_served (sy_mutex s)" "t < length (mx_locks (sy_mutex s))"
      using finished(2) mx.holds_iff [OF g] by auto
    have "kv_inv env k" using run_body_inv [OF env kv, of j] finished(4) by simp
    moreover have "map fst rest = [Suc t ..< length (mx_locks (sy_mutex s))]"
      using jobs finished(1,3) t by (simp add: lease_base_def upt_conv_Cons)
    ultimately show ?thesis
      using g t finished mx.queue_simps [of "sy_mutex s"]
      by (simp add: sys_inv_def stream_owner_ok_def lease_base_def)
  qed
qed

lemma onInferenceSuccess_owner [simp]: "owner_of (onInferenceSuccess env i k) = owner_of k"
  by (simp add: onInferenceSuccess_def Let_def split_beta scheduleIdleCheckpoint_def frame_simps)

lemma stream_end_inv: "sys_inv env s \<Longrightarrow> sys_inv env (stream_end env s)"
proof (cases "sy_stream s")
  case (Some st)
  assume inv: "sys_inv env s"
  then have g: "mx_good (sy_mutex s)" and h: "mx_holds (st_ticket st) (sy_mutex s)"
    using Some mx.holds_iff [of "sy_mutex s"]
    by (auto simp: sys_inv_def stream_owner_ok_def lease_base_def)
  have "kv_inv env (onInferenceSuccess env i (sy_kv s))" for i
    using inv by (intro inv_inference_success) (simp add: sys_inv_def)
  then show ?thesis
    using inv Some mx.queue_simps [OF g] h
    by (auto simp: sys_inv_def stream_end_def Let_def stream_owner_ok_def lease_base_def split: option.splits)
qed (simp add: stream_end_def)

lemma repo_ok_fault [simp]: "repo_ok pf (fs\<lparr>fs_fault := flt\<rparr>) = repo_ok pf fs"
  by (simp add: repo_ok_def)

lemma kv_step_inv: "kv_step env s s' \<Longrightarrow> env_ok env \<Longrightarrow> sys_inv env s \<Longrightarrow> sys_inv env s'"
proof (induction rule: kv_step.induct)
  case (st_chunk s c)
  then show ?case
    by (auto simp: sys_inv_def stream_chunk_def stream_owner_ok_def lease_base_def split: option.splits)
next
  case (st_probe s)
  then have "kv_inv env (snd (probeBackend env (sy_kv s)))"
    by (intro inv_probe) (simp add: sys_inv_def)
  moreover have "owner_of (snd (probeBackend env (sy_kv s))) = owner_of (sy_kv s)"
    by (simp add: probeBackend_def frame_simps split: prod.splits sum.splits)
  ultimately show ?case by (intro set_kv_inv st_probe)
next
  case (st_world s w)
  then show ?case by (intro set_kv_inv inv_world) (simp_all add: sys_inv_def)
next
  case (st_faults s flt)
  then show ?case by (intro set_kv_inv inv_repo) (simp_all add: sys_inv_def kv_inv_def kv_core_def)
qed (auto simp: arrive_checkpoint_def arrive_disposed_def arrive_flush_def arrive_management_def
    intro: arrive_request_inv enqueue_inv fire_idle_inv dispose_inv run_next_inv stream_end_inv)

theorem reach_sys_inv: "kv_reach env s \<Longrightarrow> env_ok env \<Longrightarrow> sys_inv env s"
  by (induction rule: kv_reach.induct) (auto intro: init_sys_inv kv_step_inv)

subsection \<open>Progress\<close>

text \<open>Nobody waits for a lease that is free: with no open stream the head of the queue runs.\<close>

lemma head_holds:
  assumes "sys_inv env s" "sy_stream s = None" "sy_jobs s = (t, j) # rest"
  shows "mx_holds t (sy_mutex s)"
proof -
  have g: "mx_good (sy_mutex s)"
    and jobs: "map fst (sy_jobs s) = [mx_served (sy_mutex s) ..< length (mx_locks (sy_mutex s))]"
    using assms by (simp_all add: sys_inv_def lease_base_def)
  then have "mx_served (sy_mutex s) < length (mx_locks (sy_mutex s))" "t = mx_served (sy_mutex s)"
    using assms(3) upt_eq_Cons_conv [of "mx_served (sy_mutex s)" "length (mx_locks (sy_mutex s))"]
    by (simp_all add: upt_rec split: if_splits)
  then show ?thesis using mx.holds_iff [OF g] by simp
qed

lemma run_next_enabled:
  assumes "sys_inv env s" "sy_stream s = None" "sy_jobs s \<noteq> []"
  shows "\<exists>r s'. run_next env s = Some (r, s')"
proof -
  obtain t j rest where jobs: "sy_jobs s = (t, j) # rest" using assms(3) by (cases "sy_jobs s") auto
  then show ?thesis
    using head_holds [OF assms(1,2) jobs] assms(2) by (simp add: run_next_def split_beta)
qed

text \<open>Serving the queue: the open stream is closed, then the head runs, as often as needed.\<close>

fun drain :: "'w kv_env \<Rightarrow> nat \<Rightarrow> 'w system \<Rightarrow> 'w system" where
  "drain env 0 s = stream_end env s"
| "drain env (Suc n) s =
     (case run_next env (stream_end env s) of
        None \<Rightarrow> stream_end env s
      | Some (r, s') \<Rightarrow> drain env n s')"

lemma stream_end_fields [simp]:
  "sy_stream (stream_end env s) = None" "sy_jobs (stream_end env s) = sy_jobs s"
  by (simp_all add: stream_end_def Let_def split: option.splits)

lemma run_next_length: "run_next env s = Some (r, s') \<Longrightarrow> length (sy_jobs s) = Suc (length (sy_jobs s'))"
  by (erule run_next_cases) simp_all

lemma drain_reach: "kv_reach env s \<Longrightarrow> kv_reach env (drain env n s)"
proof (induction env n s rule: drain.induct)
  case (2 env n s)
  have e: "kv_reach env (stream_end env s)" by (rule kv_reach.step [OF "2.prems" st_end])
  show ?case
  proof (cases "run_next env (stream_end env s)")
    case (Some rs)
    obtain r s' where rs: "rs = (r, s')" by force
    have "kv_reach env s'" by (rule kv_reach.step [OF e st_run]) (use Some rs in simp)
    then show ?thesis using "2.IH" [OF Some rs [symmetric]] Some rs by simp
  qed (use e in simp)
qed (simp add: kv_reach.step [OF _ st_end])

lemma drain_jobs:
  assumes "env_ok env" "sys_inv env s" "length (sy_jobs s) = n"
  shows "sy_jobs (drain env n s) = [] \<and> sy_stream (drain env n s) = None"
  using assms(2,3)
proof (induction n arbitrary: s)
  case (Suc n)
  have inv: "sys_inv env (stream_end env s)" by (rule stream_end_inv [OF Suc.prems(1)])
  obtain r s' where run: "run_next env (stream_end env s) = Some (r, s')"
    using run_next_enabled [OF inv] Suc.prems(2) by (cases "sy_jobs s") auto
  have "sys_inv env s'" by (rule run_next_inv [OF assms(1) inv run])
  moreover have "length (sy_jobs s') = n" using run_next_length [OF run] Suc.prems(2) by simp
  ultimately show ?case using Suc.IH run by simp
qed simp

lemma idle_lease:
  assumes "sys_inv env s" "sy_jobs s = []" "sy_stream s = None"
  shows "\<not> mx_held (sy_mutex s)"
proof -
  have "mx_served (sy_mutex s) = length (mx_locks (sy_mutex s))"
    using assms upt_eq_Nil_conv [of "mx_served (sy_mutex s)" "length (mx_locks (sy_mutex s))"]
    by (auto simp: sys_inv_def lease_base_def eq_commute [of "[]"])
  then show ?thesis
    using assms(1) by (auto simp: sys_inv_def mx_held_def elim: mx_goodE)
qed

text \<open>After \<open>dispose\<close> no request changes the slot or the sessions any more.\<close>

lemma disposed_body_refuses:
  "kv_disposed k \<Longrightarrow> session_request_body env i rt k = (Inl (KvError KV_COORDINATOR_DISPOSED ''request''), k)"
  "kv_disposed k \<Longrightarrow> auxiliary_body env k = (Inl (KvError KV_COORDINATOR_DISPOSED ''request''), k)"
  by (simp_all add: session_request_body_def auxiliary_body_def)

subsection \<open>Disposal is final\<close>

lemma save_disposed [frame_simps]: "kv_disposed (snd (saveOwnedSession env i k)) = kv_disposed k"
proof -
  have att: "kv_disposed (snd (save_attempt env i ident n t k1)) = kv_disposed k1" for ident n t k1
    by (auto simp: save_attempt_def Let_def split_beta frame_simps save_failed_fields save_succeeded_fields
        split: sum.splits)
  show ?thesis
    by (simp add: saveOwnedSession_def Let_def split_beta frame_simps att split: option.splits sum.splits)
qed

lemma prepare_disposed [frame_simps]: "kv_disposed (snd (prepareSession env i ident k)) = kv_disposed k"
proof -
  have res: "kv_disposed (snd (restore_attempt env i ident m k1)) = kv_disposed k1" for m k1
    by (auto simp: restore_attempt_def Let_def split_beta frame_simps restore_failed_fields
        restore_succeeded_fields split: sum.splits)
  have ev: "kv_disposed (snd (evict_owner env i k1)) = kv_disposed k1" for k1
    by (simp add: evict_owner_def Let_def split_beta frame_simps split: option.splits sum.splits)
  show ?thesis
    by (simp add: prepareSession_def Let_def split_beta frame_simps res ev cold_assign_fields
        split: option.splits sum.splits)
qed

lemma run_body_disposed: "kv_disposed (snd (run_body env j k)) = kv_disposed k"
  by (cases j)
    (simp_all add: session_request_body_def auxiliary_body_def checkpoint_body_def disposed_body_def
      disposed_checkpoint_def disposed_end_def flushOwned_body_def idle_body_def restoreNow_body_def
      saveNow_body_def invalidate_body_def purge_body_def Let_def split_beta frame_simps
      split: option.splits sum.splits)


lemma probe_disposed: "kv_disposed (snd (probeBackend env k)) = kv_disposed k"
  by (simp add: probeBackend_def frame_simps split: prod.splits sum.splits)

lemma success_disposed: "kv_disposed (onInferenceSuccess env i k) = kv_disposed k"
  by (simp add: onInferenceSuccess_def Let_def split_beta scheduleIdleCheckpoint_def frame_simps)

lemma run_next_disposed:
  assumes "run_next env s = Some (r, s')" shows "kv_disposed (sy_kv s') = kv_disposed (sy_kv s)"
  using assms
proof (cases rule: run_next_cases)
  case (stream t j rest k sess)
  then show ?thesis using run_body_disposed [of env j "sy_kv s"] by simp
next
  case (finished t j rest k)
  then show ?thesis using run_body_disposed [of env j "sy_kv s"] by simp
qed

lemma kv_step_disposed: "kv_step env s s' \<Longrightarrow> kv_disposed (sy_kv s) \<Longrightarrow> kv_disposed (sy_kv s')"
proof (induction rule: kv_step.induct)
  case (st_run s r s')
  then show ?case using run_next_disposed by blast
next
  case (st_end s)
  then show ?case by (auto simp: stream_end_def Let_def success_disposed split: option.splits)
qed (auto simp: arrive_request_def arrive_checkpoint_def arrive_disposed_def arrive_flush_def
    arrive_management_def fire_idle_def dispose_def stream_chunk_def Let_def probe_disposed misc_fields
    split: option.splits)

text \<open>Reachability from a given state.\<close>

inductive kv_steps :: "'w kv_env \<Rightarrow> 'w system \<Rightarrow> 'w system \<Rightarrow> bool" for env s where
  same: "kv_steps env s s"
| more: "kv_steps env s s' \<Longrightarrow> kv_step env s' s'' \<Longrightarrow> kv_steps env s s''"

lemma kv_steps_disposed: "kv_steps env s s' \<Longrightarrow> kv_disposed (sy_kv s) \<Longrightarrow> kv_disposed (sy_kv s')"
  by (induction rule: kv_steps.induct) (auto intro: kv_step_disposed)

end
