(* ===== verification/KvService.thy ===== *)
theory KvService
  imports KvSystem
begin

text \<open>
  \<open>KvPersistService\<close> (\<open>plugins/dsh-kv-persist/src/service.ts\<close>): what the host and other
  plugins see of the coordinator. Every call is either a pass-through to the system of
  \<open>KvSystem\<close> or a view of its state.
\<close>

subsection \<open>Construction and filter\<close>

definition new_service :: "'w kv_env \<Rightarrow> raw_config \<Rightarrow> repo_fs \<Rightarrow> 'w \<Rightarrow> kv_error + 'w kv_env \<times> 'w system" where
  "new_service env config fs w =
     (case resolveKvPersistConfig config of
        Inl e \<Rightarrow> Inl e
      | Inr resolved \<Rightarrow>
          (let env1 = env\<lparr>env_cfg := resolved\<rparr> in Inr (env1, init_system env1 fs w)))"

definition handles :: "kv_config \<Rightarrow> string \<Rightarrow> bool" where
  "handles cfg provider \<longleftrightarrow> c_enabled cfg \<and> isManagedProvider cfg provider"

text \<open>\<open>resolveMetadataDir\<close>; \<open>resolvePath\<close> and the DSH home come from the host.\<close>

definition resolveMetadataDir :: "(string \<Rightarrow> string) \<Rightarrow> string \<Rightarrow> kv_config \<Rightarrow> string" where
  "resolveMetadataDir resolvePath dshHome cfg =
     (case c_metadataPath cfg of
        Some p \<Rightarrow> resolvePath p
      | None \<Rightarrow> dshHome @ ''/cache/dsh-kv-persist'')"

subsection \<open>Streams and session events\<close>

record generate_options =
  go_provider :: string
  go_model :: string
  go_sessionId :: "string option"
  go_purpose :: "string option"

text \<open>
  \<open>handleStream\<close>: \<open>None\<close> passes the call on untouched, otherwise the request arrives at the
  coordinator.
\<close>

definition handleStream ::
  "'w kv_env \<Rightarrow> generate_options \<Rightarrow> 'w system \<Rightarrow> ((kv_error + unit) \<times> 'w system) option" where
  "handleStream env opts s =
     (if \<not> handles (env_cfg env) (go_provider opts) then None
      else Some (arrive_request
        \<lparr>req_sessionId = go_sessionId opts,
         req_route = \<lparr>rt_provider = go_provider opts, rt_model = go_model opts\<rparr>,
         req_purpose = go_purpose opts\<rparr> s))"

datatype host_event = EvFlush string | EvDisposed string | EvSession string string

definition on_host_event :: "host_event \<Rightarrow> 'w system \<Rightarrow> 'w system" where
  "on_host_event ev s = (case ev of
     EvFlush sid \<Rightarrow> arrive_checkpoint sid TSessionFlush s
   | EvDisposed sid \<Rightarrow> arrive_disposed sid s
   | EvSession sid typ \<Rightarrow> if typ \<noteq> ''turn/end'' then s else arrive_checkpoint sid TTurnEnd s)"

subsection \<open>The public API\<close>

definition svc_save :: "string \<Rightarrow> 'w system \<Rightarrow> 'w system" where
  "svc_save sid = arrive_management (JSave sid)"

definition svc_restore :: "string \<Rightarrow> 'w system \<Rightarrow> 'w system" where
  "svc_restore sid = arrive_management (JRestore sid)"

definition svc_invalidate :: "string \<Rightarrow> invalidation_reason option \<Rightarrow> 'w system \<Rightarrow> 'w system" where
  "svc_invalidate sid reason = arrive_management (JInvalidate sid (or_default reason EXPLICIT))"

definition svc_purge :: "string \<Rightarrow> 'w system \<Rightarrow> 'w system" where
  "svc_purge sid = arrive_management (JPurge sid)"

definition svc_flush :: "'w system \<Rightarrow> 'w system" where
  "svc_flush = arrive_flush TManual"

record kv_status =
  ks_enabled :: bool
  ks_circuit :: circuit_state
  ks_endpoint :: string
  ks_slotId :: int
  ks_owner :: "string option"
  ks_slotState :: slot_state
  ks_snapshots :: repo_counts
  ks_restores :: nat
  ks_restoreHits :: nat
  ks_coldStarts :: nat
  ks_saves :: nat

definition svc_status :: "'w kv_env \<Rightarrow> 'w system \<Rightarrow> kv_status" where
  "svc_status env s =
     (let k = sy_kv s;
          counts = (case repo_counts_all (env_platform env) (kv_repo k) of
              Inr n \<Rightarrow> n | Inl e \<Rightarrow> \<lparr>rn_known = 0, rn_valid = 0, rn_invalid = 0\<rparr>)
      in \<lparr>ks_enabled = c_enabled (env_cfg env), ks_circuit = br_state (kv_breaker k),
          ks_endpoint = c_baseURL (env_cfg env), ks_slotId = sl_id (kv_slot k),
          ks_owner = sl_owner (kv_slot k), ks_slotState = sl_state (kv_slot k),
          ks_snapshots = counts,
          ks_restores = ct_restores (kv_counters k), ks_restoreHits = ct_restoreHits (kv_counters k),
          ks_coldStarts = ct_coldPrefills (kv_counters k), ks_saves = ct_saves (kv_counters k)\<rparr>)"

record session_view =
  sv_sessionId :: string
  sv_lifecycle :: lifecycle
  sv_provider :: string
  sv_model :: string
  sv_dirtyRevision :: nat
  sv_persistedRevision :: nat
  sv_ownsSlot :: bool

definition svc_getSessionState :: "string \<Rightarrow> 'w system \<Rightarrow> session_view option" where
  "svc_getSessionState sid s =
     map_option (\<lambda>r. \<lparr>sv_sessionId = sid, sv_lifecycle = sn_lifecycle r,
        sv_provider = rt_provider (sn_route r), sv_model = rt_model (sn_route r),
        sv_dirtyRevision = sn_dirtyRevision r, sv_persistedRevision = sn_persistedRevision r,
        sv_ownsSlot = (sl_owner (kv_slot (sy_kv s)) = Some sid)\<rparr>) (kv_sessions (sy_kv s) sid)"

text \<open>
  \<open>doctor\<close>: the probe and the write test of the metadata directory, whose outcome is given.
  The three checks in order, ready when all pass.
\<close>

definition svc_doctor :: "'w kv_env \<Rightarrow> bool \<Rightarrow> 'w system \<Rightarrow> (bool \<times> bool list) \<times> 'w system" where
  "svc_doctor env metadataWritable s =
     (case probeBackend env (sy_kv s) of
        (probe, k) \<Rightarrow>
          (let healthy = (case probe of Inr _ \<Rightarrow> True | Inl _ \<Rightarrow> False);
               slotIds = (case probe of Inr ids \<Rightarrow> ids | Inl _ \<Rightarrow> []);
               checks = [healthy, List.member slotIds (num_of (c_slotId (env_cfg env))), metadataWritable]
           in ((list_all (\<lambda>b. b) checks, checks), set_kv k s)))"

subsection \<open>What the service shows\<close>

text \<open>An accepted request is for an explicitly listed provider of an enabled plugin.\<close>

lemma handleStream_managed:
  "handleStream env opts s = Some x \<longleftrightarrow>
   c_enabled (env_cfg env) \<and> go_provider opts \<in> set (c_providers (env_cfg env)) \<and>
   x = arrive_request \<lparr>req_sessionId = go_sessionId opts,
         req_route = \<lparr>rt_provider = go_provider opts, rt_model = go_model opts\<rparr>,
         req_purpose = go_purpose opts\<rparr> s"
  by (auto simp: handleStream_def handles_def isManagedProvider_def)

text \<open>A healthy probe has seen the configured slot, so the second check never fails alone.\<close>

lemma doctor_checks:
  assumes "env_ok env" "svc_doctor env wr s = ((ready, checks), s')"
  shows "checks = [checks ! 0, checks ! 0, wr] \<and> (ready \<longleftrightarrow> checks ! 0 \<and> wr)"
proof -
  have be: "persistence_backend (env_backend env) (c_slotId (env_cfg env))"
    using assms(1) by (simp add: env_ok_def)
  show ?thesis
    using assms(2) persistence_backend.probe_slot [OF be]
    by (auto simp: svc_doctor_def probeBackend_def Let_def split: prod.splits sum.splits)
qed

end
