(* ===== verification/KvSamples.thy ===== *)
theory KvSamples
  imports KvService
begin

text \<open>
  A concrete environment the witnesses run: a digest that tells texts of different length
  apart, a server that answers every call, a clock that counts, and the default
  configuration for one provider.
\<close>

definition demo_digit :: "nat \<Rightarrow> char" where
  "demo_digit n = ''0123456789abcdef'' ! (n mod 16)"

definition demo_platform :: platform where
  "demo_platform = \<lparr>sha256Hex = (\<lambda>s. replicate 64 (demo_digit (length s))),
     urlOrigin = (\<lambda>u. Some u), dateParses = (\<lambda>_. True), isoString = (\<lambda>_. ''2026-01-01T00:00:00.000Z'')\<rparr>"

definition demo_backend :: "int backend" where
  "demo_backend = \<lparr>be_probe = (\<lambda>w. (Inr [num_of 0], w)), be_inspectSlots = (\<lambda>w. (Inr [num_of 0], w)),
     be_saveSlot = (\<lambda>k f w. (Inr None, w)), be_restoreSlot = (\<lambda>k f w. (Inr (Some 7), w)),
     be_eraseSlot = (\<lambda>k w. (Inr (), w))\<rparr>"

definition demo_cfg :: kv_config where
  "demo_cfg = kv_defaults\<lparr>c_providers := [''llama'']\<rparr>"

definition demo_env :: "int kv_env" where
  "demo_env = \<lparr>env_cfg = demo_cfg, env_backend = demo_backend, env_now = (\<lambda>w. (w, w + 1)),
     env_wallclock = (\<lambda>_. ''2026-01-01T00:00:00.000Z''), env_platform = demo_platform\<rparr>"

definition demo_fs :: repo_fs where
  "demo_fs = \<lparr>fs_files = [], fs_fault = (\<lambda>_ _. False)\<rparr>"

definition demo_route :: route where
  "demo_route = \<lparr>rt_provider = ''llama'', rt_model = ''m''\<rparr>"

lemma demo_digit_hex: "lower_hex (demo_digit n)"
proof -
  have "\<forall>k \<in> set [0..<16]. lower_hex (''0123456789abcdef'' ! k)"
    by (simp add: upt_rec lower_hex_def)
  then show ?thesis by (simp add: demo_digit_def)
qed

lemma demo_env_ok: "env_ok demo_env"
proof -
  have "persistence_backend demo_backend 0"
    by unfold_locales (auto simp: demo_backend_def)
  then show ?thesis
    by (simp add: env_ok_def demo_env_def demo_cfg_def kv_defaults_def demo_platform_def sha_shape_def
        demo_digit_hex list_all_iff)
qed

text \<open>A fresh coordinator; session \<open>a\<close> known, served once (dirty), and \<open>bb\<close> known.\<close>

definition demo0 :: "int kv" where
  "demo0 = new_coordinator demo_env demo_fs 0"

definition demo1 :: "int kv" where
  "demo1 = ensureRuntime ''a'' demo_route demo0"

definition demo2 :: "int kv" where
  "demo2 = snd (session_request_body demo_env ''a'' demo_route demo1)"

definition demo3 :: "int kv" where
  "demo3 = ensureRuntime ''bb'' demo_route (onInferenceSuccess demo_env ''a'' demo2)"

lemma demo_inv: "kv_inv demo_env demo0" "kv_inv demo_env demo1" "kv_inv demo_env demo2" "kv_inv demo_env demo3"
proof -
  show 0: "kv_inv demo_env demo0"
    unfolding demo0_def by (rule new_coordinator_inv) (simp add: repo_ok_def demo_fs_def)
  show 1: "kv_inv demo_env demo1"
    unfolding demo1_def by (rule inv_ensureRuntime [OF 0]) (simp_all add: demo_route_def)
  show 2: "kv_inv demo_env demo2"
    unfolding demo2_def by (rule inv_session_request [OF demo_env_ok 1])
  show "kv_inv demo_env demo3"
    unfolding demo3_def
    by (rule inv_ensureRuntime [OF inv_inference_success [OF 2]]) (simp_all add: demo_route_def)
qed

lemma demo3_fs: "fs_files (kv_repo demo3) = []" "\<not> fs_fault (kv_repo demo3) x p"
  by code_simp+

lemma demo3_owner: "owner_of demo3 = Some ''a''" "sl_id (kv_slot demo3) = 0"
  "case kv_sessions demo3 ''a'' of Some r \<Rightarrow> isDirty r | None \<Rightarrow> False"
  "''bb'' \<in> dom (kv_sessions demo3)" "kv_calls demo3 = [CErase 0]"
  subgoal by code_simp
  subgoal by code_simp
  subgoal by code_simp
  subgoal by (simp add: demo3_def ensureRuntime_def split: option.splits)
  subgoal by code_simp
  done

lemma demo_url: "urlOrigin (env_platform demo_env) (c_baseURL (env_cfg demo_env)) \<noteq> None"
  by (simp add: demo_env_def demo_platform_def)

lemma demo_save:
  obtains r ident res k1 where "kv_sessions demo3 ''a'' = Some r" "isDirty r"
    "identityFor demo_env ''a'' (sn_route r) = Inr ident"
    "saveOwnedSession demo_env ''a'' demo3 = (Inr res, k1)" "sr_kind res = Saved"
    "repo_load (env_platform demo_env) ident (kv_repo demo3) = Inr None"
proof -
  obtain r where r: "kv_sessions demo3 ''a'' = Some r" "isDirty r"
    using demo3_owner(3) by (auto split: option.splits)
  obtain ident where ident: "identityFor demo_env ''a'' (sn_route r) = Inr ident"
    using identityFor_ok [OF demo_url] by blast
  have ld: "repo_load pf ident (kv_repo demo3) = Inr None" for pf
    by (simp add: repo_load_def demo3_fs)
  have nf: "sn_saveInFlight r = None"
    using demo_inv(4) r(1) by (auto simp: kv_inv_def kv_core_def session_ok_def runtime_ok_def dest: sessions_okD)
  obtain res s4 where att: "save_attempt demo_env ''a'' ident (sn_dirtyRevision r) (fst (now demo_env demo3))
      (save_start demo_env ''a'' demo3) = (res, s4)" by force
  have "sr_kind res = Saved"
    using env_ok_sha [OF demo_env_ok]
  proof (cases rule: save_attempt_cases [of demo_env ident "save_start demo_env ''a'' demo3" "''a''"
      "sn_dirtyRevision r" "fst (now demo_env demo3)"])
    case (save_error e)
    then show ?thesis by (simp add: call_save_def demo_env_def demo_backend_def)
  next
    case (put_error bytes e fs s1)
    then show ?thesis
      by (simp add: repo_put_def repo_write_def Let_def frame_simps demo3_fs save_input_def ld)
  next
    case (stored bytes m fs s1)
    then show ?thesis
      using att save_succeeded_fields(1) by (metis fst_conv snap_result_def snapshot_result.select_convs(1))
  qed
  then show ?thesis
    using that [OF r ident _ _ ld] saveOwned_started [OF r demo3_owner(1) nf ident] att by simp
qed

end
