(* ===== verification/KvProperties.thy ===== *)
theory KvProperties
  imports KvSamples
begin

text \<open>
  The promises of \<open>dsh-kv-persist\<close>, stated over the coordinator and the system of
  \<open>KvSystem\<close>, each with an application at the sample environment.
\<close>

subsection \<open>Requests\<close>

text \<open>C1: Outside strict mode persistence never fails a request. Whatever the server answers
  and the file system does, a request of a known session that reaches the lease gets its
  stream: the slot then belongs to the session, or the open circuit dropped slot tracking.\<close>

theorem request_degrades:
  assumes "env_ok env" "kv_inv env k" "i \<in> dom (kv_sessions k)" "\<not> kv_disposed k"
    and "urlOrigin (env_platform env) (c_baseURL (env_cfg env)) \<noteq> None" "\<not> c_strict (env_cfg env)"
  shows "fst (session_request_body env i rt k) = Inr () \<and>
    (if fst (circuit_open env (cancelIdleTimer k))
     then owner_of (snd (session_request_body env i rt k)) = None \<and>
          kv_calls (snd (session_request_body env i rt k)) = kv_calls k
     else owner_of (snd (session_request_body env i rt k)) = Some i \<and>
          sl_state (kv_slot (snd (session_request_body env i rt k))) = SInference)"
proof (cases "fst (circuit_open env (cancelIdleTimer k))")
  case True
  then show ?thesis
    using assms(4) by (simp add: session_request_body_def Let_def split_beta frame_simps)
next
  case False
  let ?k = "snd (circuit_open env (cancelIdleTimer k))"
  obtain ident where ident: "identityFor env i rt = Inr ident"
    using identityFor_ok [OF assms(5)] by blast
  have inv: "kv_inv env ?k" and i: "i \<in> dom (kv_sessions ?k)"
    using assms(2,3) by (auto simp: frame_simps intro!: inv_intros)
  obtain out k1 where prep: "prepareSession env i ident ?k = (Inr out, k1)"
    using prepare_total [OF assms(1) inv i assms(5)] by blast
  have "owner_of k1 = Some i" using prepare_effect [OF assms(1) inv i prep] by simp
  then show ?thesis
    using request_prepared [OF assms(4) False ident prep] assms(6) False by simp
qed

theorem request_degrades_witness:
  "fst (session_request_body demo_env ''bb'' demo_route demo3) = Inr ()"
proof -
  have "''bb'' \<in> dom (kv_sessions demo3)"
    by (simp add: demo3_def ensureRuntime_def split: option.splits)
  moreover have "\<not> kv_disposed demo3" by code_simp
  moreover have "urlOrigin (env_platform demo_env) (c_baseURL (env_cfg demo_env)) \<noteq> None"
    "\<not> c_strict (env_cfg demo_env)"
    by (simp_all add: demo_env_def demo_platform_def demo_cfg_def kv_defaults_def)
  ultimately show ?thesis
    using request_degrades [OF demo_env_ok demo_inv(4), of "''bb''" demo_route] by simp
qed

text \<open>C2: Save before evict. When the slot's owner is another session with unsaved state and
  switch checkpoints are on, the first thing a preparation does to the server is one save of
  the owner's slot under the owner's snapshot name; every erase or restore comes after it, and
  nothing else is saved.\<close>

theorem save_before_evict:
  assumes "env_ok env" "kv_inv env k" "i \<in> dom (kv_sessions k)"
    and "owner_of k = Some ow" "ow \<noteq> i" "kv_sessions k ow = Some r" "isDirty r"
    and "c_onSwitch (env_cfg env)" "identityFor env ow (sn_route r) = Inr oident"
    and "prepareSession env i ident k = (Inr out, k')"
  shows "\<exists>rest. kv_calls k' = kv_calls k @ [CSave (sl_id (kv_slot k)) (file_of env oident)] @ rest \<and>
    n_saves rest = 0 \<and> rest \<noteq> []"
proof -
  obtain x k1 where ev: "evict_owner env i k = (x, k1)" by force
  have calls: "kv_calls k1 = kv_calls k @ [CSave (sl_id (kv_slot k)) (file_of env oident)]"
    using evict_saves [OF assms(1,2,4-9) ev] by simp
  have pe: "prep_effect env i ident (ro_kind out) k k'"
    using prepare_effect [OF assms(1-3,10)] by simp
  moreover have "\<not> slot_resident i k" using assms(4,5) by (simp add: slot_resident_def)
  ultimately show ?thesis
    using calls ev
    by (cases "ro_kind out") (auto simp: prep_effect_def restored_effect_def fallback_effect_def)
qed

theorem save_before_evict_witness:
  "\<exists>ident oident out k'. prepareSession demo_env ''bb'' ident demo3 = (Inr out, k') \<and>
     (\<exists>rest. kv_calls k' = [CErase 0, CSave 0 (file_of demo_env oident)] @ rest \<and>
        n_saves rest = 0 \<and> rest \<noteq> [])"
proof -
  have "''bb'' \<in> dom (kv_sessions demo3)"
    by (simp add: demo3_def ensureRuntime_def split: option.splits)
  moreover have url: "urlOrigin (env_platform demo_env) (c_baseURL (env_cfg demo_env)) \<noteq> None"
    by (simp add: demo_env_def demo_platform_def)
  ultimately obtain ident out k' where prep: "prepareSession demo_env ''bb'' ident demo3 = (Inr out, k')"
    using prepare_total [OF demo_env_ok demo_inv(4)] by blast
  have own: "owner_of demo3 = Some ''a''" by code_simp
  have "(case kv_sessions demo3 ''a'' of Some r \<Rightarrow> isDirty r | None \<Rightarrow> False)" by code_simp
  then obtain r where r: "kv_sessions demo3 ''a'' = Some r" "isDirty r" by (auto split: option.splits)
  obtain oident where oid: "identityFor demo_env ''a'' (sn_route r) = Inr oident"
    using identityFor_ok [OF url] by blast
  have "c_onSwitch (env_cfg demo_env)" by (simp add: demo_env_def demo_cfg_def kv_defaults_def)
  moreover have "kv_calls demo3 = [CErase 0]" "sl_id (kv_slot demo3) = 0" by code_simp+
  ultimately obtain rest where "kv_calls k' = [CErase 0, CSave 0 (file_of demo_env oident)] @ rest"
      "n_saves rest = 0" "rest \<noteq> []"
    using save_before_evict [OF demo_env_ok demo_inv(4) _ own _ r _ oid prep]
      \<open>''bb'' \<in> dom (kv_sessions demo3)\<close> by auto
  then show ?thesis using prep by blast
qed

text \<open>C3: A save of the slot's owner either makes the session durable or loses nothing. When
  it reports success the session is clean, its manifest loads as ready under the session's
  snapshot name and the circuit is healthy again; when it reports failure the session is
  still dirty at the same generation, no stored file changed and the failure was counted.
  Both make exactly one save call; every other answer leaves the state untouched.\<close>

theorem save_outcome:
  assumes "env_ok env" "kv_inv env k" "saveOwnedSession env i k = (Inr res, k')"
  shows "(sr_kind res = Saved \<and> (\<exists>r r' ident m. kv_sessions k i = Some r \<and>
            identityFor env i (sn_route r) = Inr ident \<and> kv_sessions k' i = Some r' \<and>
            sn_dirtyRevision r' = sn_dirtyRevision r \<and> \<not> isDirty r' \<and>
            repo_load (env_platform env) ident (kv_repo k') = Inr (Some m) \<and> m_state m = Ready \<and>
            m_snapshotFilename m = snapshotFilename (env_platform env) ident \<and>
            br_failures (kv_breaker k') = 0 \<and>
            kv_calls k' = kv_calls k @ [CSave (sl_id (kv_slot k)) (m_snapshotFilename m)])) \<or>
         (sr_kind res = Failed \<and> (\<exists>r r' ident. kv_sessions k i = Some r \<and>
            identityFor env i (sn_route r) = Inr ident \<and> kv_sessions k' i = Some r' \<and> isDirty r' \<and>
            sn_dirtyRevision r' = sn_dirtyRevision r \<and> kv_repo k' = kv_repo k \<and>
            br_failures (kv_breaker k') = Suc (br_failures (kv_breaker k)) \<and>
            kv_calls k' = kv_calls k @ [CSave (sl_id (kv_slot k)) (file_of env ident)])) \<or>
         (sr_kind res \<in> {SkippedClean, SkippedNotOwner} \<and> k' = k)"
proof -
  consider "sr_kind res = Saved" "saved_effect env i k k'" | "sr_kind res = Failed" "failed_effect env i k k'"
    | "sr_kind res \<in> {SkippedClean, SkippedNotOwner}" "k' = k"
    using saveOwned_effect [OF assms] by auto
  then show ?thesis
  proof cases
    case 1
    then show ?thesis
      by (auto simp: saved_effect_def stored_manifest_def file_of_def)
  next
    case 2
    then show ?thesis
      by (auto simp: failed_effect_def isDirty_def)
  qed blast
qed

theorem save_outcome_witness:
  "\<exists>res k'. saveOwnedSession demo_env ''a'' demo3 = (Inr res, k') \<and>
     (sr_kind res = Saved \<or> sr_kind res = Failed)"
proof -
  have url: "urlOrigin (env_platform demo_env) (c_baseURL (env_cfg demo_env)) \<noteq> None"
    by (simp add: demo_env_def demo_platform_def)
  have own: "owner_of demo3 = Some ''a''" by code_simp
  have "(case kv_sessions demo3 ''a'' of Some r \<Rightarrow> isDirty r | None \<Rightarrow> False)" by code_simp
  then obtain r where r: "kv_sessions demo3 ''a'' = Some r" "isDirty r" by (auto split: option.splits)
  obtain oident where oid: "identityFor demo_env ''a'' (sn_route r) = Inr oident"
    using identityFor_ok [OF url] by blast
  obtain x k' where save: "saveOwnedSession demo_env ''a'' demo3 = (x, k')" by force
  obtain res where res: "x = Inr res" "sr_kind res = Saved \<or> sr_kind res = Failed"
    using saveOwned_starts [OF demo_env_ok demo_inv(4) r own oid save] by blast
  then show ?thesis
    using save_outcome [OF demo_env_ok demo_inv(4) save [unfolded res(1)]] save by blast
qed

text \<open>A resident session is served with no server call, no file access and no change of
  the snapshot store, the counters or the circuit.\<close>

theorem resident_fast_path:
  assumes "\<not> kv_disposed k" "\<not> fst (circuit_open env (cancelIdleTimer k))"
    and "slot_resident i k" "kv_sessions k i = Some r" "identityFor env i rt = Inr ident"
  shows "fst (session_request_body env i rt k) = Inr () \<and>
    kv_calls (snd (session_request_body env i rt k)) = kv_calls k \<and>
    kv_repo (snd (session_request_body env i rt k)) = kv_repo k \<and>
    kv_counters (snd (session_request_body env i rt k)) = kv_counters k \<and>
    kv_breaker (snd (session_request_body env i rt k)) = kv_breaker k \<and>
    owner_of (snd (session_request_body env i rt k)) = Some i \<and>
    sl_state (kv_slot (snd (session_request_body env i rt k))) = SInference"
proof -
  let ?k = "snd (circuit_open env (cancelIdleTimer k))"
  have "prepareSession env i ident ?k =
      (Inr (outcome AlreadyActive i None), set_lifecycle i (if isDirty r then LActiveDirty else LActiveClean) ?k)"
    using assms(3,4) by (simp add: prepareSession_def requireRuntime_def slot_resident_def frame_simps)
  then show ?thesis
    using assms by (simp add: session_request_body_def Let_def split_beta frame_simps slot_resident_def outcome_def)
qed

theorem resident_fast_path_witness:
  "kv_calls (snd (session_request_body demo_env ''a'' demo_route demo3)) = [CErase 0]"
proof -
  have own: "owner_of demo3 = Some ''a'' \<and> \<not> kv_disposed demo3 \<and> sl_state (kv_slot demo3) = SDirty"
    by code_simp
  have open1: "\<not> fst (circuit_open demo_env (cancelIdleTimer demo3))" by code_simp
  have calls: "kv_calls demo3 = [CErase 0]" by code_simp
  have "kv_sessions demo3 ''a'' \<noteq> None" by code_simp
  then obtain r where r: "kv_sessions demo3 ''a'' = Some r" by blast
  have "urlOrigin (env_platform demo_env) (c_baseURL (env_cfg demo_env)) \<noteq> None"
    by (simp add: demo_env_def demo_platform_def)
  then obtain ident where "identityFor demo_env ''a'' demo_route = Inr ident"
    using identityFor_ok by blast
  then show ?thesis
    using resident_fast_path [OF _ open1 _ r] own calls by (simp add: slot_resident_def)
qed



subsection \<open>The system of callers\<close>

text \<open>C5: In every reachable state, whatever the order of calls, timers, streams and faults:
  no session's persisted generation is ahead of its dirty one and no session is left in a
  transient lifecycle; the slot is never left saving, restoring or broken and its owner is a
  known session; the circuit is healthy exactly after a success, and never half-open; every
  server call ever made was for the configured slot and a name of the plugin's own form.\<close>

theorem reachable_state:
  assumes "kv_reach env s" "env_ok env"
  shows "(\<forall>i r. kv_sessions (sy_kv s) i = Some r \<longrightarrow>
            sn_persistedRevision r \<le> sn_dirtyRevision r \<and> sn_saveInFlight r = None \<and>
            sn_lifecycle r \<notin> {LSaving, LRestoring}) \<and>
         sl_state (kv_slot (sy_kv s)) \<notin> {SSaving, SRestoring, SBroken} \<and>
         (\<forall>i. owner_of (sy_kv s) = Some i \<longrightarrow> kv_sessions (sy_kv s) i \<noteq> None) \<and>
         (br_state (kv_breaker (sy_kv s)) = Healthy \<longleftrightarrow> br_failures (kv_breaker (sy_kv s)) = 0) \<and>
         br_state (kv_breaker (sy_kv s)) \<noteq> HalfOpen \<and>
         list_all (call_ok (c_slotId (env_cfg env))) (kv_calls (sy_kv s)) \<and>
         repo_ok (env_platform env) (kv_repo (sy_kv s))"
proof -
  have "kv_inv env (sy_kv s)" using reach_sys_inv [OF assms] by (simp add: sys_inv_def)
  then show ?thesis
    by (auto simp: kv_inv_def kv_core_def sessions_ok_def session_ok_def settled_def runtime_ok_def
        slot_quiet_def breaker_ok_def)
qed

text \<open>The sample system with one request waiting.\<close>

definition demo_request :: request where
  "demo_request = \<lparr>req_sessionId = Some ''a'', req_route = demo_route, req_purpose = None\<rparr>"

definition demo_sys :: "int system" where
  "demo_sys = snd (arrive_request demo_request (init_system demo_env demo_fs 0))"

lemma demo_sys_reach: "kv_reach demo_env demo_sys"
  unfolding demo_sys_def
  by (rule kv_reach.step [OF kv_reach.init kv_step.st_request])
    (simp_all add: repo_ok_def demo_fs_def request_ok_def demo_request_def demo_route_def)

theorem reachable_state_witness:
  "sl_state (kv_slot (sy_kv demo_sys)) \<notin> {SSaving, SRestoring, SBroken} \<and>
   list_all (call_ok 0) (kv_calls (sy_kv demo_sys))"
  using reachable_state [OF demo_sys_reach demo_env_ok]
  by (simp add: demo_env_def demo_cfg_def kv_defaults_def)



text \<open>C6: One at a time. In every reachable state at most one caller holds the slot lease; while a
  stream is open that holder is the stream, no waiting job can run, and the slot belongs to
  the stream's session or to nobody.\<close>

theorem lease_exclusive:
  assumes "kv_reach env s" "env_ok env"
  shows "(\<forall>t u. mx_holds t (sy_mutex s) \<and> mx_holds u (sy_mutex s) \<longrightarrow> t = u) \<and>
    (\<forall>st. sy_stream s = Some st \<longrightarrow> mx_holds (st_ticket st) (sy_mutex s) \<and> run_next env s = None \<and>
       (owner_of (sy_kv s) = None \<or> owner_of (sy_kv s) = st_session st))"
proof -
  have inv: "sys_inv env s" by (rule reach_sys_inv [OF assms])
  then have g: "mx_good (sy_mutex s)" by (simp add: sys_inv_def)
  show ?thesis
  proof (intro conjI allI impI)
    fix t u assume "mx_holds t (sy_mutex s) \<and> mx_holds u (sy_mutex s)"
    then show "t = u" by (elim conjE) (rule mx.exclusive [OF g])
  next
    fix st assume st: "sy_stream s = Some st"
    have own: "st_ticket st = mx_served (sy_mutex s)" "mx_served (sy_mutex s) < length (mx_locks (sy_mutex s))"
        "owner_of (sy_kv s) = None \<or> owner_of (sy_kv s) = st_session st"
      using inv st by (auto simp: sys_inv_def stream_owner_ok_def lease_base_def)
    then show "mx_holds (st_ticket st) (sy_mutex s)" using mx.holds_iff [OF g] by simp
    show "run_next env s = None" using st by (simp add: run_next_def split: list.splits)
    show "owner_of (sy_kv s) = None \<or> owner_of (sy_kv s) = st_session st" by (rule own(3))
  qed
qed

theorem lease_exclusive_witness:
  "mx_holds 0 (sy_mutex demo_sys) \<and> \<not> mx_holds 1 (sy_mutex demo_sys)"
proof -
  have "mx_locks (sy_mutex demo_sys) = [False]"
    by (simp add: demo_sys_def arrive_request_def demo_request_def init_system_def new_coordinator_def
        mx_acquire_def new_mutex_def)
  then have "mx_holds 0 (sy_mutex demo_sys)"
    by (simp add: mx_holds_def mx_granted_def mx_released_def)
  then show ?thesis using lease_exclusive [OF demo_sys_reach demo_env_ok] by (metis zero_neq_one)
qed

text \<open>C7: No deadlock. From every reachable state, ending the open stream and serving the head of
  the queue as many times as there are waiting jobs empties the queue and frees the lease.\<close>

theorem queue_drains:
  assumes "kv_reach env s" "env_ok env"
  defines "s' \<equiv> drain env (length (sy_jobs s)) s"
  shows "sy_jobs s' = [] \<and> sy_stream s' = None \<and> \<not> mx_held (sy_mutex s') \<and> kv_reach env s'"
proof -
  have "sy_jobs s' = [] \<and> sy_stream s' = None"
    unfolding s'_def by (rule drain_jobs [OF assms(2) reach_sys_inv [OF assms(1,2)] refl])
  moreover have r: "kv_reach env s'" unfolding s'_def by (rule drain_reach [OF assms(1)])
  ultimately show ?thesis using idle_lease [OF reach_sys_inv [OF r assms(2)]] by simp
qed

theorem queue_drains_witness:
  "length (sy_jobs demo_sys) = 1 \<and> sy_jobs (drain demo_env 1 demo_sys) = []"
proof -
  have n: "length (sy_jobs demo_sys) = 1"
    by (simp add: demo_sys_def arrive_request_def demo_request_def init_system_def new_coordinator_def)
  then show ?thesis using queue_drains [OF demo_sys_reach demo_env_ok, unfolded n] by blast
qed

text \<open>Explicit invalidation holds. After \<open>invalidate\<close> returned normally, no manifest of the
  session loads in the ready state any more, no identity is answered with one of them, and the
  session does not own the slot.\<close>

theorem invalidate_holds:
  assumes "env_ok env" "kv_inv env k" "invalidate_body env i reason k = (Inr (), k')"
  shows "owner_of k' \<noteq> Some i \<and>
    (\<forall>ident m. repo_load (env_platform env) ident (kv_repo k') = Inr (Some m) \<and> m_sessionId m = i
       \<longrightarrow> m_state m = Invalid) \<and>
    (\<forall>ident wc m fs. repo_findCompatible (env_platform env) ident wc (kv_repo k') = (Inr (Some m), fs)
       \<longrightarrow> m_sessionId m \<noteq> i)"
proof -
  define k2 where "k2 = (let s1 = set_lifecycle i LInvalid k
    in if owner_of s1 = Some i then releaseOwner (eraseSlotBestEffort env s1) else s1)"
  have k2: "kv_inv env k2" "owner_of k2 \<noteq> Some i"
    unfolding k2_def Let_def using assms by (auto simp: frame_simps intro!: inv_intros)
  obtain r fs where inv: "repo_invalidateSession (env_platform env) i reason (fst (iso env k2)) (kv_repo k2) = (r, fs)"
    by force
  have body: "invalidate_body env i reason k =
      (case r of Inl e \<Rightarrow> (Inl e, (snd (iso env k2))\<lparr>kv_repo := fs\<rparr>)
       | Inr _ \<Rightarrow> (Inr (), (snd (iso env k2))\<lparr>kv_repo := fs\<rparr>))"
  proof -
    have "invalidate_body env i reason k = (let (ts, s3) = iso env k2 in
        case repo_invalidateSession (env_platform env) i reason ts (kv_repo s3) of
          (Inl e, fs) \<Rightarrow> (Inl e, s3\<lparr>kv_repo := fs\<rparr>) | (Inr _, fs) \<Rightarrow> (Inr (), s3\<lparr>kv_repo := fs\<rparr>))"
      unfolding invalidate_body_def k2_def Let_def by (rule refl)
    then show ?thesis using inv by (simp add: split_beta iso_fields split: sum.splits)
  qed
  obtain n where r: "r = Inr n" and k': "k' = (snd (iso env k2))\<lparr>kv_repo := fs\<rparr>"
    using assms(3) unfolding body by (auto split: sum.splits)
  have rok: "repo_ok (env_platform env) (kv_repo k2)" using k2(1) by (simp add: kv_inv_def kv_core_def)
  note gone = invalidateSession_load [OF rok env_ok_iso [OF assms(1)] inv [unfolded r]]
  have 2: "m_state m = Invalid"
    if "repo_load (env_platform env) ident (kv_repo k') = Inr (Some m)" "m_sessionId m = i" for ident m
    using gone [of ident m] that k' by simp
  moreover have "m_sessionId m \<noteq> i"
    if "repo_findCompatible (env_platform env) ident wc (kv_repo k') = (Inr (Some m), fs')" for ident wc m fs'
    using findCompatible_Some [OF that] 2 [of ident m] by auto
  ultimately show ?thesis using k2(2) k' by auto
qed

theorem invalidate_holds_witness:
  "\<exists>k'. invalidate_body demo_env ''a'' EXPLICIT demo3 = (Inr (), k') \<and> owner_of k' \<noteq> Some ''a''"
proof -
  have "fst (invalidate_body demo_env ''a'' EXPLICIT demo3) = Inr ()" by code_simp
  then obtain k' where b: "invalidate_body demo_env ''a'' EXPLICIT demo3 = (Inr (), k')"
    by (metis prod.collapse)
  then show ?thesis using invalidate_holds [OF demo_env_ok demo_inv(4) b] by blast
qed

text \<open>A purge forgets the session: afterwards it is unknown, does not own the slot and no
  manifest of it can be loaded under any identity.\<close>

theorem purge_forgets:
  assumes "kv_inv env k" "purge_body env i k = (Inr (), k')"
  shows "kv_sessions k' i = None \<and> owner_of k' \<noteq> Some i \<and>
    (\<forall>ident m. repo_load (env_platform env) ident (kv_repo k') = Inr (Some m) \<longrightarrow> m_sessionId m \<noteq> i)"
proof -
  define k1 where "k1 = (if owner_of k = Some i then releaseOwner (eraseSlotBestEffort env k) else k)"
  have k1: "owner_of k1 \<noteq> Some i" "kv_repo k1 = kv_repo k" unfolding k1_def by (simp_all add: frame_simps)
  obtain r fs where rm: "repo_removeSession (env_platform env) i (kv_repo k1) = (r, fs)" by force
  then obtain n where n: "r = Inr n" and k': "k' = forget_session i (k1\<lparr>kv_repo := fs\<rparr>)"
    using assms(2) unfolding purge_body_def k1_def [symmetric] Let_def by (cases r) auto
  have "repo_ok (env_platform env) (kv_repo k1)" using assms(1) k1 by (simp add: kv_inv_def kv_core_def)
  note gone = removeSession_load [OF this rm [unfolded n]]
  then show ?thesis using k1 k' by (auto simp: frame_simps)
qed

theorem purge_forgets_witness:
  "\<exists>k'. purge_body demo_env ''a'' demo3 = (Inr (), k') \<and> kv_sessions k' ''a'' = None"
proof -
  have "fst (purge_body demo_env ''a'' demo3) = Inr ()" by code_simp
  then obtain k' where b: "purge_body demo_env ''a'' demo3 = (Inr (), k')" by (metis prod.collapse)
  then show ?thesis using purge_forgets [OF demo_inv(4) b] by blast
qed

text \<open>A checkpoint of the last owner at shutdown is not lost: when shutdown checkpoints are on,
  the circuit lets calls through and the slot's owner has unsaved state, the shutdown flush
  makes exactly one save call of that owner, and the owner is clean afterwards or the failure
  is counted with the session still dirty.\<close>

theorem shutdown_flush_saves:
  assumes "env_ok env" "kv_inv env k" "owner_of k = Some ow" "kv_sessions k ow = Some r" "isDirty r"
    and "c_onShutdown (env_cfg env)" "\<not> fst (circuit_open env k)"
    and "identityFor env ow (sn_route r) = Inr ident"
    and "flushOwned_body env TShutdown k = (x, k')"
  shows "x = Inr () \<and> kv_calls k' = kv_calls k @ [CSave (sl_id (kv_slot k)) (file_of env ident)] \<and>
    (\<exists>r'. kv_sessions k' ow = Some r' \<and> sn_dirtyRevision r' = sn_dirtyRevision r \<and>
       (isDirty r' \<longrightarrow> kv_repo k' = kv_repo k \<and>
          br_failures (kv_breaker k') = Suc (br_failures (kv_breaker k))))"
proof -
  let ?k = "snd (circuit_open env k)"
  have inv: "kv_inv env ?k" using assms(2) by (intro inv_intros)
  obtain y k1 where save: "saveOwnedSession env ow ?k = (y, k1)" by force
  have same: "kv_sessions ?k = kv_sessions k" "owner_of ?k = owner_of k" "kv_calls ?k = kv_calls k"
      "kv_repo ?k = kv_repo k" "kv_breaker ?k = kv_breaker k" "kv_slot ?k = kv_slot k"
    by (simp_all add: frame_simps)
  obtain res where y: "y = Inr res" and eff: "saved_effect env ow ?k k1 \<or> failed_effect env ow ?k k1"
    using saveOwned_starts [OF assms(1) inv _ assms(5) _ assms(8) save] assms(3,4) same by auto
  have "shouldCheckpoint (env_cfg env) (kv_sessions k ow) TShutdown"
    using assms by (simp add: shouldCheckpoint_def)
  then have "x = Inr () \<and> k' = k1"
    using assms(3,7,9) save y by (simp add: flushOwned_body_def Let_def split_beta)
  then show ?thesis
    using eff assms(4,8) unfolding saved_effect_def failed_effect_def same by auto
qed

theorem shutdown_flush_saves_witness:
  "\<exists>k' f. flushOwned_body demo_env TShutdown demo3 = (Inr (), k') \<and>
     kv_calls k' = [CErase 0, CSave 0 f]"
proof -
  obtain r ident res k1 where d: "kv_sessions demo3 ''a'' = Some r" "isDirty r"
    "identityFor demo_env ''a'' (sn_route r) = Inr ident"
    by (rule demo_save)
  have "\<not> fst (circuit_open demo_env demo3)" by code_simp
  moreover have "c_onShutdown (env_cfg demo_env)" by (simp add: demo_env_def demo_cfg_def kv_defaults_def)
  moreover obtain x k' where b: "flushOwned_body demo_env TShutdown demo3 = (x, k')" by force
  ultimately have "x = Inr () \<and>
      kv_calls k' = kv_calls demo3 @ [CSave (sl_id (kv_slot demo3)) (file_of demo_env ident)]"
    using shutdown_flush_saves [OF demo_env_ok demo_inv(4) demo3_owner(1) d(1,2) _ _ d(3) b] by blast
  then show ?thesis using b demo3_owner by auto
qed

text \<open>C9: Disposal is final and ordered. After \<open>dispose\<close> the shutdown flush is queued behind
  exactly the work that was already waiting, and in every later state new requests are
  refused unchanged, a request that was still waiting is refused when its turn comes, and no
  checkpoint is accepted.\<close>

theorem disposal_is_final:
  assumes "kv_steps env (dispose env s) s'"
  shows "(c_onShutdown (env_cfg env) \<longrightarrow>
      sy_jobs (dispose env s) = sy_jobs s @ [(length (mx_locks (sy_mutex s)), JFlush TShutdown)]) \<and>
    (\<forall>req. arrive_request req s' = (Inl (KvError KV_COORDINATOR_DISPOSED ''request''), s')) \<and>
    (\<forall>i rt. run_body env (JRequest i rt) (sy_kv s') =
       (Inl (KvError KV_COORDINATOR_DISPOSED ''request''), sy_kv s')) \<and>
    run_body env JAuxiliary (sy_kv s') = (Inl (KvError KV_COORDINATOR_DISPOSED ''request''), sy_kv s') \<and>
    (\<forall>i trigger. arrive_checkpoint i trigger s' = s')"
proof -
  have "kv_disposed (sy_kv (dispose env s))"
    by (simp add: dispose_def Let_def misc_fields)
  then have d: "kv_disposed (sy_kv s')" by (rule kv_steps_disposed [OF assms])
  have "c_onShutdown (env_cfg env) \<longrightarrow>
      sy_jobs (dispose env s) = sy_jobs s @ [(length (mx_locks (sy_mutex s)), JFlush TShutdown)]"
    by (simp add: dispose_def Let_def mx_acquire_def)
  then show ?thesis
    using d by (simp add: disposed_body_refuses arrive_request_def arrive_checkpoint_def)
qed

theorem disposal_is_final_witness:
  "arrive_request demo_request (dispose demo_env demo_sys) =
     (Inl (KvError KV_COORDINATOR_DISPOSED ''request''), dispose demo_env demo_sys)"
  using disposal_is_final [OF kv_steps.same [of demo_env "dispose demo_env demo_sys"]] by blast

subsection \<open>Configuration, identities, manifests\<close>

text \<open>Every accepted configuration is within its documented bounds: the only backend and mode
  built, timeouts and limits at least one, slot and idle delay non-negative, providers, keys
  and paths never empty strings, the base URL without a trailing slash.\<close>

theorem config_bounds:
  assumes "resolveKvPersistConfig input = Inr cfg"
  shows "c_backendType cfg = ''llama.cpp'' \<and> c_mode cfg = ''single-slot'' \<and>
    c_logLevel cfg \<in> {''debug'', ''info'', ''off''} \<and>
    1 \<le> c_requestTimeoutMs cfg \<and> 0 \<le> c_slotId cfg \<and> 0 \<le> c_idleMs cfg \<and>
    1 \<le> c_shutdownGraceMs cfg \<and> 1 \<le> c_maxConsecutiveFailures cfg \<and> 1 \<le> c_cooldownMs cfg \<and>
    [] \<notin> set (c_providers cfg) \<and> c_apiKey cfg \<noteq> Some [] \<and> c_runtimeKey cfg \<noteq> Some [] \<and>
    c_metadataPath cfg \<noteq> Some [] \<and> (c_baseURL cfg = [] \<or> last (c_baseURL cfg) \<noteq> CHR ''/'')"
  using resolve_config_ok [OF assms] unfolding config_ok_def .

definition demo_raw :: raw_config where
  "demo_raw = \<lparr>rc_enabled = None, rc_backend = None, rc_providers = Some [''llama'', ''''], rc_mode = None,
     rc_slotId = None, rc_runtimeKey = None, rc_checkpoint = None, rc_restore = None, rc_failure = None,
     rc_metadataPath = None, rc_loggingLevel = None\<rparr>"

theorem config_bounds_witness:
  "\<exists>cfg. resolveKvPersistConfig demo_raw = Inr cfg \<and> [] \<notin> set (c_providers cfg)"
proof -
  have "(case resolveKvPersistConfig demo_raw of Inr _ \<Rightarrow> True | Inl _ \<Rightarrow> False)" by code_simp
  then obtain cfg where c: "resolveKvPersistConfig demo_raw = Inr cfg" by (auto split: sum.splits)
  then show ?thesis using config_bounds [OF c] by blast
qed

text \<open>Two sessions never share a snapshot file: as long as the digests of the two identity
  texts do not collide, equal file names mean the same server, provider, model and session.\<close>

theorem snapshot_name_identifies:
  assumes "nul_free a" "nul_free b"
    and "sha256Hex pf (identity_text a) = sha256Hex pf (identity_text b) \<Longrightarrow> identity_text a = identity_text b"
    and "snapshotFilename pf a = snapshotFilename pf b"
  shows "si_serverInstanceKey a = si_serverInstanceKey b \<and> si_provider a = si_provider b \<and>
    si_model a = si_model b \<and> si_sessionId a = si_sessionId b"
  by (rule identity_text_inj [OF _ assms(1,2)], rule assms(3))
    (use assms(4) in \<open>simp add: snapshotFilename_def Let_def\<close>)

definition demo_ident :: "string \<Rightarrow> snapshot_identity" where
  "demo_ident i = \<lparr>si_sessionId = i, si_provider = ''llama'', si_model = ''m'', si_backend = ''llama.cpp'',
     si_serverInstanceKey = ''llama-0'', si_compatibilityVersion = ''v''\<rparr>"

theorem snapshot_name_identifies_witness:
  "si_sessionId (demo_ident ''a'') \<noteq> si_sessionId (demo_ident ''bb'') \<and>
   snapshotFilename demo_platform (demo_ident ''a'') \<noteq> snapshotFilename demo_platform (demo_ident ''bb'')"
proof -
  have nf: "nul_free (demo_ident ''a'')" "nul_free (demo_ident ''bb'')" by code_simp+
  have ne: "sha256Hex demo_platform (identity_text (demo_ident ''a'')) \<noteq>
      sha256Hex demo_platform (identity_text (demo_ident ''bb''))" by code_simp
  have d: "si_sessionId (demo_ident ''a'') \<noteq> si_sessionId (demo_ident ''bb'')" by code_simp
  then show ?thesis
    using snapshot_name_identifies [OF nf, of demo_platform] ne by blast
qed

text \<open>A snapshot file name is 64 lower-case hex digits and \<open>.bin\<close>: it passes the guard in
  front of every server call and cannot name another directory.\<close>

theorem snapshot_name_safe:
  assumes "sha_shape pf"
  shows "assertPluginGeneratedFilename (snapshotFilename pf ident) = Inr () \<and>
    length (snapshotFilename pf ident) = 68 \<and> CHR ''/'' \<notin> set (snapshotFilename pf ident) \<and>
    CHR 0x5C \<notin> set (snapshotFilename pf ident)"
  using assert_snapshotFilename [OF assms, of ident] snapshotFilename_plugin [OF assms, of ident]
    plugin_filename_safe [OF snapshotFilename_plugin [OF assms, of ident]]
  by (simp add: plugin_filename_def)

theorem snapshot_name_safe_witness: "length (snapshotFilename demo_platform (demo_ident ''a'')) = 68"
proof -
  have "sha_shape demo_platform" using env_ok_sha [OF demo_env_ok] by (simp add: demo_env_def)
  then show ?thesis using snapshot_name_safe by blast
qed

text \<open>C11: A manifest written to disk reads back as itself.\<close>

theorem manifest_round_trip:
  assumes "manifest_ok pf m"
  shows "parseManifest pf (manifest_json m) = Inr m"
  by (rule parse_manifest_json [OF assms])

theorem manifest_round_trip_witness:
  "parseManifest demo_platform (manifest_json (createManifest (demo_ident ''a'') (num_of 0) ''f'' None ''t''))
     = Inr (createManifest (demo_ident ''a'') (num_of 0) ''f'' None ''t'')"
  by (rule manifest_round_trip)
    (simp add: manifest_ok_def createManifest_def demo_ident_def demo_platform_def opt_nonneg_def)

text \<open>The snapshot store is atomic and remembers. A put that fails leaves every file as it
  was; a put that succeeds makes exactly the returned manifest load under that identity, ready
  and under its snapshot name, and changes no identity with another place.\<close>

theorem put_atomic:
  assumes "repo_ok pf fs" "put_ok pf input" "repo_put pf input fs = (r, fs')"
  shows "case r of Inl e \<Rightarrow> fs' = fs
    | Inr m \<Rightarrow> repo_load pf (pi_identity input) fs' = Inr (Some m) \<and> m_state m = Ready \<and>
        m_snapshotFilename m = snapshotFilename pf (pi_identity input) \<and>
        (\<forall>i. manifestPath pf i \<noteq> manifestPath pf (pi_identity input) \<longrightarrow> repo_load pf i fs' = repo_load pf i fs)"
proof (cases r)
  case (Inl e)
  then show ?thesis using assms(3) by (auto elim: repo_put_cases)
next
  case (Inr m)
  have put: "repo_put pf input fs = (Inr m, fs')" using assms(3) Inr by simp
  then obtain existing u where ex: "repo_load pf (pi_identity input) fs = Inr existing"
      "m = put_manifest pf input existing" "repo_write pf m fs = (Inr u, fs')"
    by (auto elim: repo_put_cases)
  have "manifestPath pf (pi_identity input) = manifestPath pf (manifest_identity m)"
    using put_entry_ok [OF assms(1,2) ex(1)] ex(2) by (simp add: entry_ok_def)
  then show ?thesis
    using repo_put_load [OF assms(1,2) put] repo_write_elsewhere [OF ex(3)] Inr by auto
qed

definition demo_put :: put_input where
  "demo_put = \<lparr>pi_identity = demo_ident ''a'', pi_slotId = num_of 0, pi_sessionSeq = None,
     pi_tokens = None, pi_bytes = Some 5, pi_now = ''t''\<rparr>"

theorem put_atomic_witness:
  "\<exists>m fs'. repo_put demo_platform demo_put demo_fs = (Inr m, fs') \<and>
     repo_load demo_platform (demo_ident ''a'') fs' = Inr (Some m)"
proof -
  obtain r fs' where put: "repo_put demo_platform demo_put demo_fs = (r, fs')" by force
  have "put_ok demo_platform demo_put"
    by (simp add: put_ok_def demo_put_def demo_ident_def demo_platform_def opt_nonneg_def)
  moreover have "repo_ok demo_platform demo_fs" by (simp add: repo_ok_def demo_fs_def)
  moreover have "\<exists>m. r = Inr m"
    using put by (auto simp: repo_put_def repo_load_def repo_write_def Let_def demo_fs_def)
  ultimately show ?thesis
    using put_atomic [OF _ _ put] put by (auto simp: demo_put_def)
qed

text \<open>C10: The compatibility gate. A manifest is answered only for the server, provider, model and
  compatibility version it was made for, only when ready, and answering changes no file.\<close>

theorem find_compatible_gate:
  assumes "repo_findCompatible pf ident wc fs = (Inr (Some m), fs')"
  shows "fs' = fs \<and> m_state m = Ready \<and> m_serverInstanceKey m = si_serverInstanceKey ident \<and>
    m_provider m = si_provider ident \<and> m_model m = si_model ident \<and>
    m_compatibilityVersion m = si_compatibilityVersion ident"
  using findCompatible_Some [OF assms] by simp

theorem find_compatible_gate_witness:
  "\<exists>m fs'. repo_findCompatible demo_platform (demo_ident ''a'') ''t''
      (snd (repo_put demo_platform demo_put demo_fs)) = (Inr (Some m), fs') \<and> m_state m = Ready"
proof -
  obtain m fs1 where put: "repo_put demo_platform demo_put demo_fs = (Inr m, fs1)"
    by (auto simp: repo_put_def repo_load_def repo_write_def Let_def demo_fs_def)
  have ok: "put_ok demo_platform demo_put" "repo_ok demo_platform demo_fs"
    by (simp_all add: put_ok_def demo_put_def demo_ident_def demo_platform_def opt_nonneg_def
        repo_ok_def demo_fs_def)
  have "stored_manifest demo_platform (demo_ident ''a'') demo_fs fs1"
    by (rule put_stored_manifest [OF ok(2,1) put]) (simp add: demo_put_def)
  then obtain m1 where "repo_load demo_platform (demo_ident ''a'') fs1 = Inr (Some m1)" "m_state m1 = Ready"
      "m_compatibilityVersion m1 = si_compatibilityVersion (demo_ident ''a'')"
      "m_serverInstanceKey m1 = si_serverInstanceKey (demo_ident ''a'')" "same_route (demo_ident ''a'') m1"
    unfolding stored_manifest_def by (auto simp: repo_load_def Let_def demo_fs_def)
  then have "repo_findCompatible demo_platform (demo_ident ''a'') ''t'' (snd (repo_put demo_platform demo_put demo_fs))
      = (Inr (Some m1), fs1)"
    using put by (simp add: repo_findCompatible_def same_route_def)
  then show ?thesis using find_compatible_gate by blast
qed

text \<open>The circuit opens exactly on a streak. After any history of outcomes that ends with a
  failure at time \<open>t\<close>, the circuit of a fresh breaker blocks at \<open>tm\<close> exactly when at least the
  configured number of failures came since the last success and the cooldown has not passed.\<close>

theorem circuit_opens_on_streak:
  "br_isOpen tm (breaker.run (es @ [Failure t]) (new_breaker limit cool)) \<longleftrightarrow>
     limit \<le> int (Suc (breaker.trailing es 0)) \<and> tm < t + cool"
  using breaker.blocks_after_failure [of "new_breaker limit cool" tm es t]
  by (simp add: new_breaker_def)

text \<open>A restore is trusted only when the server's answer is well formed: status 200, an object
  body that does not deny success, and a token count that is absent or a non-negative safe
  integer. Anything else is an error, never a restore of zero tokens.\<close>

theorem client_restore_valid:
  assumes "client_restoreSlot http opts k f w = (Inr n, w')"
  shows "\<exists>req reply. http req w = (Some reply, w') \<and> rq_method req = POST \<and>
    rq_path req = SlotActionPath k ''restore'' \<and> rq_body req = Some (JObj [(''filepath'', JStr f)]) \<and>
    hr_status reply = 200 \<and> isRecord (hr_body reply) \<and>
    bget (hr_body reply) ''success'' \<in> {None, Some (JBool True)} \<and>
    (case n of None \<Rightarrow> raw_count (hr_body reply) = None
     | Some c \<Rightarrow> 0 \<le> c \<and> c \<le> 9007199254740991)"
proof -
  let ?req = "\<lparr>rq_method = POST, rq_path = SlotActionPath k ''restore'',
    rq_body = Some (JObj [(''filepath'', JStr f)]),
    rq_auth = map_option (\<lambda>key. ''Bearer '' @ key) (co_apiKey opts)\<rparr>"
  obtain x w1 where h: "http ?req w = (x, w1)" by force
  then obtain reply where x: "x = Some reply"
    using assms by (cases x) (simp_all add: client_restoreSlot_def client_request_def)
  let ?p = "hr_body reply"
  have body: "(if hr_status reply \<noteq> 200 \<or> \<not> isRecord ?p then (Inl (KvError KV_RESTORE_FAILED f), w1)
      else if bget ?p ''success'' \<noteq> None \<and> bget ?p ''success'' \<noteq> Some (JBool True)
        then (Inl (KvError KV_RESTORE_FAILED f), w1)
      else if raw_count ?p \<noteq> None \<and> optionalCount (raw_count ?p) = None
        then (Inl (KvError KV_RESTORE_FAILED f), w1)
      else (Inr (optionalCount (raw_count ?p)), w1)) = (Inr n, w')"
    using assms h x unfolding client_restoreSlot_def client_request_def Let_def by simp
  have c: "hr_status reply = 200" "isRecord ?p"
      "bget ?p ''success'' = None \<or> bget ?p ''success'' = Some (JBool True)"
      "raw_count ?p = None \<or> optionalCount (raw_count ?p) \<noteq> None"
      "n = optionalCount (raw_count ?p)" and w: "w1 = w'"
    using body by (simp_all only: prod.inject sum.inject sum.distinct split: if_split_asm) simp_all
  have reply: "http ?req w = (Some reply, w')" using h x w by simp
  have "case n of None \<Rightarrow> raw_count (hr_body reply) = None | Some c \<Rightarrow> 0 \<le> c \<and> c \<le> 9007199254740991"
    using c(4,5) optionalCount_nonneg [of "raw_count (hr_body reply)"] by (auto split: option.splits)
  then show ?thesis
    using reply c by (intro exI [of _ ?req] exI [of _ reply]) auto
qed

definition demo_http :: "int http" where
  "demo_http req w = (Some \<lparr>hr_status = 200, hr_body = Some (JObj [(''n_restored'', JNum (num_of 12))])\<rparr>, w)"

theorem client_restore_valid_witness:
  "client_restoreSlot demo_http \<lparr>co_baseURL = ''u'', co_apiKey = None\<rparr> 0 ''f'' 0 = (Inr (Some 12), 0) \<and>
   (0::int) \<le> 12 \<and> (12::int) \<le> 9007199254740991"
proof -
  have r: "client_restoreSlot demo_http \<lparr>co_baseURL = ''u'', co_apiKey = None\<rparr> 0 ''f'' 0 = (Inr (Some 12), 0)"
    by (simp add: client_restoreSlot_def client_request_def demo_http_def raw_count_def bget_def Let_def)
  show ?thesis using client_restore_valid [OF r] r by auto
qed

end
