(* ===== verification/SafetyPolicy.thy ===== *)
theory SafetyPolicy
  imports Json
begin

text \<open>
  Decisions of the model safety gate (\<open>plugins/dsh-model-safety-gate/src\<close>): the decision
  order and verdicts (\<open>types.ts\<close>), the monotonic merge and the gate modes
  (\<open>rules/policy.ts\<close>), the validation of a classifier's answer (\<open>classifier/schema.ts\<close>),
  the classifier call and its failure modes (\<open>classifier/service.ts\<close>) and the check pipeline
  every guard goes through (\<open>pipeline.ts\<close>, less its audit records and counters). The scanner's
  rules, \<open>JSON.parse\<close> and the classifier's transport are arguments.
\<close>

subsection \<open>Decisions\<close>

datatype decision = Allow | Warn | Review | Block

fun decision_order :: "decision \<Rightarrow> nat" where
  "decision_order Allow = 0"
| "decision_order Warn = 1"
| "decision_order Review = 2"
| "decision_order Block = 3"

text \<open>The escalation order, as the library's linear order.\<close>

instantiation decision :: linorder
begin

definition less_eq_decision :: "decision \<Rightarrow> decision \<Rightarrow> bool" where
  "less_eq_decision a b \<longleftrightarrow> decision_order a \<le> decision_order b"

definition less_decision :: "decision \<Rightarrow> decision \<Rightarrow> bool" where
  "less_decision a b \<longleftrightarrow> decision_order a < decision_order b"

instance
proof
  fix a b :: decision
  assume "a \<le> b" "b \<le> a"
  then show "a = b" by (cases a; cases b) (simp_all add: less_eq_decision_def)
qed (auto simp: less_eq_decision_def less_decision_def)

end

datatype gate_mode = GateOff | GateAudit | GateWarn | GateEnforce

definition mergeDecisions :: "decision list \<Rightarrow> decision" where
  "mergeDecisions ds =
     fold (\<lambda>d merged. if decision_order d > decision_order merged then d else merged) ds Allow"

definition applyGateMode :: "decision \<Rightarrow> gate_mode \<Rightarrow> decision" where
  "applyGateMode d mode =
     (if mode = GateOff \<or> mode = GateAudit then Allow
      else if mode = GateWarn \<and> d = Block then Warn
      else d)"

subsection \<open>Verdicts\<close>

record verdict =
  vd_decision :: decision
  vd_confidence :: rat
  vd_categories :: "string list"
  vd_summary :: string
  vd_ruleIds :: "string list option"

record finding =
  fd_ruleId :: string
  fd_category :: string
  fd_severity :: decision
  fd_confidence :: rat

record scan_result =
  sc_findings :: "finding list"
  sc_decision :: decision
  sc_categories :: "string list"

text \<open>\<open>[...new Set(xs)]\<close>: the first occurrence of each element, in order.\<close>

fun js_unique :: "'a list \<Rightarrow> 'a list" where
  "js_unique [] = []"
| "js_unique (x # xs) = x # js_unique (filter (\<lambda>y. y \<noteq> x) xs)"

text \<open>\<open>Math.max(...xs)\<close> of a non-empty list.\<close>

fun rat_max :: "rat list \<Rightarrow> rat" where
  "rat_max [] = 0"
| "rat_max [x] = x"
| "rat_max (x # y # ys) = max x (rat_max (y # ys))"

definition emptyVerdict :: "decision \<Rightarrow> verdict" where
  "emptyVerdict d = \<lparr>vd_decision = d, vd_confidence = 1, vd_categories = [], vd_summary = '''',
     vd_ruleIds = None\<rparr>"

definition l0_verdict :: "scan_result \<Rightarrow> verdict" where
  "l0_verdict l0 =
     \<lparr>vd_decision = sc_decision l0,
      vd_confidence = (if sc_findings l0 \<noteq> [] then rat_max (map fd_confidence (sc_findings l0)) else 1),
      vd_categories = sc_categories l0,
      vd_summary = join_with '','' (map fd_ruleId (sc_findings l0)),
      vd_ruleIds = Some (map fd_ruleId (sc_findings l0))\<rparr>"

text \<open>The index of the first source with the merged decision (\<open>sources.find\<close>).\<close>

definition winning_index :: "decision \<Rightarrow> verdict list \<Rightarrow> nat option" where
  "winning_index d sources =
     (case filter (\<lambda>p. vd_decision (snd p) = d) (enumerate 0 sources) of
        [] \<Rightarrow> None | (i, _) # _ \<Rightarrow> Some i)"

record merged_verdict =
  mv_verdict :: verdict
  mv_l0Decision :: decision

definition mergeL0L1 :: "scan_result \<Rightarrow> verdict option \<Rightarrow> decision option \<Rightarrow> merged_verdict" where
  "mergeL0L1 l0 l1 l1Failure =
     (let sources = l0_verdict l0 # (case l1 of None \<Rightarrow> [] | Some v \<Rightarrow> [v])
            @ (case l1Failure of None \<Rightarrow> [] | Some d \<Rightarrow> [emptyVerdict d]);
          d = mergeDecisions (map vd_decision sources);
          categories = js_unique (concat (map vd_categories sources));
          ruleIds = js_unique (concat (map (\<lambda>s. case vd_ruleIds s of None \<Rightarrow> [] | Some ids \<Rightarrow> ids) sources));
          winning = winning_index d sources;
          same = filter (\<lambda>s. vd_decision s = d) sources;
          confidence = (if same \<noteq> [] then rat_max (map vd_confidence same) else 1);
          summaries = filter (\<lambda>s. length s > 0) (map (\<lambda>p. vd_summary (snd p))
            (filter (\<lambda>p. vd_decision (snd p) \<noteq> Allow \<or> Some (fst p) = winning) (enumerate 0 sources)))
      in \<lparr>mv_verdict = \<lparr>vd_decision = d,
            vd_confidence = (if d = Allow then 1 else confidence),
            vd_categories = categories,
            vd_summary = join_with ''; '' summaries,
            vd_ruleIds = (if ruleIds \<noteq> [] then Some ruleIds else None)\<rparr>,
          mv_l0Decision = sc_decision l0\<rparr>)"

definition quality_categories :: "string list" where
  "quality_categories =
     [''unclear'', ''underspecified'', ''spam'', ''irrelevant'', ''low_information'', ''likely_accidental'']"

definition safety_categories :: "string list" where
  "safety_categories =
     [''prompt_injection'', ''jailbreak'', ''credential_exfiltration'', ''secret_leak'',
      ''destructive_intent'', ''unsafe_tool_intent'', ''policy_violation'',
      ''malicious_instruction'', ''unknown_high_risk'']"

definition isSafetyCategory :: "string \<Rightarrow> bool" where
  "isSafetyCategory c \<longleftrightarrow> c \<notin> set quality_categories"

definition decisionForCategories :: "verdict \<Rightarrow> decision \<Rightarrow> decision \<Rightarrow> decision" where
  "decisionForCategories v safety quality =
     (let cs = vd_categories v;
          hasSafety = list_ex isSafetyCategory cs;
          hasQuality = list_ex (\<lambda>c. c \<in> set quality_categories) cs
      in if hasSafety then mergeDecisions [vd_decision v, safety]
         else if hasQuality then mergeDecisions [vd_decision v, quality]
         else vd_decision v)"

subsection \<open>The classifier's answer\<close>

datatype safety_error =
    SAFETY_INVALID_ARGUMENT | SAFETY_INPUT_BLOCKED | SAFETY_OUTPUT_BLOCKED
  | SAFETY_REASONING_BLOCKED | SAFETY_TOOL_BLOCKED | SAFETY_CLASSIFIER_TIMEOUT
  | SAFETY_CLASSIFIER_INVALID_RESPONSE | SAFETY_CLASSIFIER_UNAVAILABLE | SAFETY_BUFFER_OVERFLOW

fun decision_of_text :: "string \<Rightarrow> decision option" where
  "decision_of_text s =
     (if s = ''allow'' then Some Allow else if s = ''warn'' then Some Warn
      else if s = ''review'' then Some Review else if s = ''block'' then Some Block else None)"

text \<open>An array of strings, as its items.\<close>

fun all_strings :: "json list \<Rightarrow> string list option" where
  "all_strings [] = Some []"
| "all_strings (JStr s # js) = map_option (\<lambda>r. s # r) (all_strings js)"
| "all_strings (_ # js) = None"

fun json_strings :: "json option \<Rightarrow> string list option" where
  "json_strings (Some (JArr js)) = all_strings js"
| "json_strings _ = None"

definition validateVerdict :: "json \<Rightarrow> nat \<Rightarrow> safety_error + verdict" where
  "validateVerdict payload maxSummaryChars =
     (let bad = Inl SAFETY_CLASSIFIER_INVALID_RESPONSE in
      if \<not> (case payload of JObj _ \<Rightarrow> True | _ \<Rightarrow> False) then bad
      else case (case jget payload ''decision'' of Some (JStr s) \<Rightarrow> decision_of_text s | _ \<Rightarrow> None) of
        None \<Rightarrow> bad
      | Some d \<Rightarrow>
        (case jget payload ''confidence'' of
           Some (JNum (Fin c)) \<Rightarrow>
             if c < 0 \<or> c > 1 then bad
             else (case json_strings (jget payload ''categories'') of
               None \<Rightarrow> bad
             | Some cats \<Rightarrow>
                 if length cats > 16 \<or> list_ex (\<lambda>c. c \<notin> set (safety_categories @ quality_categories)) cats
                 then bad
                 else (case jget payload ''summary'' of
                   Some (JStr summary) \<Rightarrow>
                     if length summary > maxSummaryChars then bad
                     else (case jget payload ''policyRuleIds'' of
                       None \<Rightarrow> Inr \<lparr>vd_decision = d, vd_confidence = c, vd_categories = cats,
                                  vd_summary = summary, vd_ruleIds = None\<rparr>
                     | Some ids \<Rightarrow>
                         (case json_strings (Some ids) of
                            None \<Rightarrow> bad
                          | Some xs \<Rightarrow> Inr \<lparr>vd_decision = d, vd_confidence = c, vd_categories = cats,
                                  vd_summary = summary, vd_ruleIds = Some (take 16 xs)\<rparr>))
                 | _ \<Rightarrow> bad))
         | _ \<Rightarrow> bad))"

text \<open>
  \<open>extractJsonPayload\<close>: the body of the first fence of three back quotes when there is one,
  then from the first opening to the last closing brace. \<open>parse\<close> is \<open>JSON.parse\<close>, with
  \<open>None\<close> where it throws.
\<close>

fun split_fence :: "string \<Rightarrow> (string \<times> string) option" where
  "split_fence [] = None"
| "split_fence (c # cs) =
     (if take 3 (c # cs) = ''```'' then Some ('''', drop 2 cs)
      else (case split_fence cs of None \<Rightarrow> None | Some (a, b) \<Rightarrow> Some (c # a, b)))"

definition fenced_body :: "string \<Rightarrow> string option" where
  "fenced_body s =
     (case split_fence s of
        None \<Rightarrow> None
      | Some (_, rest) \<Rightarrow>
          (let r1 = (if take 4 rest = ''json'' then drop 4 rest else rest)
           in map_option fst (split_fence (dropWhile js_space r1))))"

definition extractJsonPayload :: "(string \<Rightarrow> json option) \<Rightarrow> string \<Rightarrow> safety_error + json" where
  "extractJsonPayload parse tx =
     (let trimmed = js_trim tx;
          candidate = (case fenced_body trimmed of None \<Rightarrow> trimmed | Some b \<Rightarrow> b);
          from_start = dropWhile (\<lambda>c. c \<noteq> CHR ''{'') candidate;
          body = rev (dropWhile (\<lambda>c. c \<noteq> CHR ''}'') (rev from_start))
      in if body = '''' then Inl SAFETY_CLASSIFIER_INVALID_RESPONSE
         else case parse body of
           None \<Rightarrow> Inl SAFETY_CLASSIFIER_INVALID_RESPONSE
         | Some j \<Rightarrow> Inr j)"

datatype failure_mode = FailClosed | FailOpen | RulesOnly | FailAsk

fun failureDecision :: "failure_mode \<Rightarrow> decision option" where
  "failureDecision FailClosed = Some Block"
| "failureDecision FailOpen = Some Allow"
| "failureDecision FailAsk = Some Review"
| "failureDecision RulesOnly = None"

subsection \<open>The pipeline\<close>

datatype content_channel = ChInput | ChText | ChReasoning | ChTool | ChToolResult

datatype classifier_trigger = Always | Suspicious | Never

text \<open>
  A classifier: its failure mode, \<open>JSON.parse\<close>, whether the caller is already inside the
  classifier's own context, and its transport (prompt, request and timer), which answers with
  a text or an error and tells whether the timer had fired.
\<close>

datatype transport_error = TeAbort | TeInvalid | TeOther

record 'w classifier =
  cl_failureMode :: failure_mode
  cl_parse :: "string \<Rightarrow> json option"
  cl_internal :: "'w \<Rightarrow> bool"
  cl_transport :: "content_channel \<Rightarrow> string \<Rightarrow> 'w \<Rightarrow> (transport_error + string) \<times> bool \<times> 'w"

text \<open>\<open>None\<close> as a scan result is a scanner that threw.\<close>

record 'w pipeline =
  pl_scan :: "bool \<Rightarrow> string \<Rightarrow> scan_result option"
  pl_classifier :: "'w classifier option"

definition emptyScan :: scan_result where
  "emptyScan = \<lparr>sc_findings = [], sc_decision = Allow, sc_categories = []\<rparr>"

definition classify :: "'w classifier \<Rightarrow> content_channel \<Rightarrow> string \<Rightarrow> 'w \<Rightarrow> (safety_error + verdict) \<times> 'w" where
  "classify cl ch content w =
     (if cl_internal cl w then (Inl SAFETY_CLASSIFIER_UNAVAILABLE, w)
      else case cl_transport cl ch content w of
        (answer, aborted, w1) \<Rightarrow>
          (let checked =
             (case answer of
                Inl e \<Rightarrow> Inl (if aborted \<or> e = TeAbort then SAFETY_CLASSIFIER_TIMEOUT
                  else if e = TeInvalid then SAFETY_CLASSIFIER_INVALID_RESPONSE
                  else SAFETY_CLASSIFIER_UNAVAILABLE)
              | Inr tx \<Rightarrow>
                  (case (case extractJsonPayload (cl_parse cl) tx of
                           Inl e \<Rightarrow> Inl e | Inr payload \<Rightarrow> validateVerdict payload 500) of
                     Inl e \<Rightarrow> Inl (if aborted then SAFETY_CLASSIFIER_TIMEOUT else e)
                   | Inr v \<Rightarrow> Inr v))
           in (checked, w1)))"

record pipeline_input =
  in_content :: string
  in_channel :: content_channel
  in_trigger :: classifier_trigger
  in_quotedDowngrade :: bool

definition pipeline_run :: "'w pipeline \<Rightarrow> pipeline_input \<Rightarrow> 'w \<Rightarrow> merged_verdict \<times> 'w" where
  "pipeline_run pl inp w =
     (let l0 = (case pl_scan pl (in_quotedDowngrade inp) (in_content inp) of
                  Some r \<Rightarrow> r | None \<Rightarrow> emptyScan);
          wants = (in_trigger inp = Always \<or> (in_trigger inp = Suspicious \<and> sc_decision l0 \<noteq> Allow))
      in case pl_classifier pl of
           None \<Rightarrow> (mergeL0L1 l0 None None, w)
         | Some cl \<Rightarrow>
             if \<not> wants then (mergeL0L1 l0 None None, w)
             else (case classify cl (in_channel inp) (in_content inp) w of
                     (Inl e, w1) \<Rightarrow> (mergeL0L1 l0 None (failureDecision (cl_failureMode cl)), w1)
                   | (Inr v, w1) \<Rightarrow> (mergeL0L1 l0 (Some v) None, w1)))"

subsection \<open>Monotonicity\<close>

lemma mergeDecisions_fold:
  "fold (\<lambda>d merged. if decision_order d > decision_order merged then d else merged) ds m =
   foldr max ds m"
proof -
  have step: "(if decision_order d > decision_order m then d else m) = max d m" for d m :: decision
    by (auto simp: max_def less_eq_decision_def)
  have "fold (\<lambda>d m. if decision_order d > decision_order m then d else m) ds m = fold max ds m"
    by (simp only: step)
  then show ?thesis
    by (simp add: foldr_fold fun_eq_iff max.left_commute)
qed

lemma mergeDecisions_ge: "d \<in> set ds \<Longrightarrow> d \<le> mergeDecisions ds"
proof -
  have "d \<in> set ds \<Longrightarrow> d \<le> foldr max ds m" for m
    by (induction ds) (auto simp: le_max_iff_disj)
  then show "d \<in> set ds \<Longrightarrow> d \<le> mergeDecisions ds"
    by (simp add: mergeDecisions_def mergeDecisions_fold)
qed

lemma mergeDecisions_in: "mergeDecisions ds \<in> insert Allow (set ds)"
proof -
  have "foldr max ds m \<in> insert m (set ds)" for m :: decision
    by (induction ds) (auto simp: max_def)
  then show ?thesis by (simp add: mergeDecisions_def mergeDecisions_fold)
qed

lemma Allow_least [simp]: "Allow \<le> d"
  by (simp add: less_eq_decision_def)

lemma mergeDecisions_Max: "ds \<noteq> [] \<Longrightarrow> mergeDecisions ds = Max (set ds)"
proof -
  assume "ds \<noteq> []"
  then obtain d where d: "d \<in> set ds" by (cases ds) auto
  have "mergeDecisions ds \<in> set ds"
    using mergeDecisions_in [of ds] mergeDecisions_ge [OF d] d order.antisym [of d Allow]
    by (cases "mergeDecisions ds = Allow") auto
  then show ?thesis by (intro Max_eqI [symmetric]) (auto intro: mergeDecisions_ge)
qed

lemma set_js_unique [simp]: "set (js_unique xs) = set xs"
  by (induction xs rule: js_unique.induct) auto

lemma distinct_js_unique [simp]: "distinct (js_unique xs)"
  by (induction xs rule: js_unique.induct) auto

lemma block_top: "Block \<le> d \<longleftrightarrow> d = Block" for d :: decision
  by (cases d) (simp_all add: less_eq_decision_def)

lemma merged_decision:
  "vd_decision (mv_verdict (mergeL0L1 l0 l1 fl)) =
     mergeDecisions (sc_decision l0 # (case l1 of None \<Rightarrow> [] | Some v \<Rightarrow> [vd_decision v])
       @ (case fl of None \<Rightarrow> [] | Some d \<Rightarrow> [d]))"
  by (simp add: mergeL0L1_def Let_def l0_verdict_def emptyVerdict_def split: option.splits)

lemma merged_ge_l0: "sc_decision l0 \<le> vd_decision (mv_verdict (mergeL0L1 l0 l1 fl))"
  unfolding merged_decision by (rule mergeDecisions_ge) simp

lemma validateVerdict_sound:
  assumes "validateVerdict payload n = Inr v"
  shows "0 \<le> vd_confidence v" "vd_confidence v \<le> 1" "length (vd_categories v) \<le> 16"
    "set (vd_categories v) \<subseteq> set (safety_categories @ quality_categories)"
    "length (vd_summary v) \<le> n" "pred_option (\<lambda>ids. length ids \<le> 16) (vd_ruleIds v)"
    "case jget payload ''decision'' of Some (JStr s) \<Rightarrow> decision_of_text s = Some (vd_decision v) | _ \<Rightarrow> False"
proof -
  obtain s c cats sm where f: "jget payload ''decision'' = Some (JStr s)" "decision_of_text s = Some (vd_decision v)"
      "jget payload ''confidence'' = Some (JNum (Fin c))" "0 \<le> c" "c \<le> 1"
      "json_strings (jget payload ''categories'') = Some cats" "length cats \<le> 16"
      "\<not> list_ex (\<lambda>c. c \<notin> set (safety_categories @ quality_categories)) cats"
      "jget payload ''summary'' = Some (JStr sm)" "length sm \<le> n"
      "vd_confidence v = c" "vd_categories v = cats" "vd_summary v = sm"
      "pred_option (\<lambda>ids. length ids \<le> 16) (vd_ruleIds v)"
    using assms
    by (auto simp: validateVerdict_def Let_def not_less simp del: decision_of_text.simps list_ex_iff
        split: if_splits option.splits json.splits jsnum.splits)
  show "0 \<le> vd_confidence v" "vd_confidence v \<le> 1" "length (vd_categories v) \<le> 16"
    "set (vd_categories v) \<subseteq> set (safety_categories @ quality_categories)"
    "length (vd_summary v) \<le> n" "pred_option (\<lambda>ids. length ids \<le> 16) (vd_ruleIds v)"
    "case jget payload ''decision'' of Some (JStr s) \<Rightarrow> decision_of_text s = Some (vd_decision v) | _ \<Rightarrow> False"
    using f by (simp_all del: decision_of_text.simps) (auto simp: list_ex_iff)
qed

end
