(* ===== verification/StreamQuarantine.thy ===== *)
theory StreamQuarantine
  imports Prelude
begin

text \<open>
  The per-channel quarantine of the model safety gate
  (\<open>plugins/dsh-model-safety-gate/src/stream/quarantine.ts\<close>): the buffer of unchecked text
  with its release rule, the tail of released text and the monitor of the pass-through
  modes. A chunk that is only stashed is any value \<open>'c\<close>. Lengths count characters.
\<close>

subsection \<open>The quarantine\<close>

datatype append_verdict = ABuffer | ACheck | AOverflow

record quarantine_options =
  qo_checkEveryChars :: int
  qo_windowChars :: int
  qo_lookbehindChars :: int
  qo_minCheckIntervalMs :: int
  qo_maxBufferedChars :: int

record 'c quarantine =
  qu_options :: quarantine_options
  qu_blockStart :: "'c option"
  qu_pending :: "string list"
  qu_pendingChars :: nat
  qu_verifiedChars :: nat
  qu_snapshotChars :: nat
  qu_charsSinceCheck :: nat
  qu_lastCheckAt :: int
  qu_checksStarted :: nat
  qu_running :: bool

definition new_quarantine :: "quarantine_options \<Rightarrow> 'c quarantine" where
  "new_quarantine opts =
     \<lparr>qu_options = opts, qu_blockStart = None, qu_pending = [], qu_pendingChars = 0,
      qu_verifiedChars = 0, qu_snapshotChars = 0, qu_charsSinceCheck = 0, qu_lastCheckAt = 0,
      qu_checksStarted = 0, qu_running = False\<rparr>"

definition stashBlockStart :: "'c \<Rightarrow> 'c quarantine \<Rightarrow> 'c quarantine" where
  "stashBlockStart c q = q\<lparr>qu_blockStart := Some c\<rparr>"

definition qu_append :: "string \<Rightarrow> int \<Rightarrow> 'c quarantine \<Rightarrow> append_verdict \<times> 'c quarantine" where
  "qu_append tx now q =
     (let q1 = q\<lparr>qu_pending := qu_pending q @ [tx],
                 qu_pendingChars := qu_pendingChars q + length tx,
                 qu_charsSinceCheck := qu_charsSinceCheck q + length tx\<rparr>;
          opts = qu_options q1
      in (if int (qu_pendingChars q1) > qo_maxBufferedChars opts then AOverflow
          else if qu_running q1 then ABuffer
          else if int (qu_charsSinceCheck q1) < qo_checkEveryChars opts then ABuffer
          else if now - qu_lastCheckAt q1 < qo_minCheckIntervalMs opts \<and> qu_checksStarted q1 > 0
            then ABuffer
          else ACheck, q1))"

definition snapshotText :: "string \<Rightarrow> 'c quarantine \<Rightarrow> string \<times> 'c quarantine" where
  "snapshotText releasedTail q =
     (let lookbehind = slice_from releasedTail (- qo_lookbehindChars (qu_options q));
          pending = concat (qu_pending q);
          windowBudget = qo_windowChars (qu_options q);
          pendingSlice = slice_to pending windowBudget;
          q1 = q\<lparr>qu_snapshotChars := length pendingSlice\<rparr>;
          remaining = windowBudget - int (length pendingSlice);
          lookbehindSlice = (if remaining > 0 then slice_from lookbehind (- remaining) else '''')
      in (lookbehindSlice @ pendingSlice, q1))"

definition qu_hasPending :: "'c quarantine \<Rightarrow> bool" where
  "qu_hasPending q \<longleftrightarrow> qu_pendingChars q > 0 \<or> qu_blockStart q \<noteq> None"

text \<open>The release loop of \<open>flush\<close>: the released fragments and what stays.\<close>

fun release_texts :: "nat \<Rightarrow> string list \<Rightarrow> string list \<times> string list" where
  "release_texts 0 ps = ([], ps)"
| "release_texts (Suc n) [] = ([], [])"
| "release_texts (Suc n) (h # ps) =
     (let released = take (Suc n) h in
      if length released = length h
      then (case release_texts (Suc n - length released) ps of (ts, rest) \<Rightarrow> (released # ts, rest))
      else ([released], drop (length released) h # ps))"

record 'c flushed =
  fl_blockStart :: "'c option"
  fl_texts :: "string list"

definition qu_flush :: "'c quarantine \<Rightarrow> 'c flushed \<times> 'c quarantine" where
  "qu_flush q =
     (let releaseChars = min (qu_verifiedChars q) (qu_pendingChars q);
          (texts, rest) = release_texts releaseChars (qu_pending q);
          pendingChars = qu_pendingChars q - length (concat texts);
          releaseHeader = (qu_blockStart q \<noteq> None \<and> (pendingChars = 0 \<or> texts \<noteq> []))
      in (\<lparr>fl_blockStart = (if releaseHeader then qu_blockStart q else None), fl_texts = texts\<rparr>,
          q\<lparr>qu_pending := rest, qu_pendingChars := pendingChars,
            qu_blockStart := (if releaseHeader then None else qu_blockStart q),
            qu_charsSinceCheck := 0, qu_verifiedChars := 0, qu_snapshotChars := 0\<rparr>))"

definition qu_markChecked :: "int \<Rightarrow> 'c quarantine \<Rightarrow> 'c quarantine" where
  "qu_markChecked now q =
     q\<lparr>qu_charsSinceCheck := 0, qu_lastCheckAt := now, qu_checksStarted := qu_checksStarted q + 1,
       qu_verifiedChars := max (qu_verifiedChars q) (qu_snapshotChars q)\<rparr>"

subsection \<open>The released tail\<close>

record released_tail =
  rt_lookbehindChars :: int
  rt_text :: string

definition new_tail :: "int \<Rightarrow> released_tail" where
  "new_tail n = \<lparr>rt_lookbehindChars = n, rt_text = ''''\<rparr>"

definition tail_append :: "string \<Rightarrow> released_tail \<Rightarrow> released_tail" where
  "tail_append tx t =
     t\<lparr>rt_text := (if int (length (rt_text t) + length tx) > rt_lookbehindChars t * 4
                  then slice_from (rt_text t @ tx) (- rt_lookbehindChars t)
                  else rt_text t @ tx)\<rparr>"

definition tail_tail :: "released_tail \<Rightarrow> string" where
  "tail_tail t = slice_from (rt_text t) (- rt_lookbehindChars t)"

subsection \<open>The pass-through monitor\<close>

record monitor =
  mo_checkEveryChars :: int
  mo_lookbehindChars :: int
  mo_minCheckIntervalMs :: int
  mo_recent :: "string list"
  mo_recentChars :: nat
  mo_charsSinceCheck :: nat
  mo_lastCheckAt :: int
  mo_checksStarted :: nat

definition new_monitor :: "int \<Rightarrow> int \<Rightarrow> int \<Rightarrow> monitor" where
  "new_monitor every look interval =
     \<lparr>mo_checkEveryChars = every, mo_lookbehindChars = look, mo_minCheckIntervalMs = interval,
      mo_recent = [], mo_recentChars = 0, mo_charsSinceCheck = 0, mo_lastCheckAt = 0,
      mo_checksStarted = 0\<rparr>"

text \<open>Dropping whole fragments from the front while the cap is exceeded, never the last one.\<close>

fun drop_recent :: "int \<Rightarrow> string list \<Rightarrow> nat \<Rightarrow> string list \<times> nat" where
  "drop_recent cap [] n = ([], n)"
| "drop_recent cap [x] n = ([x], n)"
| "drop_recent cap (x # y # ys) n =
     (if int n > cap then drop_recent cap (y # ys) (n - length x) else (x # y # ys, n))"

definition mo_append :: "string \<Rightarrow> int \<Rightarrow> monitor \<Rightarrow> bool \<times> monitor" where
  "mo_append tx now m =
     (let cap = mo_lookbehindChars m + mo_checkEveryChars m * 4;
          (recent, chars) = drop_recent cap (mo_recent m @ [tx]) (mo_recentChars m + length tx);
          m1 = m\<lparr>mo_recent := recent, mo_recentChars := chars,
                 mo_charsSinceCheck := mo_charsSinceCheck m + length tx\<rparr>
      in (\<not> int (mo_charsSinceCheck m1) < mo_checkEveryChars m1 \<and>
          \<not> (mo_checksStarted m1 > 0 \<and> now - mo_lastCheckAt m1 < mo_minCheckIntervalMs m1), m1))"

definition mo_markChecked :: "int \<Rightarrow> monitor \<Rightarrow> monitor" where
  "mo_markChecked now m =
     m\<lparr>mo_charsSinceCheck := 0, mo_lastCheckAt := now, mo_checksStarted := mo_checksStarted m + 1\<rparr>"

definition mo_hasUnchecked :: "monitor \<Rightarrow> bool" where
  "mo_hasUnchecked m \<longleftrightarrow> mo_charsSinceCheck m > 0"

definition mo_windowText :: "monitor \<Rightarrow> string" where
  "mo_windowText m =
     slice_from (concat (mo_recent m)) (- (mo_lookbehindChars m + mo_checkEveryChars m * 2))"

subsection \<open>The buffer never loses, reorders or repeats text\<close>

definition qu_text :: "'c quarantine \<Rightarrow> string" where
  "qu_text q = concat (qu_pending q)"

definition qu_ok :: "'c quarantine \<Rightarrow> bool" where
  "qu_ok q \<longleftrightarrow> qu_pendingChars q = length (qu_text q)"

lemma release_texts_split:
  "release_texts n ps = (ts, rest) \<Longrightarrow>
   concat ts = take n (concat ps) \<and> concat rest = drop n (concat ps)"
proof (induction n ps arbitrary: ts rest rule: release_texts.induct)
  case (3 n h ps)
  show ?case
  proof (cases "length (take (Suc n) h) = length h")
    case True
    then have le: "length h \<le> Suc n" by auto
    obtain ts' rest' where r: "release_texts (Suc n - length h) ps = (ts', rest')" by force
    have "concat ts' = take (Suc n - length h) (concat ps) \<and> concat rest' = drop (Suc n - length h) (concat ps)"
      using "3.IH" [OF refl True, of ts' rest'] r True by simp
    moreover have "ts = h # ts' \<and> rest = rest'" using "3.prems" True r le by simp
    ultimately show ?thesis using le by simp
  qed (use "3.prems" in \<open>auto simp: Let_def min_def split: if_splits\<close>)
qed auto

lemma append_text: "qu_append tx now q = (v, q') \<Longrightarrow> qu_text q' = qu_text q @ tx"
  by (auto simp: qu_append_def Let_def qu_text_def)

lemma append_ok: "qu_append tx now q = (v, q') \<Longrightarrow> qu_ok q \<Longrightarrow> qu_ok q'"
  by (auto simp: qu_append_def Let_def qu_text_def qu_ok_def)

lemma append_overflow:
  assumes "qu_append tx now q = (v, q')" "v \<noteq> AOverflow"
  shows "int (qu_pendingChars q') \<le> qo_maxBufferedChars (qu_options q)"
  using assms by (auto simp: qu_append_def Let_def not_less split: if_splits)

lemma flush_release:
  assumes "qu_flush q = (f, q')" "qu_ok q"
  shows "concat (fl_texts f) = take (qu_verifiedChars q) (qu_text q)"
    "qu_text q' = drop (qu_verifiedChars q) (qu_text q)" "qu_ok q'"
proof -
  obtain ts rest where r: "release_texts (min (qu_verifiedChars q) (qu_pendingChars q)) (qu_pending q) = (ts, rest)"
    by force
  note split = release_texts_split [OF r]
  have eq: "fl_texts f = ts" "qu_pending q' = rest"
      "qu_pendingChars q' = qu_pendingChars q - length (concat ts)"
    using assms(1) r by (auto simp: qu_flush_def Let_def)
  show "concat (fl_texts f) = take (qu_verifiedChars q) (qu_text q)"
    using split eq assms(2) by (simp add: qu_text_def qu_ok_def min_def)
  show "qu_text q' = drop (qu_verifiedChars q) (qu_text q)"
    using split eq assms(2) by (simp add: qu_text_def qu_ok_def min_def)
  show "qu_ok q'"
    using split eq assms(2) by (simp add: qu_text_def qu_ok_def min_def)
qed

lemma flush_fields:
  assumes "qu_flush q = (f, q')"
  shows "qu_options q' = qu_options q" "qu_verifiedChars q' = 0" "qu_snapshotChars q' = 0"
    "qu_running q' = qu_running q"
  using assms by (auto simp: qu_flush_def Let_def split: prod.splits)

lemma snapshot_covers:
  assumes "snapshotText before q = (content, q')"
  shows "qu_snapshotChars q' = length (slice_to (qu_text q) (qo_windowChars (qu_options q)))"
    "\<exists>look. content = look @ slice_to (qu_text q) (qo_windowChars (qu_options q))"
    "qu_text q' = qu_text q" "qu_ok q' = qu_ok q" "qu_verifiedChars q' = qu_verifiedChars q"
    "qu_options q' = qu_options q" "qu_blockStart q' = qu_blockStart q"
    "qu_pendingChars q' = qu_pendingChars q" "qu_running q' = qu_running q"
  using assms by (auto simp: snapshotText_def Let_def qu_text_def qu_ok_def)

lemma markChecked_simps [simp]:
  "qu_text (qu_markChecked t q) = qu_text q" "qu_ok (qu_markChecked t q) = qu_ok q"
  "qu_options (qu_markChecked t q) = qu_options q" "qu_blockStart (qu_markChecked t q) = qu_blockStart q"
  "qu_verifiedChars (qu_markChecked t q) = max (qu_verifiedChars q) (qu_snapshotChars q)"
  "qu_pendingChars (qu_markChecked t q) = qu_pendingChars q"
  by (simp_all add: qu_markChecked_def qu_text_def qu_ok_def)

text \<open>The window bounds what a check is sent, whatever the lookbehind.\<close>

lemma snapshot_bounded:
  assumes "snapshotText before q = (content, q')" "0 \<le> qo_windowChars (qu_options q)"
  shows "int (length content) \<le> qo_windowChars (qu_options q)"
proof -
  let ?w = "qo_windowChars (qu_options q)"
  let ?p = "slice_to (concat (qu_pending q)) ?w"
  let ?l = "slice_from before (- qo_lookbehindChars (qu_options q))"
  have p: "int (length ?p) \<le> ?w"
    using assms(2) by (simp add: slice_to_nonneg)
  have "int (length (slice_from ?l (- (?w - int (length ?p))))) \<le> ?w - int (length ?p)"
    if "?w - int (length ?p) > 0"
  proof -
    define k where "k = nat (?w - int (length ?p))"
    have k: "0 < k" "?w - int (length ?p) = int k" using that by (simp_all add: k_def)
    show ?thesis unfolding k(2) slice_from_neg [OF k(1)] by simp
  qed
  then show ?thesis
    using assms(1) p by (auto simp: snapshotText_def Let_def)
qed

end
