(* ===== verification/StreamGuard.thy ===== *)
theory StreamGuard
  imports SafetyPolicy StreamQuarantine "HOL-Library.Sublist"
begin

text \<open>
  The output stream guard (\<open>plugins/dsh-model-safety-gate/src/guards/output-stream.ts\<close>) with
  the chunk union (\<open>stream/chunks.ts\<close>) and the cancellation of the turn
  (\<open>stream/cancellation.ts\<close>). The upstream is the list of its chunks; a world threads the
  classifier's transport, the clock and the agent. A consumer that stops reading and an
  upstream that throws are left out.
\<close>

subsection \<open>Chunks\<close>

record stream_failure =
  sf_message :: string
  sf_code :: "safety_error option"

datatype finish_reason =
    FrStop | FrToolCalls | FrMaxTokens | FrAborted stream_failure | FrError stream_failure

datatype chunk =
    BlockStart int string
  | TextDelta int string
  | ReasoningDelta int string
  | ToolCallDelta int "string option" "string option" string
  | BlockEnd int json
  | Usage json
  | Finish finish_reason

fun isDeltaChunk :: "chunk \<Rightarrow> bool" where
  "isDeltaChunk (TextDelta _ _) = True"
| "isDeltaChunk (ReasoningDelta _ _) = True"
| "isDeltaChunk _ = False"

definition blockedFinish :: "stream_failure \<Rightarrow> chunk" where
  "blockedFinish f = Finish (FrError f)"

subsection \<open>Configuration and surroundings\<close>

datatype output_channel = OText | OReasoning

datatype output_mode = Observe | Interrupt | Buffered

record output_config =
  oc_enabled :: bool
  oc_mode :: output_mode
  oc_text :: bool
  oc_reasoning :: bool
  oc_quarantine :: quarantine_options

record 'w agent =
  ag_cancel :: "string \<Rightarrow> bool \<Rightarrow> 'w \<Rightarrow> bool \<times> 'w"

record 'w guard_env =
  ge_enabled :: bool
  ge_mode :: gate_mode
  ge_output :: output_config
  ge_pipeline :: "'w pipeline"
  ge_now :: "'w \<Rightarrow> int \<times> 'w"
  ge_lookup :: "string \<Rightarrow> 'w agent option"
  ge_sessionId :: "string option"

definition isGateOff :: "'w guard_env \<Rightarrow> bool" where
  "isGateOff env \<longleftrightarrow> \<not> ge_enabled env \<or> ge_mode env = GateOff"

abbreviation quarantining :: "'w guard_env \<Rightarrow> bool" where
  "quarantining env \<equiv> oc_mode (ge_output env) = Buffered"

fun channel_on :: "'w guard_env \<Rightarrow> output_channel \<Rightarrow> bool" where
  "channel_on env OText = oc_text (ge_output env)"
| "channel_on env OReasoning = oc_reasoning (ge_output env)"

text \<open>\<open>isGuardedBlockType\<close> and \<open>channelFor\<close>.\<close>

definition channelFor :: "string \<Rightarrow> output_channel option" where
  "channelFor bt = (if bt = ''text'' then Some OText
     else if bt = ''reasoning'' then Some OReasoning else None)"

fun makeDelta :: "output_channel \<Rightarrow> int \<Rightarrow> string \<Rightarrow> chunk" where
  "makeDelta OText i t = TextDelta i t"
| "makeDelta OReasoning i t = ReasoningDelta i t"

fun codeFor :: "output_channel \<Rightarrow> safety_error" where
  "codeFor OReasoning = SAFETY_REASONING_BLOCKED"
| "codeFor OText = SAFETY_OUTPUT_BLOCKED"

fun contentChannel :: "output_channel \<Rightarrow> content_channel" where
  "contentChannel OText = ChText"
| "contentChannel OReasoning = ChReasoning"

fun channel_name :: "output_channel \<Rightarrow> string" where
  "channel_name OText = ''text''"
| "channel_name OReasoning = ''reasoning''"

text \<open>Cancelling the active turn; an agent that throws is reported as not cancelled.\<close>

definition cancelTurn :: "(string \<Rightarrow> 'w agent option) \<Rightarrow> string option \<Rightarrow> string \<Rightarrow> 'w \<Rightarrow> bool \<times> 'w" where
  "cancelTurn lookup sid reason w =
     (case sid of
        None \<Rightarrow> (False, w)
      | Some s \<Rightarrow> (case lookup s of None \<Rightarrow> (False, w) | Some a \<Rightarrow> ag_cancel a reason True w))"

subsection \<open>Channels\<close>

record block_state =
  bs_channel :: output_channel
  bs_index :: int
  bs_quarantine :: "chunk quarantine"
  bs_monitor :: monitor
  bs_tail :: released_tail

record stop_info =
  st_failure :: stream_failure
  st_preventedChars :: nat

definition createState :: "'w guard_env \<Rightarrow> output_channel \<Rightarrow> int \<Rightarrow> block_state" where
  "createState env ch i =
     (let o' = oc_quarantine (ge_output env) in
      \<lparr>bs_channel = ch, bs_index = i, bs_quarantine = new_quarantine o',
       bs_monitor = new_monitor (qo_checkEveryChars o') (qo_lookbehindChars o') (qo_minCheckIntervalMs o'),
       bs_tail = new_tail (qo_lookbehindChars o')\<rparr>)"

definition guard_check :: "'w guard_env \<Rightarrow> block_state \<Rightarrow> string \<Rightarrow> 'w \<Rightarrow> decision \<times> 'w" where
  "guard_check env s content w =
     (let (mv, w1) = pipeline_run (ge_pipeline env)
            \<lparr>in_content = content, in_channel = contentChannel (bs_channel s),
             in_trigger = Always, in_quotedDowngrade = True\<rparr> w
      in (applyGateMode (vd_decision (mv_verdict mv)) (ge_mode env), w1))"

definition blocked_stop :: "output_channel \<Rightarrow> nat \<Rightarrow> stop_info" where
  "blocked_stop ch n =
     \<lparr>st_failure = \<lparr>sf_message = ''blocked '' @ channel_name ch @ '' output by safety policy'',
                    sf_code = Some (codeFor ch)\<rparr>, st_preventedChars = n\<rparr>"

definition overflow_stop :: "nat \<Rightarrow> stop_info" where
  "overflow_stop n =
     \<lparr>st_failure = \<lparr>sf_message = ''quarantine buffer overflow; failing closed'',
                    sf_code = Some SAFETY_BUFFER_OVERFLOW\<rparr>, st_preventedChars = n\<rparr>"

text \<open>The snapshot, its check and \<open>markChecked\<close>, as both quarantine paths run them.\<close>

definition check_window :: "'w guard_env \<Rightarrow> block_state \<Rightarrow> 'w \<Rightarrow> decision \<times> block_state \<times> 'w" where
  "check_window env s w =
     (let (content, q1) = snapshotText (tail_tail (bs_tail s)) (bs_quarantine s);
          (d, w1) = guard_check env s content w;
          (tm, w2) = ge_now env w1
      in (d, s\<lparr>bs_quarantine := qu_markChecked tm q1\<rparr>, w2))"

definition collectFlush :: "block_state \<Rightarrow> chunk list \<times> block_state" where
  "collectFlush s =
     (let (flushed, q1) = qu_flush (bs_quarantine s)
      in ((case fl_blockStart flushed of None \<Rightarrow> [] | Some c \<Rightarrow> [c])
            @ map (makeDelta (bs_channel s) (bs_index s)) (fl_texts flushed),
          s\<lparr>bs_quarantine := q1, bs_tail := fold tail_append (fl_texts flushed) (bs_tail s)\<rparr>))"

lemma collectFlush_size:
  "qu_pendingChars (bs_quarantine (snd (collectFlush s))) \<le> qu_pendingChars (bs_quarantine s)"
  by (simp add: collectFlush_def qu_flush_def Let_def split: prod.splits)

lemma check_window_size:
  "qu_pendingChars (bs_quarantine (fst (snd (check_window env s w)))) = qu_pendingChars (bs_quarantine s)"
  by (simp add: check_window_def snapshotText_def qu_markChecked_def Let_def split: prod.splits)

lemma finalize_decreases:
  assumes "(d, p) = check_window env s w" "(s1, w1) = p" "(out, s2) = collectFlush s1"
    and "qu_pendingChars (bs_quarantine s2) \<noteq> qu_pendingChars (bs_quarantine s)"
  shows "qu_pendingChars (bs_quarantine s2) < qu_pendingChars (bs_quarantine s)"
proof -
  have "s1 = fst (snd (check_window env s w))" "s2 = snd (collectFlush s1)"
    using assms(1,2,3) by (metis fst_conv snd_conv)+
  then show ?thesis
    using assms(4) collectFlush_size [of s1] check_window_size [of env s w] by simp
qed

function finalizePending :: "'w guard_env \<Rightarrow> block_state \<Rightarrow> 'w \<Rightarrow> (stop_info + chunk list) \<times> block_state \<times> 'w" where
  "finalizePending env s w =
     (if \<not> qu_hasPending (bs_quarantine s) then (Inr [], s, w)
      else case check_window env s w of
        (d, s1, w1) \<Rightarrow>
          if d = Block
          then (Inl (blocked_stop (bs_channel s) (qu_pendingChars (bs_quarantine s1))), s1, w1)
          else case collectFlush s1 of
            (out, s2) \<Rightarrow>
              if qu_pendingChars (bs_quarantine s2) = qu_pendingChars (bs_quarantine s)
              then (Inr out, s2, w1)
              else (case finalizePending env s2 w1 of
                      (Inl st, s3, w2) \<Rightarrow> (Inl st, s3, w2)
                    | (Inr later_out, s3, w2) \<Rightarrow> (Inr (out @ later_out), s3, w2)))"
  by pat_completeness auto
termination
  by (relation "measure (\<lambda>(env, s, w). qu_pendingChars (bs_quarantine s))")
    (simp, simp, erule (3) finalize_decreases)

declare finalizePending.simps [simp del]

text \<open>A delta of a quarantined channel.\<close>

definition on_delta :: "'w guard_env \<Rightarrow> block_state \<Rightarrow> string \<Rightarrow> 'w \<Rightarrow> (stop_info + chunk list) \<times> block_state \<times> 'w" where
  "on_delta env s tx w =
     (let (tm, w1) = ge_now env w;
          (v, q1) = qu_append tx tm (bs_quarantine s);
          s1 = s\<lparr>bs_quarantine := q1\<rparr>
      in case v of
           AOverflow \<Rightarrow> (Inl (overflow_stop (qu_pendingChars q1)), s1, w1)
         | ABuffer \<Rightarrow> (Inr [], s1, w1)
         | ACheck \<Rightarrow>
             (let (d, s2, w2) = check_window env (s1\<lparr>bs_quarantine := q1\<lparr>qu_running := True\<rparr>\<rparr>) w1;
                  s3 = s2\<lparr>bs_quarantine := (bs_quarantine s2)\<lparr>qu_running := False\<rparr>\<rparr>
              in if d = Block
                 then (Inl (blocked_stop (bs_channel s) (qu_pendingChars (bs_quarantine s3))), s3, w2)
                 else (let (out, s4) = collectFlush s3 in (Inr out, s4, w2))))"

text \<open>The window check of the pass-through modes; it stops only in interrupt mode.\<close>

definition monitor_check :: "'w guard_env \<Rightarrow> block_state \<Rightarrow> 'w \<Rightarrow> (stop_info + chunk list) \<times> block_state \<times> 'w" where
  "monitor_check env s w =
     (let (d, w1) = guard_check env s (mo_windowText (bs_monitor s)) w;
          (tm, w2) = ge_now env w1;
          s1 = s\<lparr>bs_monitor := mo_markChecked tm (bs_monitor s)\<rparr>
      in (if d = Block \<and> oc_mode (ge_output env) = Interrupt
          then Inl (blocked_stop (bs_channel s) 0) else Inr [], s1, w2))"

text \<open>A delta of a pass-through channel, after it was yielded.\<close>

definition on_delta_through :: "'w guard_env \<Rightarrow> block_state \<Rightarrow> string \<Rightarrow> 'w \<Rightarrow> (stop_info + chunk list) \<times> block_state \<times> 'w" where
  "on_delta_through env s tx w =
     (let (tm, w1) = ge_now env w;
          (due, m1) = mo_append tx tm (bs_monitor s);
          s1 = s\<lparr>bs_monitor := m1\<rparr>
      in if due then monitor_check env s1 w1 else (Inr [], s1, w1))"

text \<open>What a block end does to one channel, and what usage or finish does in a pass-through mode.\<close>

definition end_channel :: "'w guard_env \<Rightarrow> int \<Rightarrow> block_state \<Rightarrow> 'w \<Rightarrow> (stop_info + chunk list) \<times> block_state \<times> 'w" where
  "end_channel env i s w =
     (if bs_index s \<noteq> i then (Inr [], s, w)
      else if \<not> quarantining env \<and> mo_hasUnchecked (bs_monitor s) then monitor_check env s w
      else finalizePending env s w)"

definition finish_channel :: "'w guard_env \<Rightarrow> block_state \<Rightarrow> 'w \<Rightarrow> (stop_info + chunk list) \<times> block_state \<times> 'w" where
  "finish_channel env s w =
     (if \<not> mo_hasUnchecked (bs_monitor s) then (Inr [], s, w) else monitor_check env s w)"

type_synonym channel_map = "((output_channel \<times> int) \<times> block_state) list"

text \<open>A loop over the channels in insertion order, up to the first that stops the stream.\<close>

fun channel_loop :: "(block_state \<Rightarrow> 'w \<Rightarrow> (stop_info + chunk list) \<times> block_state \<times> 'w) \<Rightarrow>
    channel_map \<Rightarrow> 'w \<Rightarrow> stop_info option \<times> chunk list \<times> channel_map \<times> 'w" where
  "channel_loop act [] w = (None, [], [], w)"
| "channel_loop act ((k, s) # cs) w =
     (case act s w of
        (Inl st, s1, w1) \<Rightarrow> (Some st, [], (k, s1) # cs, w1)
      | (Inr out, s1, w1) \<Rightarrow>
          (case channel_loop act cs w1 of
             (st, outs, cs1, w2) \<Rightarrow> (st, out @ outs, (k, s1) # cs1, w2)))"

text \<open>\<open>finalizeAll\<close> hands out nothing when a channel is blocked.\<close>

definition finalizeAll :: "'w guard_env \<Rightarrow> channel_map \<Rightarrow> 'w \<Rightarrow> stop_info option \<times> chunk list \<times> channel_map \<times> 'w" where
  "finalizeAll env cs w =
     (case channel_loop (finalizePending env) cs w of
        (st, outs, cs1, w1) \<Rightarrow> (st, if st = None then outs else [], cs1, w1))"

subsection \<open>The stream\<close>

record 'w guard_state =
  gs_channels :: channel_map
  gs_stopped :: "stop_info option"
  gs_out :: "chunk list"
  gs_overflows :: nat
  gs_world :: 'w

definition new_guard :: "'w \<Rightarrow> 'w guard_state" where
  "new_guard w = \<lparr>gs_channels = [], gs_stopped = None, gs_out = [], gs_overflows = 0, gs_world = w\<rparr>"

definition yield_chunks :: "chunk list \<Rightarrow> 'w guard_state \<Rightarrow> 'w guard_state" where
  "yield_chunks cs g = g\<lparr>gs_out := gs_out g @ cs\<rparr>"

definition set_stopped :: "stop_info \<Rightarrow> 'w guard_state \<Rightarrow> 'w guard_state" where
  "set_stopped st g = (if gs_stopped g \<noteq> None then g else g\<lparr>gs_stopped := Some st\<rparr>)"

definition put_channel :: "output_channel \<times> int \<Rightarrow> block_state \<Rightarrow> 'w guard_state \<Rightarrow> 'w guard_state" where
  "put_channel k s g = g\<lparr>gs_channels := amap_set k s (gs_channels g)\<rparr>"

definition step_start :: "'w guard_env \<Rightarrow> int \<Rightarrow> string \<Rightarrow> 'w guard_state \<Rightarrow> 'w guard_state" where
  "step_start env i bt g =
     (case channelFor bt of
        Some ch \<Rightarrow>
          if channel_on env ch
          then (let s = createState env ch i in
                if quarantining env
                then put_channel (ch, i)
                       (s\<lparr>bs_quarantine := stashBlockStart (BlockStart i bt) (bs_quarantine s)\<rparr>) g
                else yield_chunks [BlockStart i bt] (put_channel (ch, i) s g))
          else yield_chunks [BlockStart i bt] g
      | None \<Rightarrow> yield_chunks [BlockStart i bt] g)"

definition step_delta :: "'w guard_env \<Rightarrow> output_channel \<Rightarrow> int \<Rightarrow> string \<Rightarrow> 'w guard_state \<Rightarrow> 'w guard_state" where
  "step_delta env ch i tx g =
     (case map_of (gs_channels g) (ch, i) of
        None \<Rightarrow> yield_chunks [makeDelta ch i tx] g
      | Some s \<Rightarrow>
          (let g0 = (if quarantining env then g else yield_chunks [makeDelta ch i tx] g);
               (r, s1, w1) = (if quarantining env then on_delta env s tx (gs_world g)
                              else on_delta_through env s tx (gs_world g));
               g1 = put_channel (ch, i) s1 (g0\<lparr>gs_world := w1\<rparr>)
           in case r of
                Inr out \<Rightarrow> yield_chunks out g1
              | Inl st \<Rightarrow>
                  set_stopped st
                    (if sf_code (st_failure st) = Some SAFETY_BUFFER_OVERFLOW
                     then g1\<lparr>gs_overflows := gs_overflows g1 + 1\<rparr> else g1)))"

text \<open>A closing chunk: the channels' loop, then the chunk itself unless it stopped.\<close>

definition close_with :: "chunk \<Rightarrow> stop_info option \<times> chunk list \<times> channel_map \<times> 'w \<Rightarrow> 'w guard_state \<Rightarrow> 'w guard_state" where
  "close_with c r g =
     (case r of (st, outs, cs, w1) \<Rightarrow>
        (let g1 = yield_chunks outs (g\<lparr>gs_channels := cs, gs_world := w1\<rparr>)
         in case st of Some i \<Rightarrow> set_stopped i g1 | None \<Rightarrow> yield_chunks [c] g1))"

definition step_close :: "'w guard_env \<Rightarrow> chunk \<Rightarrow> 'w guard_state \<Rightarrow> 'w guard_state" where
  "step_close env c g =
     close_with c
       (if quarantining env then finalizeAll env (gs_channels g) (gs_world g)
        else channel_loop (finish_channel env) (gs_channels g) (gs_world g)) g"

fun guard_step :: "'w guard_env \<Rightarrow> chunk \<Rightarrow> 'w guard_state \<Rightarrow> 'w guard_state" where
  "guard_step env (BlockStart i bt) g = step_start env i bt g"
| "guard_step env (TextDelta i tx) g = step_delta env OText i tx g"
| "guard_step env (ReasoningDelta i tx) g = step_delta env OReasoning i tx g"
| "guard_step env (BlockEnd i b) g =
     close_with (BlockEnd i b) (channel_loop (end_channel env i) (gs_channels g) (gs_world g)) g"
| "guard_step env (Usage u) g = step_close env (Usage u) g"
| "guard_step env (Finish r) g = step_close env (Finish r) g"
| "guard_step env (ToolCallDelta i a b c) g = yield_chunks [ToolCallDelta i a b c] g"

fun guard_run :: "'w guard_env \<Rightarrow> chunk list \<Rightarrow> 'w guard_state \<Rightarrow> 'w guard_state" where
  "guard_run env [] g = g"
| "guard_run env (c # cs) g = (if gs_stopped g \<noteq> None then g else guard_run env cs (guard_step env c g))"

record 'w guard_result =
  gr_out :: "chunk list"
  gr_cancelled :: bool
  gr_quarantinedChars :: nat
  gr_preventedTokens :: nat
  gr_world :: 'w

definition error_name :: "safety_error option \<Rightarrow> string" where
  "error_name c = (case c of
      Some SAFETY_REASONING_BLOCKED \<Rightarrow> ''SAFETY_REASONING_BLOCKED''
    | Some SAFETY_BUFFER_OVERFLOW \<Rightarrow> ''SAFETY_BUFFER_OVERFLOW''
    | _ \<Rightarrow> ''SAFETY_OUTPUT_BLOCKED'')"

definition guardOutputStream :: "'w guard_env \<Rightarrow> chunk list \<Rightarrow> 'w \<Rightarrow> 'w guard_result" where
  "guardOutputStream env upstream w =
     (if isGateOff env \<or> \<not> oc_enabled (ge_output env)
      then \<lparr>gr_out = upstream, gr_cancelled = False, gr_quarantinedChars = 0, gr_preventedTokens = 0, gr_world = w\<rparr>
      else let g = guard_run env upstream (new_guard w) in
        case gs_stopped g of
          None \<Rightarrow> \<lparr>gr_out = gs_out g, gr_cancelled = False, gr_quarantinedChars = 0, gr_preventedTokens = 0, gr_world = gs_world g\<rparr>
        | Some st \<Rightarrow>
            (let (c, w1) = cancelTurn (ge_lookup env) (ge_sessionId env)
                   (''Blocked by dsh-model-safety-gate: '' @ error_name (sf_code (st_failure st))) (gs_world g)
             in \<lparr>gr_out = gs_out g @ [blockedFinish (st_failure st)], gr_cancelled = c,
                 gr_quarantinedChars = st_preventedChars st,
                 gr_preventedTokens = (st_preventedChars st + 3) div 4, gr_world = w1\<rparr>))"

end
