(* ===== verification/StreamSafety.thy ===== *)
theory StreamSafety
  imports StreamGuard
begin

text \<open>
  What the output stream guard releases. \<open>text_of k cs\<close> is the text of one channel in a
  list of chunks; the locale \<open>release_contract\<close> says what a property of the released text
  must promise about one append and one passed window, and proves it for whole streams. It
  is interpreted for the order of the text and for a phrase the scanner blocks.
\<close>

subsection \<open>The text of a channel\<close>

fun delta_text :: "output_channel \<times> int \<Rightarrow> chunk \<Rightarrow> string" where
  "delta_text k (TextDelta i t) = (if k = (OText, i) then t else '''')"
| "delta_text k (ReasoningDelta i t) = (if k = (OReasoning, i) then t else '''')"
| "delta_text k _ = ''''"

definition text_of :: "output_channel \<times> int \<Rightarrow> chunk list \<Rightarrow> string" where
  "text_of k cs = concat (map (delta_text k) cs)"

definition start_of :: "output_channel \<times> int \<Rightarrow> chunk" where
  "start_of k = BlockStart (snd k) (channel_name (fst k))"

lemma text_of_simps [simp]:
  "text_of k [] = ''''" "text_of k (c # cs) = delta_text k c @ text_of k cs"
  "text_of k (cs @ ds) = text_of k cs @ text_of k ds"
  by (simp_all add: text_of_def)

lemma delta_text_make [simp]: "delta_text k (makeDelta ch i t) = (if k = (ch, i) then t else '''')"
  by (cases ch) auto

lemma text_of_make [simp]:
  "text_of k (map (makeDelta ch i) ts) = (if k = (ch, i) then concat ts else '''')"
  by (induction ts) auto

lemma delta_text_other: "\<not> isDeltaChunk c \<Longrightarrow> delta_text k c = ''''"
  by (cases c) auto

lemma channelFor_name: "channelFor bt = Some ch \<longleftrightarrow> bt = channel_name ch"
  by (cases ch) (auto simp: channelFor_def)

subsection \<open>One channel\<close>

abbreviation qtext :: "block_state \<Rightarrow> string" where
  "qtext s \<equiv> qu_text (bs_quarantine s)"

abbreviation covered :: "'w guard_env \<Rightarrow> string \<Rightarrow> nat" where
  "covered env tx \<equiv> length (slice_to tx (qo_windowChars (oc_quarantine (ge_output env))))"

definition chan_ok :: "'w guard_env \<Rightarrow> output_channel \<times> int \<Rightarrow> block_state \<Rightarrow> bool" where
  "chan_ok env k s \<longleftrightarrow>
     (bs_channel s, bs_index s) = k \<and> qu_ok (bs_quarantine s) \<and>
     qu_options (bs_quarantine s) = oc_quarantine (ge_output env) \<and>
     qu_verifiedChars (bs_quarantine s) = 0 \<and> \<not> qu_running (bs_quarantine s) \<and>
     pred_option (\<lambda>c. \<not> isDeltaChunk c) (qu_blockStart (bs_quarantine s)) \<and>
     rt_lookbehindChars (bs_tail s) = qo_lookbehindChars (oc_quarantine (ge_output env))"

definition stashed :: "'w guard_env \<Rightarrow> output_channel \<times> int \<Rightarrow> block_state" where
  "stashed env k =
     (let s = createState env (fst k) (snd k)
      in s\<lparr>bs_quarantine := stashBlockStart (start_of k) (bs_quarantine s)\<rparr>)"

lemma chan_ok_create: "chan_ok env (ch, i) (createState env ch i)"
  by (simp add: chan_ok_def createState_def Let_def new_quarantine_def new_tail_def qu_ok_def qu_text_def)

lemma chan_ok_stashed: "chan_ok env k (stashed env k)"
  by (cases k) (simp add: chan_ok_def stashed_def createState_def Let_def new_quarantine_def
      new_tail_def qu_ok_def qu_text_def stashBlockStart_def start_of_def)

lemma qtext_stashed [simp]: "qtext (stashed env k) = ''''"
  by (simp add: stashed_def createState_def Let_def new_quarantine_def qu_text_def stashBlockStart_def)

lemma append_fields:
  assumes "qu_append tx tm q = (v, q')"
  shows "qu_options q' = qu_options q" "qu_verifiedChars q' = qu_verifiedChars q"
    "qu_running q' = qu_running q" "qu_blockStart q' = qu_blockStart q"
    "qu_pendingChars q' = qu_pendingChars q + length tx"
    "qu_charsSinceCheck q' = qu_charsSinceCheck q + length tx"
    "qu_lastCheckAt q' = qu_lastCheckAt q" "qu_checksStarted q' = qu_checksStarted q"
  using assms by (auto simp: qu_append_def Let_def)

lemma chan_ok_append:
  assumes "chan_ok env k s" "qu_append tx tm (bs_quarantine s) = (v, q)"
  shows "chan_ok env k (s\<lparr>bs_quarantine := q\<rparr>)" "qu_text q = qtext s @ tx"
  using assms append_ok [OF assms(2)] append_fields [OF assms(2)] append_text [OF assms(2)]
  by (simp_all add: chan_ok_def)

lemma check_window_fields:
  assumes "check_window env s w = (d, s1, w1)"
  shows "\<exists>q tm. s1 = s\<lparr>bs_quarantine := qu_markChecked tm q\<rparr> \<and>
      snapshotText (tail_tail (bs_tail s)) (bs_quarantine s) = (fst (snapshotText (tail_tail (bs_tail s)) (bs_quarantine s)), q) \<and>
      tm = fst (ge_now env (snd (guard_check env s (fst (snapshotText (tail_tail (bs_tail s)) (bs_quarantine s))) w)))"
    and "d = fst (guard_check env s (fst (snapshotText (tail_tail (bs_tail s)) (bs_quarantine s))) w)"
    and "w1 = snd (ge_now env (snd (guard_check env s (fst (snapshotText (tail_tail (bs_tail s)) (bs_quarantine s))) w)))"
  using assms by (auto simp: check_window_def Let_def split: prod.splits)

lemma fold_tail_lookbehind [simp]: "rt_lookbehindChars (fold tail_append ts t) = rt_lookbehindChars t"
  by (induction ts arbitrary: t) (simp_all add: tail_append_def)

text \<open>One passed window: the covered head is released, the rest stays.\<close>

lemma passed_window:
  assumes ok: "chan_ok env k s" and c: "check_window env s w = (d, s1, w1)"
    and f: "collectFlush s1 = (out, s2)"
  shows "chan_ok env k s2"
    "text_of k out = take (covered env (qtext s)) (qtext s)"
    "qtext s2 = drop (covered env (qtext s)) (qtext s)"
    "k' \<noteq> k \<Longrightarrow> text_of k' out = ''''"
    "bs_tail s2 = fold tail_append (fl_texts (fst (qu_flush (bs_quarantine s1)))) (bs_tail s)"
    "concat (fl_texts (fst (qu_flush (bs_quarantine s1)))) = text_of k out"
    "qu_charsSinceCheck (bs_quarantine s2) = 0"
    "qu_lastCheckAt (bs_quarantine s2) = qu_lastCheckAt (bs_quarantine s1)"
    "qu_pendingChars (bs_quarantine s2) = 0 \<Longrightarrow> qu_blockStart (bs_quarantine s2) = None"
proof -
  obtain content q tm where s1: "s1 = s\<lparr>bs_quarantine := qu_markChecked tm q\<rparr>"
    and snap: "snapshotText (tail_tail (bs_tail s)) (bs_quarantine s) = (content, q)"
    using check_window_fields(1) [OF c] by blast
  note sc = snapshot_covers [OF snap]
  obtain fl q2 where fl: "qu_flush (bs_quarantine s1) = (fl, q2)" by force
  have ok1: "qu_ok (bs_quarantine s1)" using ok s1 sc(4) by (simp add: chan_ok_def)
  note rel = flush_release [OF fl ok1] and ff = flush_fields [OF fl]
  have v: "qu_verifiedChars (bs_quarantine s1) = covered env (qtext s)"
    using ok s1 sc by (simp add: chan_ok_def)
  have t: "qtext s1 = qtext s" using s1 sc(3) by simp
  have key: "k = (bs_channel s1, bs_index s1)" using ok s1 by (auto simp: chan_ok_def)
  have out: "out = (case fl_blockStart fl of None \<Rightarrow> [] | Some c \<Rightarrow> [c])
      @ map (makeDelta (bs_channel s1) (bs_index s1)) (fl_texts fl)"
    and s2: "s2 = s1\<lparr>bs_quarantine := q2, bs_tail := fold tail_append (fl_texts fl) (bs_tail s1)\<rparr>"
    using f fl by (simp_all add: collectFlush_def)
  have hd: "pred_option (\<lambda>c. \<not> isDeltaChunk c) (qu_blockStart (bs_quarantine s1))"
    using ok s1 sc(7) by (simp add: chan_ok_def)
  have hd2: "pred_option (\<lambda>c. \<not> isDeltaChunk c) (fl_blockStart fl)"
      "pred_option (\<lambda>c. \<not> isDeltaChunk c) (qu_blockStart q2)"
    using fl hd by (auto simp: qu_flush_def Let_def split: prod.splits)
  have hdt: "text_of k' (case fl_blockStart fl of None \<Rightarrow> [] | Some c \<Rightarrow> [c]) = ''''" for k'
    using hd2(1) by (cases "fl_blockStart fl") (simp_all add: delta_text_other)
  show "text_of k out = take (covered env (qtext s)) (qtext s)"
    using rel(1) v t by (simp add: out hdt key)
  then show "concat (fl_texts (fst (qu_flush (bs_quarantine s1)))) = text_of k out"
    using rel(1) v t fl by simp
  show "qtext s2 = drop (covered env (qtext s)) (qtext s)"
    using rel(2) v t s2 by simp
  show "k' \<noteq> k \<Longrightarrow> text_of k' out = ''''"
    by (simp add: out hdt key)
  show "chan_ok env k s2"
    using ok s1 s2 rel(3) ff hd2(2) sc by (simp add: chan_ok_def qu_markChecked_def)
  show "bs_tail s2 = fold tail_append (fl_texts (fst (qu_flush (bs_quarantine s1)))) (bs_tail s)"
    using s1 s2 fl by simp
  show "qu_charsSinceCheck (bs_quarantine s2) = 0"
    "qu_lastCheckAt (bs_quarantine s2) = qu_lastCheckAt (bs_quarantine s1)"
    using s2 fl by (auto simp: qu_flush_def Let_def split: prod.splits)
  show "qu_pendingChars (bs_quarantine s2) = 0 \<Longrightarrow> qu_blockStart (bs_quarantine s2) = None"
    using s2 fl by (auto simp: qu_flush_def Let_def split: prod.splits)
qed

lemma check_window_chan:
  assumes "chan_ok env k s" "check_window env s w = (d, s1, w1)"
  shows "bs_channel s1 = fst k" "bs_index s1 = snd k" "qu_running (bs_quarantine s1) = False"
    "qtext s1 = qtext s"
proof -
  obtain content q tm where s1: "s1 = s\<lparr>bs_quarantine := qu_markChecked tm q\<rparr>"
    and snap: "snapshotText (tail_tail (bs_tail s)) (bs_quarantine s) = (content, q)"
    using check_window_fields(1) [OF assms(2)] by blast
  show "bs_channel s1 = fst k" "bs_index s1 = snd k" "qu_running (bs_quarantine s1) = False"
    "qtext s1 = qtext s"
    using assms(1) s1 snapshot_covers [OF snap] by (auto simp: chan_ok_def qu_markChecked_def qu_text_def)
qed

text \<open>While no check is in flight, the in-flight mark does not change a check.\<close>

lemma check_window_running:
  "check_window env (s\<lparr>bs_quarantine := q\<lparr>qu_running := True\<rparr>\<rparr>) w =
     (case check_window env (s\<lparr>bs_quarantine := q\<rparr>) w of
        (d, s1, w1) \<Rightarrow> (d, s1\<lparr>bs_quarantine := (bs_quarantine s1)\<lparr>qu_running := True\<rparr>\<rparr>, w1))"
  by (simp add: check_window_def snapshotText_def guard_check_def qu_markChecked_def Let_def
      split: prod.splits)

lemma on_delta_cases:
  assumes ok: "chan_ok env k s" and r: "on_delta env s tx w = (r, s', w')"
    and n: "ge_now env w = (tm, w1)" and a: "qu_append tx tm (bs_quarantine s) = (v, q)"
  shows "(v = AOverflow \<and> r = Inl (overflow_stop (qu_pendingChars q)) \<and> s' = s\<lparr>bs_quarantine := q\<rparr> \<and> w' = w1) \<or>
    (v = ABuffer \<and> r = Inr [] \<and> s' = s\<lparr>bs_quarantine := q\<rparr> \<and> w' = w1) \<or>
    (v = ACheck \<and> (\<exists>d s1. check_window env (s\<lparr>bs_quarantine := q\<rparr>) w1 = (d, s1, w') \<and>
      (if d = Block then r = Inl (blocked_stop (bs_channel s) (qu_pendingChars (bs_quarantine s1))) \<and> s' = s1
       else (\<exists>out. r = Inr out \<and> collectFlush s1 = (out, s')))))"
proof (cases v)
  case ACheck
  obtain d s1 w2 where c: "check_window env (s\<lparr>bs_quarantine := q\<rparr>) w1 = (d, s1, w2)"
    using prod_cases3 by blast
  have "chan_ok env k (s\<lparr>bs_quarantine := q\<rparr>)" by (rule chan_ok_append(1) [OF ok a])
  from check_window_chan(3) [OF this c]
  have "s1\<lparr>bs_quarantine := (bs_quarantine s1)\<lparr>qu_running := False\<rparr>\<rparr> = s1" by simp
  then show ?thesis
    using r ACheck n a c
    by (auto simp: on_delta_def Let_def check_window_running split: if_splits prod.splits)
qed (use r n a in \<open>auto simp: on_delta_def Let_def\<close>)

subsection \<open>All channels\<close>

definition chans_ok :: "'w guard_env \<Rightarrow> channel_map \<Rightarrow> bool" where
  "chans_ok env cs \<longleftrightarrow> distinct (map fst cs) \<and> (\<forall>(k, s) \<in> set cs. chan_ok env k s)"

lemma chans_ok_Nil [simp]: "chans_ok env []"
  by (simp add: chans_ok_def)

lemma chans_ok_Cons [simp]:
  "chans_ok env ((k, s) # cs) \<longleftrightarrow> chan_ok env k s \<and> k \<notin> fst ` set cs \<and> chans_ok env cs"
  by (auto simp: chans_ok_def)

lemma chans_ok_get: "chans_ok env cs \<Longrightarrow> map_of cs k = Some s \<Longrightarrow> chan_ok env k s"
  by (auto simp: chans_ok_def dest: map_of_SomeD)

lemma chans_ok_put: "chans_ok env cs \<Longrightarrow> chan_ok env k s \<Longrightarrow> chans_ok env (amap_set k s cs)"
  by (induction k s cs rule: amap_set.induct) (auto simp: keys_amap_set)

text \<open>One unfolding of the final loop over a channel.\<close>

lemma finalize_cases:
  assumes "finalizePending env s w = (r, s', w')"
  obtains (idle) "\<not> qu_hasPending (bs_quarantine s)" "r = Inr []" "s' = s" "w' = w"
  | (block) d s1 where "check_window env s w = (d, s1, w')" "d = Block" "s' = s1"
      "r = Inl (blocked_stop (bs_channel s) (qu_pendingChars (bs_quarantine s1)))"
  | (stuck) d s1 out where "qu_hasPending (bs_quarantine s)" "check_window env s w = (d, s1, w')" "d \<noteq> Block"
      "collectFlush s1 = (out, s')" "r = Inr out"
      "qu_pendingChars (bs_quarantine s') = qu_pendingChars (bs_quarantine s)"
  | (go) d s1 w1 out s2 r2 where "check_window env s w = (d, s1, w1)" "d \<noteq> Block"
      "collectFlush s1 = (out, s2)" "finalizePending env s2 w1 = (r2, s', w')"
      "r = (case r2 of Inl st \<Rightarrow> Inl st | Inr later_out \<Rightarrow> Inr (out @ later_out))"
      "qu_pendingChars (bs_quarantine s2) < qu_pendingChars (bs_quarantine s)"
proof -
  note eq = assms [unfolded finalizePending.simps [of env s w]]
  show ?thesis
  proof (cases "qu_hasPending (bs_quarantine s)")
    case True
    obtain d s1 w1 where c: "check_window env s w = (d, s1, w1)" using prod_cases3 by blast
    obtain out s2 where f: "collectFlush s1 = (out, s2)" by force
    show ?thesis
    proof (cases "d = Block \<or> qu_pendingChars (bs_quarantine s2) = qu_pendingChars (bs_quarantine s)")
      case stop: True
      show ?thesis
      proof (cases "d = Block")
        case True
        with eq \<open>qu_hasPending _\<close> c
        have e: "(Inl (blocked_stop (bs_channel s) (qu_pendingChars (bs_quarantine s1))), s1, w1) = (r, s', w')"
          by auto
        show ?thesis by (rule block [of d s1]) (use c e True in auto)
      next
        case False
        with eq \<open>qu_hasPending _\<close> c f stop stuck show ?thesis by simp
      qed
    next
      case False
      obtain r2 s3 w2 where g: "finalizePending env s2 w1 = (r2, s3, w2)" using prod_cases3 by blast
      have lt: "qu_pendingChars (bs_quarantine s2) < qu_pendingChars (bs_quarantine s)"
        by (rule finalize_decreases [of d "(s1, w1)" env s w s1 w1 out s2]) (use c f False in auto)
      have "(case r2 of Inl st \<Rightarrow> Inl st | Inr later_out \<Rightarrow> Inr (out @ later_out), s3, w2) = (r, s', w')"
        using eq \<open>qu_hasPending _\<close> False
        by (simp only: c f g prod.case de_Morgan_disj not_not if_False simp_thms) (auto split: sum.splits)
      then have all: "s' = s3" "w' = w2"
        "r = (case r2 of Inl st \<Rightarrow> Inl st | Inr later_out \<Rightarrow> Inr (out @ later_out))"
        by simp_all
      show ?thesis
      proof (rule go [OF c _ f _ all(3) lt])
        show "d \<noteq> Block" using False by simp
        show "finalizePending env s2 w1 = (r2, s', w')" by (simp only: g all(1,2))
      qed
    qed
  next
    case False
    with eq have "(Inr [], s, w) = (r, s', w')" by (simp only: not_False_eq_True if_True)
    then show ?thesis using False by (auto intro: idle)
  qed
qed

lemma finalize_chan:
  "finalizePending env s w = (Inr out, s1, w1) \<Longrightarrow> chan_ok env k s \<Longrightarrow>
   chan_ok env k s1 \<and> (\<forall>k'. k' \<noteq> k \<longrightarrow> text_of k' out = '''')"
proof (induction "qu_pendingChars (bs_quarantine s)" arbitrary: s w out rule: less_induct)
  case less
  from less.prems(1) show ?case
  proof (cases rule: finalize_cases)
    case (stuck d s1 out)
    then show ?thesis using passed_window(1,4) [OF less.prems(2) stuck(2,4)] by simp
  next
    case (go d s1 w1 out1 s2 r2)
    then obtain out2 where r2: "r2 = Inr out2" "out = out1 @ out2" by (cases r2) auto
    note p = passed_window [OF less.prems(2) go(1,3)]
    show ?thesis
      using less.hyps [OF go(6) go(4) [unfolded r2(1)] p(1)] p(4) r2(2) by simp
  qed (use less.prems in auto)
qed

text \<open>With a window of at least one character the loop ends with nothing left.\<close>

lemma finalize_drained:
  assumes "0 < qo_windowChars (oc_quarantine (ge_output env))"
  shows "finalizePending env s w = (Inr out, s1, w1) \<Longrightarrow> chan_ok env k s \<Longrightarrow> qtext s1 = ''''"
proof (induction "qu_pendingChars (bs_quarantine s)" arbitrary: s w out rule: less_induct)
  case less
  have size: "qu_pendingChars (bs_quarantine s) = length (qtext s)" if "chan_ok env k s" for s
    using that by (simp add: chan_ok_def qu_ok_def)
  from less.prems(1) show ?case
  proof (cases rule: finalize_cases)
    case idle
    then show ?thesis using size [OF less.prems(2)] by (simp add: qu_hasPending_def)
  next
    case (stuck d s' out)
    note p = passed_window [OF less.prems(2) stuck(2,4)]
    have "length (qtext s) = length (qtext s) - covered env (qtext s)"
      using size [OF less.prems(2)] size [OF p(1)] stuck(6) p(3) by simp
    then have "qtext s = ''''"
      using assms by (cases "qtext s") (auto simp: slice_to_nonneg min_def split: if_splits)
    then show ?thesis using p(3) by simp
  next
    case (go d s1 w1 out1 s2 r2)
    then obtain out2 where r2: "r2 = Inr out2" by (cases r2) auto
    show ?thesis
      by (rule less.hyps [OF go(6) go(4) [unfolded r2(1)] passed_window(1) [OF less.prems(2) go(1,3)]])
  qed simp
qed


text \<open>The loop over the channels: what one key's channel and the others do.\<close>

lemma channel_loop_split:
  assumes "channel_loop act ((k, s) # cs) w = (st, outs, cs1, w1)"
  obtains (stop) s' i where "act s w = (Inl i, s', w1)" "st = Some i" "outs = []" "cs1 = (k, s') # cs"
  | (go) out s' w' outs' cs' where "act s w = (Inr out, s', w')"
      "channel_loop act cs w' = (st, outs', cs', w1)" "outs = out @ outs'" "cs1 = (k, s') # cs'"
proof -
  obtain r s' w' where a: "act s w = (r, s', w')" using prod_cases3 by blast
  obtain st' outs' cs' w'' where l: "channel_loop act cs w' = (st', outs', cs', w'')"
    using prod_cases4 by blast
  show ?thesis
    by (cases r) (use assms a l stop go in auto)
qed

definition finalizing :: "'w guard_env \<Rightarrow> (block_state \<Rightarrow> 'w \<Rightarrow> (stop_info + chunk list) \<times> block_state \<times> 'w) \<Rightarrow> bool" where
  "finalizing env act \<longleftrightarrow> (\<forall>s w. act s w = (Inr [], s, w) \<or> act s w = finalizePending env s w)"

lemma finalizingD:
  assumes "finalizing env act" "act s w = (r, s', w')"
  obtains "r = Inr []" "s' = s" "w' = w" | "finalizePending env s w = (r, s', w')"
  using assms unfolding finalizing_def by (metis prod.inject)

lemma finalizing_self: "finalizing env (finalizePending env)"
  by (simp add: finalizing_def)

lemma finalizing_end: "quarantining env \<Longrightarrow> finalizing env (end_channel env i)"
  by (simp add: finalizing_def end_channel_def)

lemma finalizing_chan:
  assumes "finalizing env act" "act s w = (Inr out, s', w')" "chan_ok env k s"
  shows "chan_ok env k s' \<and> (\<forall>k'. k' \<noteq> k \<longrightarrow> text_of k' out = '''')"
  using assms(1,2)
proof (cases rule: finalizingD)
  case 2
  from finalize_chan [OF 2 assms(3)] show ?thesis .
qed (use assms(3) in auto)

lemma loop_chans:
  assumes fin: "finalizing env act"
  shows "channel_loop act cs w = (st, outs, cs1, w1) \<Longrightarrow> chans_ok env cs \<Longrightarrow>
    map fst cs1 = map fst cs \<and> (st = None \<longrightarrow> chans_ok env cs1) \<and>
    (k \<notin> fst ` set cs \<longrightarrow> text_of k outs = '''')"
proof (induction cs arbitrary: w outs cs1)
  case (Cons p cs)
  obtain k0 s where p: "p = (k0, s)" by (cases p)
  from Cons.prems(1) [unfolded p] show ?case
  proof (cases rule: channel_loop_split)
    case (stop s' i)
    then show ?thesis by (simp add: p)
  next
    case (go out s' w' outs' cs')
    have "chan_ok env k0 s" using Cons.prems(2) p by simp
    then have one: "chan_ok env k0 s' \<and> (k \<noteq> k0 \<longrightarrow> text_of k out = '''')"
      using finalizing_chan [OF fin go(1)] by blast
    have ih: "map fst cs' = map fst cs \<and> (st = None \<longrightarrow> chans_ok env cs') \<and>
        (k \<notin> fst ` set cs \<longrightarrow> text_of k outs' = '''')"
      using Cons.IH [OF go(2)] Cons.prems(2) p by simp
    then have "fst ` set cs' = fst ` set cs" by (metis list.set_map)
    then show ?thesis using one ih go(3,4) p Cons.prems(2) by auto
  qed
qed simp

subsection \<open>The contract of a release property\<close>

text \<open>
  \<open>idle k X R s w\<close>: channel \<open>k\<close> was given \<open>X\<close>, has released \<open>R\<close>, is in state \<open>s\<close> and no
  check is due; \<open>due\<close>: a check may be due; \<open>safe X R\<close>: what stays true when the stream is
  stopped. \<open>later\<close> is the order of time, \<open>fits\<close> bounds a delta.
\<close>

locale release_contract =
  fixes env :: "'w guard_env"
    and ok :: bool
    and fits :: "string \<Rightarrow> bool"
    and later :: "'w \<Rightarrow> 'w \<Rightarrow> bool"
    and idle :: "output_channel \<times> int \<Rightarrow> string \<Rightarrow> string \<Rightarrow> block_state \<Rightarrow> 'w \<Rightarrow> bool"
    and due :: "output_channel \<times> int \<Rightarrow> string \<Rightarrow> string \<Rightarrow> block_state \<Rightarrow> 'w \<Rightarrow> bool"
    and safe :: "string \<Rightarrow> string \<Rightarrow> bool"
  assumes later_refl: "later w w"
    and later_trans: "later w1 w2 \<Longrightarrow> later w2 w3 \<Longrightarrow> later w1 w3"
    and later_check: "ok \<Longrightarrow> later w (snd (pipeline_run (ge_pipeline env) inp w))"
    and later_now: "ok \<Longrightarrow> later w (snd (ge_now env w))"
    and idle_later: "idle k X R s w \<Longrightarrow> later w w' \<Longrightarrow> idle k X R s w'"
    and idle_due: "idle k X R s w \<Longrightarrow> due k X R s w"
    and fresh: "ok \<Longrightarrow> idle k '''' '''' (stashed env k) w"
    and buffered: "ok \<Longrightarrow> idle k X R s w \<Longrightarrow> fits tx \<Longrightarrow> ge_now env w = (tm, w1) \<Longrightarrow>
      qu_append tx tm (bs_quarantine s) = (ABuffer, q) \<Longrightarrow> idle k (X @ tx) R (s\<lparr>bs_quarantine := q\<rparr>) w1"
    and asked: "ok \<Longrightarrow> idle k X R s w \<Longrightarrow> fits tx \<Longrightarrow> ge_now env w = (tm, w1) \<Longrightarrow>
      qu_append tx tm (bs_quarantine s) = (ACheck, q) \<Longrightarrow> due k (X @ tx) R (s\<lparr>bs_quarantine := q\<rparr>) w1"
    and passed: "ok \<Longrightarrow> due k X R s w \<Longrightarrow> check_window env s w = (d, s1, w1) \<Longrightarrow> d \<noteq> Block \<Longrightarrow>
      collectFlush s1 = (out, s2) \<Longrightarrow> idle k X (R @ text_of k out) s2 w1"
    and due_safe: "due k X R s w \<Longrightarrow> safe X R"
    and safe_append: "safe X R \<Longrightarrow> safe (X @ tx) R"
    and due_chan: "due k X R s w \<Longrightarrow> chan_ok env k s"
begin

lemma idle_safe: "idle k X R s w \<Longrightarrow> safe X R"
  by (rule due_safe) (rule idle_due)

lemma idle_chan: "idle k X R s w \<Longrightarrow> chan_ok env k s"
  by (rule due_chan) (rule idle_due)

lemma safe_empty:
  assumes ok
  shows "safe X ''''"
  using safe_append [OF idle_safe [OF fresh [OF assms]], of X] by simp

lemma check_window_later:
  assumes ok "check_window env s w = (d, s1, w1)"
  shows "later w w1"
proof -
  obtain w0 where "later w w0" "w1 = snd (ge_now env w0)"
    using check_window_fields(3) [OF assms(2)] later_check [OF assms(1)]
    by (auto simp: guard_check_def Let_def split: prod.splits) (metis snd_conv)
  then show ?thesis using later_now [OF assms(1)] later_trans by blast
qed

lemma finalize_later:
  assumes ok
  shows "finalizePending env s w = (r, s1, w1) \<Longrightarrow> later w w1"
proof (induction "qu_pendingChars (bs_quarantine s)" arbitrary: s w r rule: less_induct)
  case less
  from less.prems show ?case
  proof (cases rule: finalize_cases)
    case (go d s1 w1 out s2 r2)
    show ?thesis
      by (rule later_trans [OF check_window_later [OF assms go(1)] less.hyps [OF go(6,4)]])
  qed (use check_window_later [OF assms] later_refl in auto)
qed

lemma finalize_idle:
  assumes ok
  shows "finalizePending env s w = (Inr out, s1, w1) \<Longrightarrow> idle k X R s w \<Longrightarrow>
    idle k X (R @ text_of k out) s1 w1"
proof (induction "qu_pendingChars (bs_quarantine s)" arbitrary: s w out R rule: less_induct)
  case less
  from less.prems(1) show ?case
  proof (cases rule: finalize_cases)
    case (stuck d s1 out)
    then show ?thesis using passed [OF assms idle_due [OF less.prems(2)] stuck(2,3,4)] by simp
  next
    case (go d s1 w1 out1 s2 r2)
    then obtain out2 where r2: "r2 = Inr out2" "out = out1 @ out2" by (cases r2) auto
    show ?thesis
      using less.hyps [OF go(6) go(4) [unfolded r2(1)] passed [OF assms idle_due [OF less.prems(2)] go(1,2,3)]]
        r2(2) by simp
  qed (use less.prems in auto)
qed

end

text \<open>What a delta does to any channel that goes on.\<close>

lemma on_delta_chan:
  assumes "chan_ok env k s" "on_delta env s tx w = (Inr out, s', w')"
  shows "chan_ok env k s' \<and> (\<forall>k'. k' \<noteq> k \<longrightarrow> text_of k' out = '''')"
proof -
  obtain tm w1 where n: "ge_now env w = (tm, w1)" by force
  obtain v q where a: "qu_append tx tm (bs_quarantine s) = (v, q)" by force
  note c = chan_ok_append(1) [OF assms(1) a]
  from on_delta_cases [OF assms n a] show ?thesis
  proof (elim disjE conjE exE)
    fix d s1
    assume cw: "check_window env (s\<lparr>bs_quarantine := q\<rparr>) w1 = (d, s1, w')"
      and r: "if d = Block then (Inr out :: stop_info + chunk list) = Inl (blocked_stop (bs_channel s) (qu_pendingChars (bs_quarantine s1))) \<and> s' = s1
         else \<exists>out'. (Inr out :: stop_info + chunk list) = Inr out' \<and> collectFlush s1 = (out', s')"
    then have "collectFlush s1 = (out, s')" by (auto split: if_splits)
    then show ?thesis using passed_window(1,4) [OF c cw] by blast
  qed (use c in auto)
qed

definition stream_inv ::
  "'w guard_env \<Rightarrow> (output_channel \<times> int \<Rightarrow> string \<Rightarrow> string \<Rightarrow> block_state \<Rightarrow> 'w \<Rightarrow> bool) \<Rightarrow>
   (string \<Rightarrow> string \<Rightarrow> bool) \<Rightarrow> output_channel \<times> int \<Rightarrow> string \<Rightarrow> 'w guard_state \<Rightarrow> bool" where
  "stream_inv env idle safe k X g \<longleftrightarrow>
     (gs_stopped g = None \<longrightarrow> chans_ok env (gs_channels g) \<and>
        (\<exists>s. map_of (gs_channels g) k = Some s \<and> idle k X (text_of k (gs_out g)) s (gs_world g))) \<and>
     safe X (text_of k (gs_out g))"

context release_contract begin

lemma on_delta_idle:
  assumes ok and i: "idle k X R s w" and f: "fits tx" and r: "on_delta env s tx w = (r, s', w')"
  shows "case r of Inr out \<Rightarrow> idle k (X @ tx) (R @ text_of k out) s' w' | Inl st \<Rightarrow> safe (X @ tx) R"
proof -
  obtain tm w1 where n: "ge_now env w = (tm, w1)" by force
  obtain v q where a: "qu_append tx tm (bs_quarantine s) = (v, q)" by force
  have sf: "safe (X @ tx) R" by (rule safe_append) (rule idle_safe [OF i])
  from on_delta_cases [OF idle_chan [OF i] r n a] show ?thesis
  proof (elim disjE conjE exE)
    assume "v = ABuffer" "r = Inr []" "s' = s\<lparr>bs_quarantine := q\<rparr>" "w' = w1"
    then show ?thesis using buffered [OF \<open>ok\<close> i f n] a by simp
  next
    fix d s1
    assume v: "v = ACheck" and cw: "check_window env (s\<lparr>bs_quarantine := q\<rparr>) w1 = (d, s1, w')"
      and r: "if d = Block then r = Inl (blocked_stop (bs_channel s) (qu_pendingChars (bs_quarantine s1))) \<and> s' = s1
         else \<exists>out. r = Inr out \<and> collectFlush s1 = (out, s')"
    have "due k (X @ tx) R (s\<lparr>bs_quarantine := q\<rparr>) w1"
      by (rule asked [OF \<open>ok\<close> i f n]) (use a v in simp)
    note p = passed [OF \<open>ok\<close> this cw]
    show ?thesis using r p sf by (cases "d = Block") auto
  qed (use sf in simp)
qed

lemma on_delta_later:
  assumes ok and c: "chan_ok env k s" and r: "on_delta env s tx w = (r, s', w')"
  shows "later w w'"
proof -
  obtain tm w1 where n: "ge_now env w = (tm, w1)" by force
  obtain v q where a: "qu_append tx tm (bs_quarantine s) = (v, q)" by force
  have "later w w1" using later_now [OF \<open>ok\<close>, of w] n by simp
  then show ?thesis
    using on_delta_cases [OF c r n a] check_window_later [OF \<open>ok\<close>] later_trans by blast
qed

lemma finalizing_idle:
  assumes ok "finalizing env act" "act s w = (Inr out, s', w')"
  shows "later w w' \<and> (idle k X R s w \<longrightarrow> idle k X (R @ text_of k out) s' w')"
  using assms(2,3)
proof (cases rule: finalizingD)
  case 2
  then show ?thesis using finalize_later [OF \<open>ok\<close> 2] finalize_idle [OF \<open>ok\<close> 2] by blast
qed (simp add: later_refl)

lemma loop_later:
  assumes ok and fin: "finalizing env act"
  shows "channel_loop act cs w = (st, outs, cs1, w1) \<Longrightarrow> later w w1"
proof (induction cs arbitrary: w outs cs1)
  case (Cons p cs)
  obtain k0 s0 where p: "p = (k0, s0)" by (cases p)
  have later_act: "later w w'" if "act s0 w = (r, s', w')" for r s' w'
    using fin that
  proof (cases rule: finalizingD)
    case 2
    then show ?thesis by (rule finalize_later [OF \<open>ok\<close>])
  qed (simp add: later_refl)
  from Cons.prems [unfolded p] show ?case
  proof (cases rule: channel_loop_split)
    case (go out s' w' outs' cs')
    show ?thesis by (rule later_trans [OF later_act [OF go(1)] Cons.IH [OF go(2)]])
  qed (use later_act in blast)
qed (simp add: later_refl)

lemma loop_idle:
  assumes ok and fin: "finalizing env act"
  shows "channel_loop act cs w = (st, outs, cs1, w1) \<Longrightarrow> chans_ok env cs \<Longrightarrow>
    map_of cs k = Some s \<Longrightarrow> idle k X R s w \<Longrightarrow>
    safe X (R @ text_of k outs) \<and>
    (st = None \<longrightarrow> (\<exists>s1. map_of cs1 k = Some s1 \<and> idle k X (R @ text_of k outs) s1 w1))"
proof (induction cs arbitrary: w outs cs1)
  case (Cons p cs)
  obtain k0 s0 where p: "p = (k0, s0)" by (cases p)
  from Cons.prems(1) [unfolded p] show ?case
  proof (cases rule: channel_loop_split)
    case (stop s' i)
    then show ?thesis using idle_safe [OF Cons.prems(4)] by simp
  next
    case (go out s' w' outs' cs')
    note one = finalizing_idle [OF \<open>ok\<close> fin go(1)]
    note rest = loop_chans [OF fin go(2)]
    have lw: "later w' w1" by (rule loop_later [OF \<open>ok\<close> fin go(2)])
    show ?thesis
    proof (cases "k0 = k")
      case True
      then have "idle k X (R @ text_of k out) s' w1"
        using one Cons.prems(3,4) p lw idle_later by (metis map_of_Cons_code(2) option.inject)
      moreover have "text_of k outs' = ''''"
        using rest Cons.prems(2) p True by auto
      ultimately show ?thesis using go(3,4) True idle_safe by auto
    next
      case False
      have "chan_ok env k0 s0" using Cons.prems(2) p by simp
      then have "text_of k out = ''''"
        using finalizing_chan [OF fin go(1)] False by metis
      moreover have iw: "idle k X R s w'" using one Cons.prems(4) idle_later by blast
      ultimately show ?thesis
        using Cons.IH [OF go(2) _ _ iw] Cons.prems(2,3) p False go(3,4) by simp
    qed
  qed
qed simp

lemma stream_inv_other:
  assumes "stream_inv env idle safe k X g" "gs_stopped g = None"
    and "chans_ok env (gs_channels g')" "map_of (gs_channels g') k = map_of (gs_channels g) k"
    and "gs_stopped g' = gs_stopped g" "text_of k (gs_out g') = text_of k (gs_out g)"
    and "later (gs_world g) (gs_world g')"
  shows "stream_inv env idle safe k X g'"
  using assms(1-6) idle_later [OF _ assms(7)] unfolding stream_inv_def by metis

lemma close_idle:
  assumes "stream_inv env idle safe k X g" "gs_stopped g = None"
    and "\<And>s. map_of (gs_channels g) k = Some s \<Longrightarrow> idle k X (text_of k (gs_out g)) s (gs_world g) \<Longrightarrow>
      safe X (text_of k (gs_out g) @ text_of k outs) \<and>
      (st = None \<longrightarrow> chans_ok env cs \<and>
        (\<exists>s1. map_of cs k = Some s1 \<and> idle k X (text_of k (gs_out g) @ text_of k outs) s1 w1))"
    and "delta_text k c = ''''"
  shows "stream_inv env idle safe k X (close_with c (st, outs, cs, w1) g)"
  using assms
  by (cases st) (auto simp: stream_inv_def close_with_def yield_chunks_def set_stopped_def)

lemma loop_close_idle:
  assumes ok "finalizing env act" "chans_ok env (gs_channels g)"
    and "channel_loop act (gs_channels g) (gs_world g) = (st, outs, cs, w1)"
    and "map_of (gs_channels g) k = Some s" "idle k X R s (gs_world g)"
  shows "safe X (R @ text_of k outs) \<and> (st = None \<longrightarrow> chans_ok env cs \<and>
      (\<exists>s1. map_of cs k = Some s1 \<and> idle k X (R @ text_of k outs) s1 w1))"
  using loop_idle [OF assms(1,2,4,3,5,6)] loop_chans [OF assms(2,4,3)] by blast

lemma step_close_idle:
  assumes ok "quarantining env" "stream_inv env idle safe k X g" "gs_stopped g = None" "delta_text k c = ''''"
  shows "stream_inv env idle safe k X (step_close env c g)"
proof -
  obtain st outs cs w1 where l: "channel_loop (finalizePending env) (gs_channels g) (gs_world g) = (st, outs, cs, w1)"
    using prod_cases4 by blast
  have co: "chans_ok env (gs_channels g)" using assms(3,4) by (simp add: stream_inv_def)
  note lc = loop_close_idle [OF \<open>ok\<close> finalizing_self co l]
  have "stream_inv env idle safe k X (close_with c (st, if st = None then outs else [], cs, w1) g)"
    by (rule close_idle [OF assms(3,4) _ assms(5)]) (use lc idle_safe in auto)
  then show ?thesis by (simp add: step_close_def finalizeAll_def l assms(2))
qed

lemma step_end_idle:
  assumes ok "quarantining env" "stream_inv env idle safe k X g" "gs_stopped g = None"
  shows "stream_inv env idle safe k X (guard_step env (BlockEnd i b) g)"
proof -
  obtain st outs cs w1 where l: "channel_loop (end_channel env i) (gs_channels g) (gs_world g) = (st, outs, cs, w1)"
    using prod_cases4 by blast
  have co: "chans_ok env (gs_channels g)" using assms(3,4) by (simp add: stream_inv_def)
  show ?thesis
    unfolding guard_step.simps l
    by (rule close_idle [OF assms(3,4)])
      (use loop_close_idle [OF \<open>ok\<close> finalizing_end [OF assms(2)] co l] in auto)
qed

lemma step_start_idle:
  assumes "quarantining env" "stream_inv env idle safe k X g" "gs_stopped g = None" "BlockStart i bt \<noteq> start_of k"
  shows "stream_inv env idle safe k X (step_start env i bt g)"
proof (rule stream_inv_other [OF assms(2,3)])
  have co: "chans_ok env (gs_channels g)" using assms(2,3) by (simp add: stream_inv_def)
  have new: "(ch, i) \<noteq> k" if "channelFor bt = Some ch" for ch
    using that assms(4) by (auto simp: start_of_def channelFor_name)
  have put: "createState env ch i\<lparr>bs_quarantine := stashBlockStart (BlockStart i bt) (bs_quarantine (createState env ch i))\<rparr>
      = stashed env (ch, i)" if "channelFor bt = Some ch" for ch
    using that by (simp add: stashed_def Let_def start_of_def channelFor_name)
  show "chans_ok env (gs_channels (step_start env i bt g))"
    using co assms(1) put chan_ok_stashed [of env] chan_ok_create [of env]
    by (auto simp: step_start_def Let_def put_channel_def yield_chunks_def intro!: chans_ok_put split: option.split)
  show "map_of (gs_channels (step_start env i bt g)) k = map_of (gs_channels g) k"
    using new by (auto simp: step_start_def Let_def put_channel_def yield_chunks_def split: option.split)
  show "text_of k (gs_out (step_start env i bt g)) = text_of k (gs_out g)"
    by (auto simp: step_start_def Let_def put_channel_def yield_chunks_def split: option.split)
qed (auto simp: step_start_def Let_def put_channel_def yield_chunks_def later_refl split: option.split)

lemma step_delta_idle:
  assumes ok and q: "quarantining env" and inv: "stream_inv env idle safe k X g" and run: "gs_stopped g = None"
    and f: "(ch, i) = k \<Longrightarrow> fits tx"
  shows "stream_inv env idle safe k (X @ (if (ch, i) = k then tx else '''')) (step_delta env ch i tx g)"
proof (cases "map_of (gs_channels g) (ch, i)")
  case None
  then have "(ch, i) \<noteq> k" using inv run by (auto simp: stream_inv_def)
  then show ?thesis
    using None inv run by (auto simp: step_delta_def stream_inv_def yield_chunks_def)
next
  case (Some s)
  obtain r s1 w1 where d: "on_delta env s tx (gs_world g) = (r, s1, w1)" using prod_cases3 by blast
  have co: "chans_ok env (gs_channels g)" using inv run by (simp add: stream_inv_def)
  note cs = chans_ok_get [OF co Some]
  note lw = on_delta_later [OF \<open>ok\<close> cs d]
  obtain sk where sk: "map_of (gs_channels g) k = Some sk" "idle k X (text_of k (gs_out g)) sk (gs_world g)"
    using inv run by (auto simp: stream_inv_def)
  have sf: "safe X (text_of k (gs_out g))" using inv by (simp add: stream_inv_def)
  show ?thesis
  proof (cases r)
    case (Inl st)
    then show ?thesis
      using Some d q sf run safe_append
      by (auto simp: step_delta_def put_channel_def set_stopped_def stream_inv_def Let_def)
  next
    case (Inr out)
    note oc = on_delta_chan [OF cs d [unfolded Inr]]
    have put: "chans_ok env (amap_set (ch, i) s1 (gs_channels g))"
      by (rule chans_ok_put [OF co]) (use oc in blast)
    show ?thesis
    proof (cases "(ch, i) = k")
      case True
      have "idle k (X @ tx) (text_of k (gs_out g) @ text_of k out) s1 w1"
        using on_delta_idle [OF \<open>ok\<close> sk(2) f [OF True], of r s1 w1] d sk(1) Some True Inr by simp
      then show ?thesis
        using Some d q run put True Inr idle_safe
        by (auto simp: step_delta_def put_channel_def yield_chunks_def stream_inv_def Let_def)
    next
      case False
      then have "text_of k out = ''''" using oc by metis
      then show ?thesis
        using Some d q run put False Inr sf sk idle_later [OF sk(2) lw]
        by (auto simp: step_delta_def put_channel_def yield_chunks_def stream_inv_def Let_def)
    qed
  qed
qed

lemma step_idle:
  assumes ok "quarantining env" "stream_inv env idle safe k X g" "gs_stopped g = None"
    and "c \<noteq> start_of k" "fits (delta_text k c)"
  shows "stream_inv env idle safe k (X @ delta_text k c) (guard_step env c g)"
proof (cases c)
  case (TextDelta i tx)
  then show ?thesis using step_delta_idle [OF assms(1-4), of OText i tx] assms(6) by auto
next
  case (ReasoningDelta i tx)
  then show ?thesis using step_delta_idle [OF assms(1-4), of OReasoning i tx] assms(6) by auto
next
  case (BlockStart i bt)
  then show ?thesis using step_start_idle [OF assms(2-4)] assms(5) by simp
next
  case (ToolCallDelta i a b d)
  then show ?thesis using assms(3,4) by (auto simp: stream_inv_def yield_chunks_def)
qed (use step_end_idle [OF assms(1-4)] step_close_idle [OF assms(1-4)] in \<open>simp_all del: step_close_def\<close>)

lemma run_idle:
  assumes ok "quarantining env"
  shows "stream_inv env idle safe k X g \<Longrightarrow> start_of k \<notin> set cs \<Longrightarrow>
    (\<forall>c \<in> set cs. fits (delta_text k c)) \<Longrightarrow> stream_inv env idle safe k (X @ text_of k cs) (guard_run env cs g)"
proof (induction cs arbitrary: X g)
  case (Cons c cs)
  show ?case
  proof (cases "gs_stopped g = None")
    case True
    have "stream_inv env idle safe k (X @ delta_text k c) (guard_step env c g)"
      using step_idle [OF assms Cons.prems(1) True] Cons.prems(2,3) by auto
    then show ?thesis using Cons.IH True Cons.prems(2,3) by fastforce
  next
    case False
    then show ?thesis using Cons.prems(1) safe_append by (auto simp: stream_inv_def)
  qed
qed simp

end

subsection \<open>Whole streams\<close>

text \<open>The channel is opened exactly once, before its first text.\<close>

definition opens_once :: "output_channel \<times> int \<Rightarrow> chunk list \<Rightarrow> bool" where
  "opens_once k cs =
     (case dropWhile (\<lambda>c. c \<noteq> start_of k) cs of
        [] \<Rightarrow> False
      | _ # post \<Rightarrow> start_of k \<notin> set post \<and> text_of k (takeWhile (\<lambda>c. c \<noteq> start_of k) cs) = '''')"

lemma opens_onceE:
  assumes "opens_once k cs"
  obtains pre post where "cs = pre @ start_of k # post" "start_of k \<notin> set pre" "start_of k \<notin> set post"
    "text_of k pre = ''''"
proof (cases "dropWhile (\<lambda>c. c \<noteq> start_of k) cs")
  case (Cons c post)
  then have c: "c = start_of k" using hd_dropWhile [of "\<lambda>c. c \<noteq> start_of k" cs] by auto
  show ?thesis
  proof (rule that)
    show "cs = takeWhile (\<lambda>c. c \<noteq> start_of k) cs @ start_of k # post"
      using takeWhile_dropWhile_id [of "\<lambda>c. c \<noteq> start_of k" cs] Cons c by simp
    show "start_of k \<notin> set (takeWhile (\<lambda>c. c \<noteq> start_of k) cs)" by (auto dest: set_takeWhileD)
  qed (use assms Cons in \<open>simp_all add: opens_once_def\<close>)
next
  case Nil
  with assms show ?thesis by (simp only: opens_once_def list.case)
qed

definition guarding :: "'w guard_env \<Rightarrow> output_channel \<Rightarrow> bool" where
  "guarding env ch \<longleftrightarrow> \<not> isGateOff env \<and> oc_enabled (ge_output env) \<and> quarantining env \<and> channel_on env ch"

definition not_open :: "'w guard_env \<Rightarrow> output_channel \<times> int \<Rightarrow> 'w guard_state \<Rightarrow> bool" where
  "not_open env k g \<longleftrightarrow> text_of k (gs_out g) = '''' \<and>
     (gs_stopped g = None \<longrightarrow> chans_ok env (gs_channels g) \<and> k \<notin> fst ` set (gs_channels g))"

lemma guard_run_stopped: "gs_stopped g \<noteq> None \<Longrightarrow> guard_run env cs g = g"
  by (cases cs) auto

lemma guard_run_append: "guard_run env (xs @ ys) g = guard_run env ys (guard_run env xs g)"
  by (induction xs arbitrary: g) (auto simp: guard_run_stopped)

lemma close_not_open:
  assumes "not_open env k g" "gs_stopped g = None" "finalizing env act" "delta_text k c = ''''"
    and "channel_loop act (gs_channels g) (gs_world g) = (st, outs, cs, w1)"
    and "outs' = outs \<or> outs' = []"
  shows "not_open env k (close_with c (st, outs', cs, w1) g)"
proof -
  have "chans_ok env (gs_channels g)" "k \<notin> fst ` set (gs_channels g)"
    using assms(1,2) by (simp_all add: not_open_def)
  with loop_chans [OF assms(3,5), of k]
  have l0: "st = None \<longrightarrow> chans_ok env cs" "text_of k outs = ''''"
    and keys: "map fst cs = map fst (gs_channels g)" by auto
  have l1: "k \<notin> fst ` set cs"
    using arg_cong [OF keys, of set] \<open>k \<notin> _\<close> by simp
  note l = l0 l1
  show ?thesis
    using l assms(1,2,4,6)
    by (cases st) (auto simp: not_open_def close_with_def yield_chunks_def set_stopped_def)
qed

lemma step_not_open:
  assumes q: "quarantining env" and n: "not_open env k g" and run: "gs_stopped g = None"
    and c: "c \<noteq> start_of k" "delta_text k c = ''''"
  shows "not_open env k (guard_step env c g)"
proof -
  have co: "chans_ok env (gs_channels g)" "k \<notin> fst ` set (gs_channels g)" "text_of k (gs_out g) = ''''"
    using n run by (simp_all add: not_open_def)
  have delta: "not_open env k (step_delta env ch i tx g)" if t: "(ch, i) = k \<Longrightarrow> tx = ''''" for ch i tx
  proof (cases "map_of (gs_channels g) (ch, i)")
    case None
    then show ?thesis using n run t by (auto simp: step_delta_def not_open_def yield_chunks_def)
  next
    case (Some s)
    then have ne: "k \<noteq> (ch, i)" using co(2) by (force dest: map_of_SomeD)
    obtain r s1 w1 where d: "on_delta env s tx (gs_world g) = (r, s1, w1)" using prod_cases3 by blast
    show ?thesis
    proof (cases r)
      case (Inl st)
      then show ?thesis using Some d q co run
        by (auto simp: step_delta_def put_channel_def set_stopped_def not_open_def Let_def)
    next
      case (Inr out)
      note oc = on_delta_chan [OF chans_ok_get [OF co(1) Some] d [unfolded Inr]]
      have "chans_ok env (amap_set (ch, i) s1 (gs_channels g))" "text_of k out = ''''"
        using chans_ok_put [OF co(1)] oc ne by metis+
      then show ?thesis using Some d q co run Inr ne
        by (auto simp: step_delta_def put_channel_def yield_chunks_def not_open_def keys_amap_set Let_def)
    qed
  qed
  show ?thesis
  proof (cases c)
    case (BlockStart i bt)
    have new: "(ch, i) \<noteq> k" if "channelFor bt = Some ch" for ch
      using that c(1) BlockStart by (auto simp: start_of_def channelFor_name)
    have put: "createState env ch i\<lparr>bs_quarantine := stashBlockStart (BlockStart i bt) (bs_quarantine (createState env ch i))\<rparr>
        = stashed env (ch, i)" if "channelFor bt = Some ch" for ch
      using that by (simp add: stashed_def Let_def start_of_def channelFor_name)
    show ?thesis
      using co run new put q BlockStart chan_ok_stashed [of env]
      by (auto simp: step_start_def Let_def put_channel_def yield_chunks_def not_open_def keys_amap_set
          intro!: chans_ok_put split: option.split)
  next
    case (BlockEnd i b)
    obtain st outs cs w1 where l: "channel_loop (end_channel env i) (gs_channels g) (gs_world g) = (st, outs, cs, w1)"
      using prod_cases4 by blast
    show ?thesis
      using close_not_open [OF n run finalizing_end [OF q] _ l, of "BlockEnd i b" outs] l BlockEnd by simp
  next
    case (Usage u)
    obtain st outs cs w1 where l: "channel_loop (finalizePending env) (gs_channels g) (gs_world g) = (st, outs, cs, w1)"
      using prod_cases4 by blast
    show ?thesis
      using close_not_open [OF n run finalizing_self _ l, of c] l Usage q
      by (simp add: step_close_def finalizeAll_def)
  next
    case (Finish u)
    obtain st outs cs w1 where l: "channel_loop (finalizePending env) (gs_channels g) (gs_world g) = (st, outs, cs, w1)"
      using prod_cases4 by blast
    show ?thesis
      using close_not_open [OF n run finalizing_self _ l, of c] l Finish q
      by (simp add: step_close_def finalizeAll_def)
  next
    case (TextDelta i tx)
    show ?thesis unfolding TextDelta guard_step.simps
      by (rule delta) (use c(2) TextDelta in auto)
  next
    case (ReasoningDelta i tx)
    show ?thesis unfolding ReasoningDelta guard_step.simps
      by (rule delta) (use c(2) ReasoningDelta in auto)
  qed (use n run in \<open>simp add: not_open_def yield_chunks_def\<close>)
qed

lemma run_not_open:
  "quarantining env \<Longrightarrow> not_open env k g \<Longrightarrow> start_of k \<notin> set cs \<Longrightarrow> text_of k cs = '''' \<Longrightarrow>
   not_open env k (guard_run env cs g)"
proof (induction cs arbitrary: g)
  case (Cons c cs)
  then show ?case using step_not_open [of env k g c] by (cases "gs_stopped g = None") auto
qed simp

context release_contract begin

lemma run_opened:
  assumes ok "guarding env (fst k)" "opens_once k cs" "\<forall>c \<in> set cs. fits (delta_text k c)"
  shows "stream_inv env idle safe k (text_of k cs) (guard_run env cs (new_guard w)) \<or>
    text_of k (gs_out (guard_run env cs (new_guard w))) = '''' \<and> gs_stopped (guard_run env cs (new_guard w)) \<noteq> None"
proof -
  from assms(3) obtain pre post where cs: "cs = pre @ start_of k # post" "start_of k \<notin> set pre"
    "start_of k \<notin> set post" "text_of k pre = ''''" by (rule opens_onceE)
  have q: "quarantining env" "channel_on env (fst k)" using assms(2) by (simp_all add: guarding_def)
  let ?g = "guard_run env pre (new_guard w)"
  have n: "not_open env k ?g"
    by (rule run_not_open [OF q(1) _ cs(2,4)]) (simp add: not_open_def new_guard_def)
  show ?thesis
  proof (cases "gs_stopped ?g = None")
    case True
    have "guard_step env (start_of k) ?g = put_channel k (stashed env k) ?g"
      using q by (cases k) (simp add: start_of_def step_start_def channelFor_name [THEN iffD2] stashed_def Let_def)
    moreover have "stream_inv env idle safe k '''' (put_channel k (stashed env k) ?g)"
      using n True fresh [OF \<open>ok\<close>, of k] safe_empty [OF \<open>ok\<close>] chan_ok_stashed [of env k]
      by (auto simp: stream_inv_def put_channel_def not_open_def intro!: chans_ok_put)
    ultimately have "stream_inv env idle safe k '''' (guard_step env (start_of k) ?g)" by simp
    from run_idle [OF \<open>ok\<close> q(1) this cs(3)] show ?thesis
      using cs assms(4) True by (simp add: guard_run_append delta_text_other start_of_def)
  next
    case False
    then show ?thesis using n cs(1) by (simp add: guard_run_append guard_run_stopped not_open_def)
  qed
qed

theorem stream_safe:
  assumes ok "guarding env (fst k)" "opens_once k cs" "\<forall>c \<in> set cs. fits (delta_text k c)"
  shows "safe (text_of k cs) (text_of k (gr_out (guardOutputStream env cs w)))"
proof -
  have "text_of k (gr_out (guardOutputStream env cs w)) = text_of k (gs_out (guard_run env cs (new_guard w)))"
    using assms(2)
    by (simp add: guardOutputStream_def guarding_def Let_def blockedFinish_def split: option.split prod.split)
  moreover have "safe (text_of k cs) (text_of k (gs_out (guard_run env cs (new_guard w))))"
    using run_opened [OF assms, of w] safe_empty [OF \<open>ok\<close>] by (auto simp: stream_inv_def)
  ultimately show ?thesis by simp
qed

end

end
