(* ===== verification/StreamPhrase.thy ===== *)
theory StreamPhrase
  imports StreamSafety
begin

text \<open>
  The two release properties of the output stream guard, as interpretations of
  \<open>release_contract\<close>: the released text is what came in, in order, and a phrase that the
  scanner blocks is never released, also when it is split over chunks and checks.
\<close>

subsection \<open>Order and completeness\<close>

definition order_idle :: "'w guard_env \<Rightarrow> output_channel \<times> int \<Rightarrow> string \<Rightarrow> string \<Rightarrow> block_state \<Rightarrow> 'w \<Rightarrow> bool" where
  "order_idle env k X R s w \<longleftrightarrow> chan_ok env k s \<and> X = R @ qtext s"

interpretation order: release_contract env True "\<lambda>_. True" "\<lambda>_ _. True" "order_idle env" "order_idle env"
    "\<lambda>X R. prefix R X"
  for env
proof
  fix k X R s w d s1 w1 out s2
  assume "order_idle env k X R s w" "check_window env s w = (d, s1, w1)" "collectFlush s1 = (out, s2)"
  then show "order_idle env k X (R @ text_of k out) s2 w1"
    using passed_window(1,2,3) [of env k s w d s1 w1 out s2] by (simp add: order_idle_def)
qed (auto simp: order_idle_def chan_ok_stashed dest: chan_ok_append)

lemma loop_drained:
  assumes "0 < qo_windowChars (oc_quarantine (ge_output env))"
  shows "channel_loop (finalizePending env) cs w = (None, outs, cs1, w1) \<Longrightarrow> chans_ok env cs \<Longrightarrow>
    \<forall>(k, s) \<in> set cs1. qtext s = ''''"
proof (induction cs arbitrary: w outs cs1)
  case (Cons p cs)
  obtain k0 s0 where p: "p = (k0, s0)" by (cases p)
  from Cons.prems(1) [unfolded p] show ?case
  proof (cases rule: channel_loop_split)
    case (go out s' w' outs' cs')
    have "qtext s' = ''''"
      by (rule finalize_drained [OF assms go(1), of k0]) (use Cons.prems(2) p in simp)
    then show ?thesis using Cons.IH [OF go(2)] Cons.prems(2) p go(4) by simp
  qed simp
qed simp

lemma opens_onceI:
  assumes "start_of k \<notin> set pre" "start_of k \<notin> set post" "text_of k pre = ''''"
  shows "opens_once k (pre @ start_of k # post)"
proof -
  have "dropWhile (\<lambda>c. c \<noteq> start_of k) (pre @ start_of k # post) = start_of k # post"
    using assms(1) by (subst dropWhile_append2) auto
  moreover have "takeWhile (\<lambda>c. c \<noteq> start_of k) (pre @ start_of k # post) = pre"
    using assms(1) by (subst takeWhile_append2) auto
  ultimately show ?thesis using assms(2,3) by (simp add: opens_once_def)
qed

lemma opens_once_butlast:
  assumes "opens_once k (cs @ [Finish r])"
  shows "opens_once k cs"
proof -
  from assms obtain pre post where e: "cs @ [Finish r] = pre @ start_of k # post" "start_of k \<notin> set pre"
    "start_of k \<notin> set post" "text_of k pre = ''''" by (rule opens_onceE)
  have "post \<noteq> []" using e(1) by (auto simp: start_of_def)
  then obtain post' c where "post = post' @ [c]" by (metis rev_exhaust)
  then have "cs = pre @ start_of k # post'" using e(1) by simp
  then show ?thesis using e \<open>post = _\<close> by (auto intro: opens_onceI)
qed

lemma finished_complete:
  assumes "guarding env (fst k)" "opens_once k (cs @ [Finish r])"
    and "0 < qo_windowChars (oc_quarantine (ge_output env))"
    and "gs_stopped (guard_run env (cs @ [Finish r]) (new_guard w)) = None"
  shows "text_of k (gr_out (guardOutputStream env (cs @ [Finish r]) w)) = text_of k cs"
proof -
  let ?g = "guard_run env cs (new_guard w)"
  let ?h = "guard_run env (cs @ [Finish r]) (new_guard w)"
  have run: "gs_stopped ?g = None" and step: "?h = step_close env (Finish r) ?g"
    using assms(4) guard_run_stopped [of ?g env "[Finish r]"] by (auto simp: guard_run_append split: if_splits)
  have q: "quarantining env" using assms(1) by (simp add: guarding_def)
  obtain st outs cs1 w1 where l: "channel_loop (finalizePending env) (gs_channels ?g) (gs_world ?g) = (st, outs, cs1, w1)"
    using prod_cases4 by blast
  have none: "st = None" and ch: "gs_channels ?h = cs1"
    using assms(4) run q l by (cases st; auto simp: step step_close_def finalizeAll_def close_with_def
        yield_chunks_def set_stopped_def)+
  have inv: "stream_inv env (order_idle env) (\<lambda>X R. prefix R X) k (text_of k (cs @ [Finish r])) ?h"
    using order.run_opened [OF TrueI assms(1,2), of w] assms(4) by auto
  then obtain s where s: "map_of cs1 k = Some s" "text_of k (cs @ [Finish r]) = text_of k (gs_out ?h) @ qtext s"
    using assms(4) ch by (auto simp: stream_inv_def order_idle_def)
  have "chans_ok env (gs_channels ?g)"
    using order.run_opened [OF TrueI assms(1) opens_once_butlast [OF assms(2)], of w] run
    by (auto simp: stream_inv_def)
  then have "qtext s = ''''"
    using loop_drained [OF assms(3) l [unfolded none]] s(1) by (auto dest: map_of_SomeD)
  then show ?thesis
    using s(2) assms(1,4) by (simp add: guardOutputStream_def guarding_def Let_def)
qed


subsection \<open>A blocked phrase\<close>

text \<open>
  The assumptions on the surroundings: the scanner blocks every content with the phrase, the
  gate enforces, the clock does not run backwards, checks are not spaced in time, and the
  window leaves room for the phrase beside the largest buffer a check can meet (one threshold
  and one delta of at most \<open>d\<close> characters).
\<close>

definition scanner_blocks :: "'w guard_env \<Rightarrow> string \<Rightarrow> bool" where
  "scanner_blocks env P \<longleftrightarrow>
     (\<forall>c. sublist P c \<longrightarrow> (\<exists>r. pl_scan (ge_pipeline env) True c = Some r \<and> sc_decision r = Block))"

definition clock_ok :: "'w guard_env \<Rightarrow> ('w \<Rightarrow> int) \<Rightarrow> bool" where
  "clock_ok env tm \<longleftrightarrow>
     (\<forall>w. fst (ge_now env w) = tm w \<and> tm w \<le> tm (snd (ge_now env w)) \<and>
        (\<forall>inp. tm w \<le> tm (snd (pipeline_run (ge_pipeline env) inp w))))"

definition room_for :: "'w guard_env \<Rightarrow> string \<Rightarrow> nat \<Rightarrow> bool" where
  "room_for env P d \<longleftrightarrow>
     (let o' = oc_quarantine (ge_output env) in
      P \<noteq> '''' \<and> 0 < qo_checkEveryChars o' \<and> qo_minCheckIntervalMs o' \<le> 0 \<and>
      0 < qo_lookbehindChars o' \<and> int (length P) \<le> qo_lookbehindChars o' + 1 \<and>
      qo_checkEveryChars o' + int d + int (length P) \<le> qo_windowChars o' + 2)"

definition phrase_ok :: "'w guard_env \<Rightarrow> ('w \<Rightarrow> int) \<Rightarrow> string \<Rightarrow> nat \<Rightarrow> bool" where
  "phrase_ok env tm P d \<longleftrightarrow> scanner_blocks env P \<and> ge_mode env = GateEnforce \<and> clock_ok env tm \<and> room_for env P d"

lemma blocked_check:
  assumes "scanner_blocks env P" "ge_mode env = GateEnforce" "sublist P content"
  shows "fst (guard_check env s content w) = Block"
proof -
  obtain r where r: "pl_scan (ge_pipeline env) True content = Some r" "sc_decision r = Block"
    using assms(1,3) by (auto simp: scanner_blocks_def)
  have "vd_decision (mv_verdict (mergeL0L1 r l1 fl)) = Block" for l1 fl
    using merged_ge_l0 [of r l1 fl] r(2) block_top by simp
  then show ?thesis
    using r assms(2)
    by (auto simp: guard_check_def pipeline_run_def Let_def applyGateMode_def
        split: option.splits prod.splits sum.splits)
qed

text \<open>The seam: a phrase of a concatenation lies in the left part, or in its end and the right part.\<close>

lemma sublist_seam:
  assumes b: "suffix B R" "min (length R) (length P - 1) \<le> length B" and s: "sublist P (R @ T)"
  shows "sublist P R \<or> sublist P (B @ T)"
proof -
  obtain us vs where e: "R @ T = us @ P @ vs" using s by (auto simp: sublist_def)
  obtain A where A: "R = A @ B" using b(1) by (auto simp: suffix_def)
  show ?thesis
  proof (cases "length us + length P \<le> length R")
    case True
    have "take (length R) (R @ T) = us @ P @ take (length R - length us - length P) vs"
      using True by (simp add: e)
    then have "R = us @ P @ take (length R - length us - length P) vs" by simp
    then show ?thesis by (metis sublist_appendI)
  next
    case False
    then have le: "length A \<le> length us" using b(2) A by (auto simp: min_def split: if_splits)
    have "drop (length A) (R @ T) = drop (length A) us @ P @ vs" using le by (simp add: e)
    then have "B @ T = drop (length A) us @ P @ vs" using A by simp
    then show ?thesis by (metis sublist_appendI)
  qed
qed

definition tail_ok :: "string \<Rightarrow> released_tail \<Rightarrow> bool" where
  "tail_ok R t \<longleftrightarrow> suffix (rt_text t) R \<and> min (int (length R)) (rt_lookbehindChars t) \<le> int (length (rt_text t))"

lemma slice_last:
  "0 < n \<Longrightarrow> slice_from xs (- n) = drop (length xs - nat n) xs"
  using slice_from_neg [of "nat n" xs] by simp

lemma length_slice_last: "0 < n \<Longrightarrow> length (slice_from xs (- n)) = min (nat n) (length xs)"
  by (simp add: slice_last)

lemma tail_ok_append:
  assumes "tail_ok R t" "0 < rt_lookbehindChars t"
  shows "tail_ok (R @ tx) (tail_append tx t)"
proof (cases "int (length (rt_text t) + length tx) > rt_lookbehindChars t * 4")
  case True
  define u where "u = rt_text t @ tx"
  have u: "suffix u (R @ tx)" using assms(1) by (simp add: tail_ok_def u_def)
  have new: "rt_text (tail_append tx t) = drop (length u - nat (rt_lookbehindChars t)) u"
    using True assms(2) by (simp add: tail_append_def slice_last u_def)
  have "suffix (rt_text (tail_append tx t)) (R @ tx)"
    unfolding new by (rule suffix_order.trans [OF suffix_drop u])
  moreover have "length (rt_text (tail_append tx t)) = nat (rt_lookbehindChars t)"
    unfolding new using True assms(2) by (simp add: u_def)
  ultimately show ?thesis using assms(2) by (simp add: tail_ok_def tail_append_def)
next
  case False
  then show ?thesis using assms(1) by (auto simp: tail_ok_def tail_append_def)
qed

lemma tail_ok_fold:
  "tail_ok R t \<Longrightarrow> 0 < rt_lookbehindChars t \<Longrightarrow> tail_ok (R @ concat ts) (fold tail_append ts t)"
proof (induction ts arbitrary: R t)
  case (Cons x ts)
  have "0 < rt_lookbehindChars (tail_append x t)" using Cons.prems(2) by (simp add: tail_append_def)
  from Cons.IH [OF tail_ok_append [OF Cons.prems, of x] this] show ?case by simp
qed simp

text \<open>With room in the window the snapshot is the seam and everything pending.\<close>

lemma snapshot_seam:
  assumes t: "tail_ok R t" "rt_lookbehindChars t = qo_lookbehindChars (qu_options q)"
    and L: "0 < qo_lookbehindChars (qu_options q)" "int (length P) \<le> qo_lookbehindChars (qu_options q) + 1"
    and W: "int (length (qu_text q)) + int (length P) \<le> qo_windowChars (qu_options q) + 1" "P \<noteq> ''''"
  shows "\<exists>B. fst (snapshotText (tail_tail t) q) = B @ qu_text q \<and> suffix B R \<and>
    min (length R) (length P - 1) \<le> length B"
proof -
  let ?L = "qo_lookbehindChars (qu_options q)" and ?W = "qo_windowChars (qu_options q)"
  let ?r = "?W - int (length (qu_text q))"
  have pw: "1 \<le> length P" using W(2) by (cases P) auto
  have p: "slice_to (concat (qu_pending q)) ?W = qu_text q"
    using W pw by (simp add: slice_to_nonneg qu_text_def)
  define B where "B = (if ?r > 0 then slice_from (slice_from (tail_tail t) (- ?L)) (- ?r) else '''')"
  have "fst (snapshotText (tail_tail t) q) = B @ qu_text q"
    by (simp add: snapshotText_def Let_def p B_def)
  moreover have "suffix B R"
  proof -
    have sf: "suffix (slice_from xs i) xs" for xs :: string and i
      by (simp add: slice_from_def suffix_drop)
    have "suffix (slice_from (slice_from (slice_from xs i) j) l) xs" for xs :: string and i j l
      by (rule suffix_order.trans [OF sf suffix_order.trans [OF sf sf]])
    then have "suffix B (rt_text t)" by (simp add: B_def tail_tail_def)
    then show ?thesis using t(1) suffix_order.order_trans by (auto simp: tail_ok_def)
  qed
  moreover have "min (length R) (length P - 1) \<le> length B"
  proof (cases "?r > 0")
    case True
    have B: "B = slice_from (slice_from (slice_from (rt_text t) (- ?L)) (- ?L)) (- ?r)"
      using True t(2) by (simp only: B_def tail_tail_def if_True)
    have "length B = min (nat ?r) (min (nat ?L) (min (nat ?L) (length (rt_text t))))"
      unfolding B by (simp only: length_slice_last [OF True] length_slice_last [OF L(1)])
    then show ?thesis using t W L True by (auto simp: tail_ok_def min_def split: if_splits)
  next
    case False
    then have "length P = 1" using W pw by simp
    then show ?thesis by simp
  qed
  ultimately show ?thesis by blast
qed


definition phrase_due :: "'w guard_env \<Rightarrow> ('w \<Rightarrow> int) \<Rightarrow> string \<Rightarrow> output_channel \<times> int \<Rightarrow> string \<Rightarrow> string \<Rightarrow> block_state \<Rightarrow> 'w \<Rightarrow> bool" where
  "phrase_due env tm P k X R s w \<longleftrightarrow>
     chan_ok env k s \<and> tail_ok R (bs_tail s) \<and> \<not> sublist P R \<and>
     int (length (qtext s)) + int (length P) \<le> qo_windowChars (oc_quarantine (ge_output env)) + 1"

definition phrase_idle :: "'w guard_env \<Rightarrow> ('w \<Rightarrow> int) \<Rightarrow> string \<Rightarrow> output_channel \<times> int \<Rightarrow> string \<Rightarrow> string \<Rightarrow> block_state \<Rightarrow> 'w \<Rightarrow> bool" where
  "phrase_idle env tm P k X R s w \<longleftrightarrow>
     phrase_due env tm P k X R s w \<and>
     qu_charsSinceCheck (bs_quarantine s) = length (qtext s) \<and>
     int (length (qtext s)) < qo_checkEveryChars (oc_quarantine (ge_output env)) \<and>
     (qu_checksStarted (bs_quarantine s) = 0 \<or> qu_lastCheckAt (bs_quarantine s) \<le> tm w)"

lemma phrase_passed:
  assumes ok: "phrase_ok env tm P d" and due: "phrase_due env tm P k X R s w"
    and c: "check_window env s w = (dec, s1, w1)" and nb: "dec \<noteq> Block" and f: "collectFlush s1 = (out, s2)"
  shows "phrase_idle env tm P k X (R @ text_of k out) s2 w1"
proof -
  let ?o = "oc_quarantine (ge_output env)"
  have D: "chan_ok env k s" "tail_ok R (bs_tail s)" "\<not> sublist P R"
    "int (length (qtext s)) + int (length P) \<le> qo_windowChars ?o + 1"
    using due by (simp_all add: phrase_due_def)
  have O: "scanner_blocks env P" "ge_mode env = GateEnforce" "clock_ok env tm" "P \<noteq> ''''"
    "0 < qo_lookbehindChars ?o" "int (length P) \<le> qo_lookbehindChars ?o + 1" "0 < qo_checkEveryChars ?o"
    "qo_checkEveryChars ?o + int d + int (length P) \<le> qo_windowChars ?o + 2"
    using ok by (simp_all add: phrase_ok_def room_for_def Let_def)
  have opts: "qu_options (bs_quarantine s) = ?o" "rt_lookbehindChars (bs_tail s) = qo_lookbehindChars ?o"
    using D(1) by (simp_all add: chan_ok_def)
  note p = passed_window [OF D(1) c f]
  obtain B where B: "fst (snapshotText (tail_tail (bs_tail s)) (bs_quarantine s)) = B @ qtext s" "suffix B R"
      "min (length R) (length P - 1) \<le> length B"
    using snapshot_seam [OF D(2), of "bs_quarantine s" P] opts O D(4) by auto
  have all: "covered env (qtext s) = length (qtext s)"
  proof -
    have "1 \<le> length P" using O(4) by (cases P) auto
    then show ?thesis using D(4) by (simp add: slice_to_nonneg)
  qed
  have "\<not> sublist P (B @ qtext s)"
    using blocked_check [OF O(1,2), of "B @ qtext s" s w] nb check_window_fields(2) [OF c] B(1) by auto
  then have clean: "\<not> sublist P (R @ qtext s)"
    using sublist_seam [OF B(2,3), of "qtext s"] D(3) by blast
  have rel: "text_of k out = qtext s" "qtext s2 = ''''" using p(2,3) all by simp_all
  have "tail_ok (R @ text_of k out) (bs_tail s2)"
    using tail_ok_fold [OF D(2), of "fl_texts (fst (qu_flush (bs_quarantine s1)))"] p(5,6) opts O(5) by simp
  moreover have "qu_lastCheckAt (bs_quarantine s2) \<le> tm w1"
  proof -
    obtain q t where q: "s1 = s\<lparr>bs_quarantine := qu_markChecked t q\<rparr>"
      "t = fst (ge_now env (snd (guard_check env s (fst (snapshotText (tail_tail (bs_tail s)) (bs_quarantine s))) w)))"
      using check_window_fields(1) [OF c] by blast
    then have "qu_lastCheckAt (bs_quarantine s1) \<le> tm w1"
      using O(3) check_window_fields(3) [OF c] by (simp add: clock_ok_def qu_markChecked_def)
    then show ?thesis using p(8) by simp
  qed
  ultimately show ?thesis
    using p(1,7) clean rel O by (simp add: phrase_idle_def phrase_due_def)
qed

lemma phrase_append:
  assumes ok: "phrase_ok env tm P d" and idle: "phrase_idle env tm P k X R s w" and len: "length tx \<le> d"
    and n: "ge_now env w = (t, w1)" and a: "qu_append tx t (bs_quarantine s) = (v, q)"
  shows "phrase_due env tm P k (X @ tx) R (s\<lparr>bs_quarantine := q\<rparr>) w1"
    "v = ABuffer \<Longrightarrow> phrase_idle env tm P k (X @ tx) R (s\<lparr>bs_quarantine := q\<rparr>) w1"
proof -
  let ?o = "oc_quarantine (ge_output env)"
  have I: "chan_ok env k s" "tail_ok R (bs_tail s)" "\<not> sublist P R"
    "qu_charsSinceCheck (bs_quarantine s) = length (qtext s)" "int (length (qtext s)) < qo_checkEveryChars ?o"
    "qu_checksStarted (bs_quarantine s) = 0 \<or> qu_lastCheckAt (bs_quarantine s) \<le> tm w"
    using idle by (simp_all add: phrase_idle_def phrase_due_def)
  have O: "qo_minCheckIntervalMs ?o \<le> 0" "t = tm w" "tm w \<le> tm w1"
    "qo_checkEveryChars ?o + int d + int (length P) \<le> qo_windowChars ?o + 2"
    using ok n by (auto simp: phrase_ok_def room_for_def Let_def clock_ok_def dest: spec [of _ w])
  note af = append_fields [OF a] and ct = chan_ok_append [OF I(1) a]
  show due: "phrase_due env tm P k (X @ tx) R (s\<lparr>bs_quarantine := q\<rparr>) w1"
    using I O len ct by (simp add: phrase_due_def)
  assume v: "v = ABuffer"
  have "int (qu_charsSinceCheck q) < qo_checkEveryChars ?o"
  proof (rule ccontr)
    assume "\<not> ?thesis"
    then have "t - qu_lastCheckAt (bs_quarantine s) < qo_minCheckIntervalMs ?o \<and> qu_checksStarted (bs_quarantine s) > 0"
      using a v I(1) af by (auto simp: qu_append_def Let_def chan_ok_def split: if_splits)
    then show False using O I(6) by auto
  qed
  then show "phrase_idle env tm P k (X @ tx) R (s\<lparr>bs_quarantine := q\<rparr>) w1"
    using due I O af ct(2) by (auto simp: phrase_idle_def)
qed

lemma phrase_fresh:
  assumes "phrase_ok env tm P d"
  shows "phrase_idle env tm P k '''' '''' (stashed env k) w"
  using assms chan_ok_stashed [of env k]
  by (simp add: phrase_idle_def phrase_due_def phrase_ok_def room_for_def Let_def tail_ok_def)
    (simp add: stashed_def createState_def Let_def new_tail_def new_quarantine_def stashBlockStart_def)

interpretation phrase: release_contract env "phrase_ok env tm P d" "\<lambda>tx. length tx \<le> d"
    "\<lambda>w w'. tm w \<le> tm w'" "phrase_idle env tm P" "phrase_due env tm P" "\<lambda>X R. \<not> sublist P R"
  for env tm P d
proof
  fix w k X R s d' s1 w1 out s2
  assume "phrase_ok env tm P d" "phrase_due env tm P k X R s w" "check_window env s w = (d', s1, w1)"
    "d' \<noteq> Block" "collectFlush s1 = (out, s2)"
  then show "phrase_idle env tm P k X (R @ text_of k out) s2 w1" by (rule phrase_passed)
next
  fix w k X R s and tx :: string and t w1 q
  assume a: "phrase_ok env tm P d" "phrase_idle env tm P k X R s w" "length tx \<le> d" "ge_now env w = (t, w1)"
  show "phrase_idle env tm P k (X @ tx) R (s\<lparr>bs_quarantine := q\<rparr>) w1"
    if "qu_append tx t (bs_quarantine s) = (ABuffer, q)"
    using phrase_append(2) [OF a that] by simp
  show "phrase_due env tm P k (X @ tx) R (s\<lparr>bs_quarantine := q\<rparr>) w1"
    if "qu_append tx t (bs_quarantine s) = (ACheck, q)"
    using phrase_append(1) [OF a that] .
next
  fix k w
  assume "phrase_ok env tm P d"
  then show "phrase_idle env tm P k '''' '''' (stashed env k) w" by (rule phrase_fresh)
next
  fix w :: 'a and inp
  assume "phrase_ok env tm P d"
  then show "tm w \<le> tm (snd (pipeline_run (ge_pipeline env) inp w))" "tm w \<le> tm (snd (ge_now env w))"
    by (simp_all add: phrase_ok_def clock_ok_def)
qed (auto simp: phrase_idle_def phrase_due_def)

end
