(* ===== verification/StreamModes.thy ===== *)
theory StreamModes
  imports StreamSafety
begin

text \<open>
  The output stream guard under a gate that does not enforce (audit and warn): no check
  blocks, so only a quarantine overflow can stop the stream.
\<close>

subsection \<open>Gates that do not enforce\<close>

lemma lenient_check:
  assumes "ge_mode env \<noteq> GateEnforce"
  shows "fst (guard_check env s content w) \<noteq> Block"
  using assms
  by (cases "ge_mode env") (auto simp: guard_check_def Let_def applyGateMode_def split: prod.split)

lemma lenient_window:
  assumes "ge_mode env \<noteq> GateEnforce" "check_window env s w = (d, s1, w1)"
  shows "d \<noteq> Block"
  using check_window_fields(2) [OF assms(2)] lenient_check [OF assms(1)] by simp

lemma lenient_monitor:
  assumes "ge_mode env \<noteq> GateEnforce"
  shows "\<exists>out s1 w1. monitor_check env s w = (Inr out, s1, w1)"
  using lenient_check [OF assms, of s "mo_windowText (bs_monitor s)" w]
  by (auto simp: monitor_check_def Let_def split: prod.splits)

lemma lenient_finalize:
  assumes "ge_mode env \<noteq> GateEnforce"
  shows "finalizePending env s w = (r, s1, w1) \<Longrightarrow> \<exists>out. r = Inr out"
proof (induction "qu_pendingChars (bs_quarantine s)" arbitrary: s w r rule: less_induct)
  case less
  from less.prems show ?case
  proof (cases rule: finalize_cases)
    case (block d s1)
    then show ?thesis using lenient_window [OF assms] by blast
  next
    case (go d s1 w1 out s2 r2)
    then show ?thesis using less.hyps [OF go(6,4)] by auto
  qed auto
qed

lemma lenient_loop:
  assumes "\<And>s w. \<exists>out s1 w1. act s w = (Inr out, s1, w1)"
  shows "channel_loop act cs w = (st, outs, cs1, w1) \<Longrightarrow> st = None"
proof (induction cs arbitrary: w outs cs1)
  case (Cons p cs)
  obtain k s where p: "p = (k, s)" by (cases p)
  obtain out s1 w2 where a: "act s w = (Inr out, s1, w2)" using assms by blast
  obtain st' outs' cs' w3 where l: "channel_loop act cs w2 = (st', outs', cs', w3)"
    using prod_cases4 by blast
  then show ?case using Cons.IH [of w2 outs' cs'] Cons.prems a p by simp
qed simp

lemma lenient_end:
  assumes "ge_mode env \<noteq> GateEnforce"
  shows "\<exists>out s1 w1. end_channel env i s w = (Inr out, s1, w1)"
    "\<exists>out s1 w1. finish_channel env s w = (Inr out, s1, w1)"
    "\<exists>out s1 w1. finalizePending env s w = (Inr out, s1, w1)"
proof -
  obtain r s1 w1 where f: "finalizePending env s w = (r, s1, w1)" using prod_cases3 by blast
  show fin: "\<exists>out s1 w1. finalizePending env s w = (Inr out, s1, w1)"
    using lenient_finalize [OF assms f] f by blast
  show "\<exists>out s1 w1. finish_channel env s w = (Inr out, s1, w1)"
    using lenient_monitor [OF assms] by (simp add: finish_channel_def)
  show "\<exists>out s1 w1. end_channel env i s w = (Inr out, s1, w1)"
    using fin lenient_monitor [OF assms] by (simp add: end_channel_def)
qed

lemma lenient_delta:
  assumes "ge_mode env \<noteq> GateEnforce" "on_delta env s tx w = (Inl st, s1, w1)"
  shows "sf_code (st_failure st) = Some SAFETY_BUFFER_OVERFLOW"
  using assms(2) lenient_window [OF assms(1)]
  by (fastforce simp: on_delta_def Let_def overflow_stop_def split: prod.splits append_verdict.splits if_splits)

lemma lenient_through:
  assumes "ge_mode env \<noteq> GateEnforce"
  shows "\<exists>out s1 w1. on_delta_through env s tx w = (Inr out, s1, w1)"
  using lenient_monitor [OF assms] by (simp add: on_delta_through_def Let_def split: prod.split)

definition only_overflow :: "'w guard_state \<Rightarrow> bool" where
  "only_overflow g \<longleftrightarrow>
     pred_option (\<lambda>st. sf_code (st_failure st) = Some SAFETY_BUFFER_OVERFLOW) (gs_stopped g)"

lemma lenient_close:
  assumes "gs_stopped g = None" "st = None"
  shows "only_overflow (close_with c (st, outs, cs, w1) g)"
  using assms by (simp add: close_with_def yield_chunks_def only_overflow_def)

lemma lenient_step:
  assumes "ge_mode env \<noteq> GateEnforce" "gs_stopped g = None"
  shows "only_overflow (guard_step env c g)"
proof -
  have delta: "only_overflow (step_delta env ch i tx g)" for ch i tx
  proof (cases "map_of (gs_channels g) (ch, i)")
    case (Some s)
    show ?thesis
    proof (cases "quarantining env")
      case True
      obtain r s1 w1 where d: "on_delta env s tx (gs_world g) = (r, s1, w1)" using prod_cases3 by blast
      then show ?thesis
        using Some True assms lenient_delta [OF assms(1)]
        by (cases r) (auto simp: step_delta_def Let_def put_channel_def yield_chunks_def set_stopped_def only_overflow_def)
    next
      case False
      obtain out s1 w1 where d: "on_delta_through env s tx (gs_world g) = (Inr out, s1, w1)"
        using lenient_through [OF assms(1)] by blast
      then show ?thesis
        using Some False assms
        by (auto simp: step_delta_def Let_def put_channel_def yield_chunks_def only_overflow_def)
    qed
  qed (use assms in \<open>simp add: step_delta_def yield_chunks_def only_overflow_def\<close>)
  have close: "only_overflow (step_close env c g)"
  proof (cases "quarantining env")
    case True
    obtain st outs cs w1 where l: "channel_loop (finalizePending env) (gs_channels g) (gs_world g) = (st, outs, cs, w1)"
      using prod_cases4 by blast
    then show ?thesis
      using lenient_close [OF assms(2) lenient_loop [OF lenient_end(3) [OF assms(1)] l]] True
      by (simp add: step_close_def finalizeAll_def)
  next
    case False
    obtain st outs cs w1 where l: "channel_loop (finish_channel env) (gs_channels g) (gs_world g) = (st, outs, cs, w1)"
      using prod_cases4 by blast
    then show ?thesis
      using lenient_close [OF assms(2) lenient_loop [OF lenient_end(2) [OF assms(1)] l]] False
      by (simp add: step_close_def)
  qed
  show ?thesis
  proof (cases c)
    case (BlockEnd i b)
    obtain st outs cs w1 where l: "channel_loop (end_channel env i) (gs_channels g) (gs_world g) = (st, outs, cs, w1)"
      using prod_cases4 by blast
    then show ?thesis
      using lenient_close [OF assms(2) lenient_loop [OF lenient_end(1) [OF assms(1)] l]] BlockEnd by simp
  next
    case (BlockStart i bt)
    then show ?thesis using assms(2)
      by (auto simp: step_start_def Let_def put_channel_def yield_chunks_def only_overflow_def split: option.split)
  qed (use delta close assms(2) in \<open>simp_all add: yield_chunks_def only_overflow_def\<close>)
qed

lemma lenient_run:
  "ge_mode env \<noteq> GateEnforce \<Longrightarrow> only_overflow g \<Longrightarrow> only_overflow (guard_run env cs g)"
  by (induction cs arbitrary: g) (auto simp: lenient_step)

end
