(* ===== verification/SafetyProperties.thy ===== *)
theory SafetyProperties
  imports StreamPhrase StreamModes
begin

text \<open>
  The properties of the model safety gate: what the output stream guard releases, what an
  auditing gate withholds, and how the two layers of a check are merged. The witnesses
  evaluate on a sample guard whose scanner blocks the text \<open>bad\<close>.
\<close>

subsection \<open>A sample guard\<close>

definition demo_scan :: "bool \<Rightarrow> string \<Rightarrow> scan_result option" where
  "demo_scan quoted c =
     Some (if sublist ''bad'' c
       then \<lparr>sc_findings = [\<lparr>fd_ruleId = ''r1'', fd_category = ''policy_violation'', fd_severity = Block,
                             fd_confidence = 1\<rparr>],
             sc_decision = Block, sc_categories = [''policy_violation'']\<rparr>
       else emptyScan)"

definition demo_guard :: "gate_mode \<Rightarrow> int \<Rightarrow> nat guard_env" where
  "demo_guard mode window =
     \<lparr>ge_enabled = True, ge_mode = mode,
      ge_output = \<lparr>oc_enabled = True, oc_mode = Buffered, oc_text = True, oc_reasoning = True,
        oc_quarantine = \<lparr>qo_checkEveryChars = 4, qo_windowChars = window, qo_lookbehindChars = 4,
          qo_minCheckIntervalMs = 0, qo_maxBufferedChars = 16\<rparr>\<rparr>,
      ge_pipeline = \<lparr>pl_scan = demo_scan, pl_classifier = None\<rparr>,
      ge_now = (\<lambda>w. (int w, Suc w)), ge_lookup = (\<lambda>_. None), ge_sessionId = None\<rparr>"


definition demo_bad :: "chunk list" where
  "demo_bad = [BlockStart 0 ''text'', TextDelta 0 ''all ba'', TextDelta 0 ''d now'', Finish FrStop]"





subsection \<open>What the guard releases\<close>







text \<open>Stopping is final: once a check or an overflow stopped the stream, later chunks of the
  model change nothing, and the guarded stream ends with the error finish of the stop.\<close>

theorem stop_is_final:
  assumes "\<not> isGateOff env" "oc_enabled (ge_output env)"
    and "gs_stopped (guard_run env cs (new_guard w)) = Some st"
  shows "guardOutputStream env (cs @ ds) w = guardOutputStream env cs w \<and>
    last (gr_out (guardOutputStream env (cs @ ds) w)) = Finish (FrError (st_failure st)) \<and>
    gr_quarantinedChars (guardOutputStream env (cs @ ds) w) = st_preventedChars st"
proof -
  have "guard_run env (cs @ ds) (new_guard w) = guard_run env cs (new_guard w)"
    using assms(3) by (simp add: guard_run_append guard_run_stopped)
  then show ?thesis
    using assms by (simp add: guardOutputStream_def Let_def blockedFinish_def split: prod.split)
qed

theorem stop_is_final_witness:
  "last (gr_out (guardOutputStream (demo_guard GateEnforce 12) (demo_bad @ [TextDelta 0 ''x'']) 0)) =
   Finish (FrError \<lparr>sf_message = ''blocked text output by safety policy'', sf_code = Some SAFETY_OUTPUT_BLOCKED\<rparr>)"
proof -
  have s: "gs_stopped (guard_run (demo_guard GateEnforce 12) demo_bad (new_guard 0)) = Some (blocked_stop OText 5)"
    by code_simp
  have g: "\<not> isGateOff (demo_guard GateEnforce 12)" "oc_enabled (ge_output (demo_guard GateEnforce 12))"
    by (simp_all add: isGateOff_def demo_guard_def)
  have "last (gr_out (guardOutputStream (demo_guard GateEnforce 12) (demo_bad @ [TextDelta 0 ''x'']) 0)) =
      Finish (FrError (st_failure (blocked_stop OText 5)))"
    using stop_is_final [OF g s, of "[TextDelta 0 ''x'']"] by blast
  then show ?thesis by (simp add: blocked_stop_def)
qed

text \<open>C15: A gate in audit or warn mode blocks nothing: the only thing that can stop a stream is an
  overflow of the quarantine, in every output mode.\<close>

theorem lenient_gate_never_blocks:
  assumes "ge_mode env \<noteq> GateEnforce" "gs_stopped (guard_run env cs (new_guard w)) = Some st"
  shows "sf_code (st_failure st) = Some SAFETY_BUFFER_OVERFLOW"
proof -
  have "only_overflow (guard_run env cs (new_guard w))"
    by (rule lenient_run [OF assms(1)]) (simp add: only_overflow_def new_guard_def)
  then show ?thesis using assms(2) by (simp add: only_overflow_def)
qed

text \<open>The overflow does stop an auditing gate: one delta longer than the buffer is enough.\<close>

definition demo_long :: "chunk list" where
  "demo_long = [BlockStart 0 ''text'', TextDelta 0 ''abcdefghijklmnopq'', Finish FrStop]"

theorem lenient_gate_never_blocks_witness:
  "gs_stopped (guard_run (demo_guard GateAudit 12) demo_long (new_guard 0)) = Some (overflow_stop 17) \<and>
   sf_code (st_failure (overflow_stop 17)) = Some SAFETY_BUFFER_OVERFLOW"
proof
  show s: "gs_stopped (guard_run (demo_guard GateAudit 12) demo_long (new_guard 0)) = Some (overflow_stop 17)"
    by code_simp
  show "sf_code (st_failure (overflow_stop 17)) = Some SAFETY_BUFFER_OVERFLOW"
    by (rule lenient_gate_never_blocks [OF _ s]) (simp add: demo_guard_def)
qed


subsection \<open>Checks\<close>

text \<open>A classifier that answers without a JSON object.\<close>

definition demo_classifier :: "failure_mode \<Rightarrow> nat classifier" where
  "demo_classifier mode =
     \<lparr>cl_failureMode = mode, cl_parse = (\<lambda>_. None), cl_internal = (\<lambda>_. False),
      cl_transport = (\<lambda>_ _ w. (Inr ''it looks fine'', False, w))\<rparr>"

text \<open>The merged decision of a check is the strictest of the scanner's, the classifier's and the
  failure mode's: no layer can lower what another one decided.\<close>

theorem merge_is_strictest:
  "vd_decision (mv_verdict (mergeL0L1 l0 l1 fl)) =
   Max (insert (sc_decision l0) (set_option (map_option vd_decision l1) \<union> set_option fl))"
  unfolding merged_decision by (cases l1; cases fl) (simp_all add: mergeDecisions_Max ac_simps)

text \<open>A check is never weaker than the scanner: whatever the classifier's transport answers or
  however it fails, the decision is at least the scanner's.\<close>

theorem check_at_least_scanner:
  assumes "pl_scan pl (in_quotedDowngrade inp) (in_content inp) = Some r"
  shows "sc_decision r \<le> vd_decision (mv_verdict (fst (pipeline_run pl inp w)))"
  using assms merged_ge_l0
  by (auto simp: pipeline_run_def Let_def split: option.split prod.split sum.split)

theorem check_at_least_scanner_witness:
  "Block \<le> vd_decision (mv_verdict (fst (pipeline_run \<lparr>pl_scan = demo_scan,
     pl_classifier = Some (demo_classifier FailOpen)\<rparr>
     \<lparr>in_content = ''a bad word'', in_channel = ChText, in_trigger = Always, in_quotedDowngrade = True\<rparr> (0 :: nat))))"
proof -
  have "map_option sc_decision (demo_scan True ''a bad word'') = Some Block" by code_simp
  then obtain r where "demo_scan True ''a bad word'' = Some r" "sc_decision r = Block" by auto
  then show ?thesis
    using check_at_least_scanner [of "\<lparr>pl_scan = demo_scan,
     pl_classifier = Some (demo_classifier FailOpen)\<rparr>"
      "\<lparr>in_content = ''a bad word'', in_channel = ChText, in_trigger = Always, in_quotedDowngrade = True\<rparr>" r "0 :: nat"]
    by simp
qed

text \<open>A classifier that fails closed blocks whenever it was asked and did not return a valid
  verdict: a transport failure and a malformed answer count alike.\<close>

theorem fails_closed:
  assumes "pl_classifier pl = Some cl" "cl_failureMode cl = FailClosed" "in_trigger inp = Always"
    and "fst (classify cl (in_channel inp) (in_content inp) w) = Inl e"
  shows "vd_decision (mv_verdict (fst (pipeline_run pl inp w))) = Block"
proof -
  obtain w1 where "classify cl (in_channel inp) (in_content inp) w = (Inl e, w1)"
    using assms(4) by (metis prod.collapse)
  moreover have "Block \<le> vd_decision (mv_verdict (mergeL0L1 l0 None (Some Block)))" for l0
    unfolding merged_decision by (rule mergeDecisions_ge) simp
  ultimately show ?thesis
    using assms(1-3) block_top by (simp add: pipeline_run_def Let_def split: option.split)
qed

theorem fails_closed_witness:
  "vd_decision (mv_verdict (fst (pipeline_run \<lparr>pl_scan = demo_scan,
     pl_classifier = Some (demo_classifier FailClosed)\<rparr>
     \<lparr>in_content = ''fine'', in_channel = ChText, in_trigger = Always, in_quotedDowngrade = True\<rparr> (0 :: nat)))) = Block"
proof -
  have e: "fst (classify (demo_classifier FailClosed) ChText ''fine'' (0 :: nat)) = Inl SAFETY_CLASSIFIER_INVALID_RESPONSE"
    by code_simp
  have m: "cl_failureMode (demo_classifier FailClosed) = FailClosed" by (simp add: demo_classifier_def)
  show ?thesis by (rule fails_closed [OF _ m]) (simp_all add: e)
qed

text \<open>A classifier answer is accepted only when every field is in range: a known decision, a
  confidence between 0 and 1, at most 16 categories of the vocabulary, a summary within the
  limit and at most 16 rule ids.\<close>

theorem validated_verdict:
  assumes "validateVerdict payload n = Inr v"
  shows "0 \<le> vd_confidence v \<and> vd_confidence v \<le> 1 \<and> length (vd_categories v) \<le> 16 \<and>
    set (vd_categories v) \<subseteq> set (safety_categories @ quality_categories) \<and>
    length (vd_summary v) \<le> n \<and> pred_option (\<lambda>ids. length ids \<le> 16) (vd_ruleIds v) \<and>
    (case jget payload ''decision'' of Some (JStr s) \<Rightarrow> decision_of_text s = Some (vd_decision v) | _ \<Rightarrow> False)"
  using validateVerdict_sound [OF assms] by simp

definition demo_answer :: json where
  "demo_answer = JObj [(''decision'', JStr ''warn''), (''confidence'', JNum (Fin (1/2))),
     (''categories'', JArr [JStr ''spam'']), (''summary'', JStr ''noise'')]"

theorem validated_verdict_witness:
  "\<exists>v. validateVerdict demo_answer 500 = Inr v \<and> vd_confidence v \<le> 1 \<and> vd_decision v = Warn"
proof -
  have e: "validateVerdict demo_answer 500 =
      Inr \<lparr>vd_decision = Warn, vd_confidence = 1/2, vd_categories = [''spam''], vd_summary = ''noise'', vd_ruleIds = None\<rparr>"
    by (simp add: validateVerdict_def demo_answer_def Let_def safety_categories_def quality_categories_def)
  show ?thesis using validated_verdict [OF e] e by simp
qed

end
