(* ===== verification/NetAddress.thy ===== *)
theory NetAddress
  imports Prelude "HOL-Library.Word"
begin

text \<open>
  Addresses of the authenticated web fetch
  (\<open>plugins/dsh-web-fetch-authenticated/src/policy/network.ts\<close>): the IPv4 and IPv6 parsers,
  CIDR containment on the bytes, the classification of a destination and the verdict of a
  rule's network policy. A \<open>bigint\<close> is an \<open>int\<close>, with the bitwise operations of the code.
\<close>

unbundle bit_operations_syntax

subsection \<open>Parsing\<close>

datatype ip_family = F4 | F6

record parsed_ip =
  ip_bytes :: int
  ip_bits :: nat
  ip_family :: ip_family

definition is_digit :: "char \<Rightarrow> bool" where
  "is_digit c \<longleftrightarrow> 48 \<le> (of_char c :: nat) \<and> (of_char c :: nat) \<le> 57"

definition hex_digit :: "char \<Rightarrow> int option" where
  "hex_digit c =
     (let n = of_char c :: nat in
      if 48 \<le> n \<and> n \<le> 57 then Some (int n - 48)
      else if 97 \<le> n \<and> n \<le> 102 then Some (int n - 87)
      else if 65 \<le> n \<and> n \<le> 70 then Some (int n - 55)
      else None)"

text \<open>\<open>Number\<close> of a string of digits, and \<open>parseInt(_, 16)\<close> of one of hexadecimal digits.\<close>

definition dec_value :: "string \<Rightarrow> int" where
  "dec_value s = foldl (\<lambda>a c. a * 10 + (int (of_char c) - 48)) 0 s"

fun hex_value :: "int \<Rightarrow> string \<Rightarrow> int option" where
  "hex_value a [] = Some a"
| "hex_value a (c # cs) = (case hex_digit c of None \<Rightarrow> None | Some d \<Rightarrow> hex_value (a * 16 + d) cs)"

text \<open>\<open>/^\d{1,3}$/\<close>.\<close>

definition short_decimal :: "string \<Rightarrow> bool" where
  "short_decimal s \<longleftrightarrow> s \<noteq> '''' \<and> length s \<le> 3 \<and> list_all is_digit s"

fun ipv4_octets :: "int \<Rightarrow> string list \<Rightarrow> int option" where
  "ipv4_octets v [] = Some v"
| "ipv4_octets v (p # ps) =
     (if \<not> short_decimal p then None
      else if dec_value p > 255 then None
      else ipv4_octets (push_bit 8 v OR dec_value p) ps)"

definition parseIpv4 :: "string \<Rightarrow> parsed_ip option" where
  "parseIpv4 tx =
     (let parts = split_on (CHR ''.'') tx in
      if length parts \<noteq> 4 then None
      else map_option (\<lambda>v. \<lparr>ip_bytes = v, ip_bits = 32, ip_family = F4\<rparr>) (ipv4_octets 0 parts))"

text \<open>\<open>split("::")\<close>.\<close>

fun split_double :: "string \<Rightarrow> string list" where
  "split_double [] = [[]]"
| "split_double [c] = [[c]]"
| "split_double (c # d # s) =
     (if c = CHR '':'' \<and> d = CHR '':'' then [] # split_double s
      else (case split_double (d # s) of [] \<Rightarrow> [[c]] | p # ps \<Rightarrow> (c # p) # ps))"

fun hex_groups :: "string list \<Rightarrow> int list option" where
  "hex_groups [] = Some []"
| "hex_groups (g # gs) =
     (if g = '''' \<or> length g > 4 then None
      else case hex_value 0 g of
        None \<Rightarrow> None
      | Some v \<Rightarrow> map_option (\<lambda>vs. v # vs) (hex_groups gs))"

definition parseGroups :: "string \<Rightarrow> int list option" where
  "parseGroups side = (if side = '''' then Some [] else hex_groups (split_on (CHR '':'') side))"

text \<open>The eight groups, from the parts around a possible double colon.\<close>

definition ipv6_groups :: "string \<Rightarrow> int list option" where
  "ipv6_groups head =
     (let double = split_double head in
      if length double > 2 then None
      else
       (let groups =
          (if length double = 2 then
             (case (parseGroups (double ! 0), parseGroups (double ! 1)) of
                (Some l, Some r) \<Rightarrow>
                  if length l + length r > 8 then None
                  else Some (l @ replicate (8 - length l - length r) 0 @ r)
              | _ \<Rightarrow> None)
           else parseGroups head)
        in case groups of None \<Rightarrow> None | Some gs \<Rightarrow> if length gs \<noteq> 8 then None else Some gs))"

definition group_bytes :: "int list \<Rightarrow> int" where
  "group_bytes gs = foldl (\<lambda>v g. push_bit 16 v OR g) 0 gs"

definition parseIpv6 :: "string \<Rightarrow> parsed_ip option" where
  "parseIpv6 tx =
     (let head = takeWhile (\<lambda>c. c \<noteq> CHR ''%'') tx;
          afterColon = rev (takeWhile (\<lambda>c. c \<noteq> CHR '':'') (rev head));
          upto = rev (dropWhile (\<lambda>c. c \<noteq> CHR '':'') (rev head));
          whole = (\<lambda>gs. \<lparr>ip_bytes = group_bytes gs, ip_bits = 128, ip_family = F6\<rparr>)
      in if CHR ''.'' \<in> set afterColon then
           (case parseIpv4 afterColon of
              None \<Rightarrow> None
            | Some v4 \<Rightarrow>
                (case ipv6_groups (upto @ ''0:0'') of
                   None \<Rightarrow> None
                 | Some gs \<Rightarrow>
                     Some (whole (gs[6 := drop_bit 16 (ip_bytes v4) AND 0xffff, 7 := ip_bytes v4 AND 0xffff]))))
         else map_option whole (ipv6_groups head))"

text \<open>\<open>replace(/^\[|\]$/gu, "")\<close>.\<close>

definition strip_brackets :: "string \<Rightarrow> string" where
  "strip_brackets s =
     (let a = (case s of [] \<Rightarrow> [] | c # cs \<Rightarrow> if c = CHR ''['' then cs else s)
      in if a \<noteq> '''' \<and> last a = CHR '']'' then butlast a else a)"

definition parseIp :: "string \<Rightarrow> parsed_ip option" where
  "parseIp tx =
     (let candidate = strip_brackets (js_trim tx)
      in if CHR '':'' \<in> set candidate then parseIpv6 candidate else parseIpv4 candidate)"

record parsed_cidr =
  ci_base :: parsed_ip
  ci_prefix :: nat

definition parseCidr :: "string \<Rightarrow> parsed_cidr option" where
  "parseCidr tx =
     (let candidate = js_trim tx;
          addr = takeWhile (\<lambda>c. c \<noteq> CHR ''/'') candidate;
          rest = dropWhile (\<lambda>c. c \<noteq> CHR ''/'') candidate
      in case parseIp addr of
           None \<Rightarrow> None
         | Some base \<Rightarrow>
             (case rest of
                [] \<Rightarrow> Some \<lparr>ci_base = base, ci_prefix = ip_bits base\<rparr>
              | _ # prefixText \<Rightarrow>
                  if \<not> short_decimal prefixText then None
                  else if dec_value prefixText > int (ip_bits base) then None
                  else Some \<lparr>ci_base = base, ci_prefix = nat (dec_value prefixText)\<rparr>))"

definition containsCidr :: "parsed_cidr \<Rightarrow> parsed_ip \<Rightarrow> bool" where
  "containsCidr c ip =
     (if ip_family (ci_base c) \<noteq> ip_family ip then False
      else let hostBits = ip_bits (ci_base c) - ci_prefix c;
               m = push_bit hostBits (push_bit (ip_bits (ci_base c) - hostBits) 1 - 1)
           in (ip_bytes (ci_base c) AND m) = (ip_bytes ip AND m))"

definition cidrContains :: "string \<Rightarrow> string \<Rightarrow> bool" where
  "cidrContains cidr ip =
     (case (parseCidr cidr, parseIp ip) of (Some c, Some i) \<Rightarrow> containsCidr c i | _ \<Rightarrow> False)"

definition isIpLiteral :: "string \<Rightarrow> bool" where
  "isIpLiteral tx \<longleftrightarrow> parseIp tx \<noteq> None"

definition isCidr :: "string \<Rightarrow> bool" where
  "isCidr tx \<longleftrightarrow> parseCidr tx \<noteq> None"

subsection \<open>Destinations\<close>

datatype network_class =
    NcPublic | NcLoopback | NcPrivate | NcCgnat | NcIpv6ULA | NcLinkLocal | NcIpv6LinkLocal
  | NcMetadata | NcMulticast | NcUnspecified | NcReserved | NcBroadcast

definition METADATA_V4 :: "string list" where
  "METADATA_V4 = [''169.254.169.254'', ''169.254.170.2'']"

definition METADATA_V6 :: "string list" where
  "METADATA_V6 = [''fd00:ec2::254'']"

definition ALWAYS_DENIED :: "network_class list" where
  "ALWAYS_DENIED = [NcMetadata, NcMulticast, NcUnspecified, NcReserved, NcBroadcast]"

datatype embedded_route = RMapped | RCompatible | RNat64

definition embeddedIpv4 :: "parsed_ip \<Rightarrow> (int \<times> embedded_route) option" where
  "embeddedIpv4 ip =
     (if ip_family ip \<noteq> F6 then None
      else let high = drop_bit 32 (ip_bytes ip);
               low = ip_bytes ip AND 0xffffffff
           in if high = 0xffff then Some (low, RMapped)
              else if high = 0x0064ff9b0000000000000000 then Some (low, RNat64)
              else if high = 0 \<and> low > 1 then Some (low, RCompatible)
              else None)"

definition destinationOf :: "parsed_ip \<Rightarrow> parsed_ip" where
  "destinationOf ip =
     (case embeddedIpv4 ip of
        Some (a, RMapped) \<Rightarrow> \<lparr>ip_bytes = a, ip_bits = 32, ip_family = F4\<rparr>
      | _ \<Rightarrow> ip)"

text \<open>The decimal text of a number below 256.\<close>

definition show_octet :: "int \<Rightarrow> string" where
  "show_octet v =
     (let digit = (\<lambda>d. char_of (nat d + 48))
      in if v \<ge> 100 then [digit (v div 100), digit (v div 10 mod 10), digit (v mod 10)]
         else if v \<ge> 10 then [digit (v div 10), digit (v mod 10)]
         else [digit v])"

definition addressText :: "parsed_ip \<Rightarrow> string \<Rightarrow> string" where
  "addressText ip written =
     (if ip_family ip \<noteq> F4 then written
      else join_with ''.'' (map (\<lambda>n. show_octet (drop_bit n (ip_bytes ip) AND 0xff)) [24, 16, 8, 0]))"

definition inCidr :: "string \<Rightarrow> parsed_ip \<Rightarrow> bool" where
  "inCidr cidr ip = (case parseCidr cidr of None \<Rightarrow> False | Some c \<Rightarrow> containsCidr c ip)"

definition classify :: "parsed_ip \<Rightarrow> network_class" where
  "classify ip =
     (if (case embeddedIpv4 ip of None \<Rightarrow> False | Some (_, r) \<Rightarrow> r \<noteq> RMapped) then NcReserved
      else if ip_family ip = F4 then
        (if list_ex (\<lambda>c. inCidr c ip) METADATA_V4 then NcMetadata
         else if inCidr ''0.0.0.0/8'' ip then NcUnspecified
         else if inCidr ''127.0.0.0/8'' ip then NcLoopback
         else if inCidr ''10.0.0.0/8'' ip \<or> inCidr ''172.16.0.0/12'' ip \<or> inCidr ''192.168.0.0/16'' ip
           then NcPrivate
         else if inCidr ''100.64.0.0/10'' ip then NcCgnat
         else if inCidr ''169.254.0.0/16'' ip then NcLinkLocal
         else if inCidr ''224.0.0.0/4'' ip then NcMulticast
         else if ip_bytes ip = 0xffffffff then NcBroadcast
         else if inCidr ''192.0.0.0/24'' ip \<or> inCidr ''192.0.2.0/24'' ip \<or> inCidr ''198.51.100.0/24'' ip
             \<or> inCidr ''203.0.113.0/24'' ip \<or> inCidr ''240.0.0.0/4'' ip \<or> inCidr ''255.255.255.254/32'' ip
           then NcReserved
         else NcPublic)
      else if list_ex (\<lambda>c. inCidr c ip) METADATA_V6 then NcMetadata
      else if inCidr ''::/128'' ip then NcUnspecified
      else if inCidr ''::1/128'' ip then NcLoopback
      else if inCidr ''fc00::/7'' ip then NcIpv6ULA
      else if inCidr ''fe80::/10'' ip then NcIpv6LinkLocal
      else if inCidr ''ff00::/8'' ip then NcMulticast
      else if inCidr ''64:ff9b:1::/48'' ip \<or> inCidr ''100::/64'' ip \<or> inCidr ''2001:db8::/32'' ip then NcReserved
      else NcPublic)"

definition classifyIp :: "string \<Rightarrow> network_class option" where
  "classifyIp tx = map_option (\<lambda>ip. classify (destinationOf ip)) (parseIp tx)"

subsection \<open>Verdicts\<close>

record network_policy =
  np_allowPublic :: bool
  np_allowPrivate :: bool
  np_allowLoopback :: bool
  np_allowLinkLocal :: bool
  np_allowCGNAT :: bool
  np_allowIPv6ULA :: bool
  np_allowedCidrs :: "string list"
  np_deniedCidrs :: "string list"

datatype verdict_reason =
    Unparseable | AlwaysDenied | InDeniedCidr string | InAllowedCidr string | ByClassFlag bool

record address_verdict =
  av_address :: string
  av_family :: ip_family
  av_class :: network_class
  av_allowed :: bool
  av_reason :: verdict_reason

text \<open>\<open>CLASS_FLAGS\<close>; the always-denied classes have no flag.\<close>

fun class_flag :: "network_policy \<Rightarrow> network_class \<Rightarrow> bool" where
  "class_flag p NcPublic = np_allowPublic p"
| "class_flag p NcLoopback = np_allowLoopback p"
| "class_flag p NcPrivate = np_allowPrivate p"
| "class_flag p NcCgnat = np_allowCGNAT p"
| "class_flag p NcIpv6ULA = np_allowIPv6ULA p"
| "class_flag p NcLinkLocal = np_allowLinkLocal p"
| "class_flag p NcIpv6LinkLocal = np_allowLinkLocal p"
| "class_flag p _ = False"

definition evaluateAddress :: "string \<Rightarrow> network_policy \<Rightarrow> address_verdict" where
  "evaluateAddress address p =
     (case parseIp address of
        None \<Rightarrow> \<lparr>av_address = address, av_family = (if CHR '':'' \<in> set address then F6 else F4),
                 av_class = NcUnspecified, av_allowed = False, av_reason = Unparseable\<rparr>
      | Some parsed \<Rightarrow>
          (let dst = destinationOf parsed;
               cls = classify dst;
               verdict = (\<lambda>ok r. \<lparr>av_address = addressText dst address, av_family = ip_family dst,
                                  av_class = cls, av_allowed = ok, av_reason = r\<rparr>);
               forms = (if dst = parsed then [parsed] else [dst, parsed])
           in if cls \<in> set ALWAYS_DENIED then verdict False AlwaysDenied
              else case find (\<lambda>c. list_ex (inCidr c) forms) (np_deniedCidrs p) of
                Some c \<Rightarrow> verdict False (InDeniedCidr c)
              | None \<Rightarrow>
                  (case find (\<lambda>c. inCidr c dst) (np_allowedCidrs p) of
                     Some c \<Rightarrow> verdict True (InAllowedCidr c)
                   | None \<Rightarrow> verdict (class_flag p cls) (ByClassFlag (class_flag p cls)))))"

record addresses_verdict =
  as_allowed :: bool
  as_verdicts :: "address_verdict list"
  as_firstDenied :: "address_verdict option"

definition evaluateAddresses :: "string list \<Rightarrow> network_policy \<Rightarrow> addresses_verdict" where
  "evaluateAddresses addresses p =
     (let verdicts = map (\<lambda>a. evaluateAddress a p) addresses;
          firstDenied = find (\<lambda>v. \<not> av_allowed v) verdicts
      in \<lparr>as_allowed = (firstDenied = None), as_verdicts = verdicts, as_firstDenied = firstDenied\<rparr>)"

subsection \<open>Containment is equality of the leading bits\<close>

lemma masked_eq_iff:
  fixes a b :: int
  assumes "0 \<le> a" "a < 2 ^ n" "0 \<le> b" "b < 2 ^ n" "h \<le> n"
  shows "(a AND push_bit h (push_bit (n - h) 1 - 1)) = (b AND push_bit h (push_bit (n - h) 1 - 1)) \<longleftrightarrow>
    a div 2 ^ h = b div 2 ^ h"
proof -
  have m: "push_bit h (push_bit (n - h) 1 - 1 :: int) = push_bit h (mask (n - h))"
    by (simp add: mask_eq_exp_minus_1 push_bit_eq_mult)
  have *: "x AND push_bit h (mask (n - h)) = push_bit h (x div 2 ^ h)" if "0 \<le> x" "x < 2 ^ n" for x :: int
  proof -
    have "x AND push_bit h (mask (n - h)) = push_bit h (drop_bit h x AND mask (n - h))"
      by (rule bit_eqI) (auto simp: bit_simps)
    also have "drop_bit h x AND mask (n - h) = take_bit (n - h) (drop_bit h x)"
      by (simp add: take_bit_eq_mask)
    also have "\<dots> = drop_bit h x"
    proof (rule take_bit_int_eq_self)
      show "0 \<le> drop_bit h x" using that by simp
      have "x div 2 ^ h < 2 ^ (n - h)"
      proof -
        have "0 \<le> x mod 2 ^ h" by simp
        then have "x div 2 ^ h * 2 ^ h \<le> x"
          using div_mult_mod_eq [of x "2 ^ h"] by linarith
        also have "x < 2 ^ (n - h) * 2 ^ h"
          using that assms(5) by (simp add: power_add [symmetric])
        finally show ?thesis by (simp add: mult_less_cancel_right_pos)
      qed
      then show "drop_bit h x < 2 ^ (n - h)" by (simp add: drop_bit_eq_div)
    qed
    finally show ?thesis by (simp add: drop_bit_eq_div)
  qed
  show ?thesis
    unfolding m *[OF assms(1,2)] *[OF assms(3,4)] by (simp add: push_bit_eq_mult)
qed

text \<open>Appending a group of bits to a value is arithmetic.\<close>

lemma push_or:
  fixes v g :: int
  assumes "0 \<le> g" "g < 2 ^ n"
  shows "push_bit n v OR g = v * 2 ^ n + g"
proof -
  have g: "take_bit n g = g" using assms by (simp add: take_bit_int_eq_self)
  have "push_bit n v AND g = 0"
    by (subst g [symmetric]) (rule bit_eqI, auto simp: bit_simps)
  from disjunctive_add_eq_or [OF this] show ?thesis by (simp add: push_bit_eq_mult)
qed

lemma append_bits:
  fixes v g :: int
  assumes "0 \<le> v" "v < 2 ^ k" "0 \<le> g" "g < 2 ^ n"
  shows "0 \<le> push_bit n v OR g \<and> push_bit n v OR g < 2 ^ (k + n)"
proof -
  have "v * 2 ^ n + g < (v + 1) * 2 ^ n" using assms(4) by (simp add: algebra_simps)
  also have "\<dots> \<le> 2 ^ k * 2 ^ n" using assms(2) by (intro mult_right_mono) auto
  finally show ?thesis using assms push_or [OF assms(3,4), of v] by (simp add: power_add)
qed

subsection \<open>What the parsers return\<close>

definition ip_wf :: "parsed_ip \<Rightarrow> bool" where
  "ip_wf ip \<longleftrightarrow> 0 \<le> ip_bytes ip \<and> ip_bytes ip < 2 ^ ip_bits ip \<and>
     ip_bits ip = (if ip_family ip = F4 then 32 else 128)"

lemma dec_value_nonneg:
  assumes "list_all is_digit s"
  shows "0 \<le> dec_value s"
proof -
  have "0 \<le> a \<Longrightarrow> list_all is_digit s \<Longrightarrow> 0 \<le> foldl (\<lambda>a c. a * 10 + (int (of_char c) - 48)) a s" for a
    by (induction s arbitrary: a) (auto simp: is_digit_def)
  then show ?thesis using assms by (simp add: dec_value_def)
qed

lemma ipv4_octets_bound:
  "ipv4_octets v ps = Some r \<Longrightarrow> 0 \<le> v \<Longrightarrow> v < 2 ^ k \<Longrightarrow> 0 \<le> r \<and> r < 2 ^ (k + 8 * length ps)"
proof (induction v ps arbitrary: k rule: ipv4_octets.induct)
  case (2 v p ps)
  have p: "short_decimal p" "dec_value p \<le> 255" "ipv4_octets (push_bit 8 v OR dec_value p) ps = Some r"
    using "2.prems"(1) by (auto split: if_splits)
  have "0 \<le> dec_value p" using p(1) dec_value_nonneg by (simp add: short_decimal_def)
  from append_bits [of v k "dec_value p" 8] this p(2) "2.prems"
  have "0 \<le> push_bit 8 v OR dec_value p \<and> push_bit 8 v OR dec_value p < 2 ^ (k + 8)" by simp
  then show ?case using "2.IH" [of "k + 8"] p by (simp add: ac_simps)
qed simp

lemma parseIpv4_wf: "parseIpv4 tx = Some ip \<Longrightarrow> ip_wf ip \<and> ip_family ip = F4"
  using ipv4_octets_bound [of 0 "split_on (CHR ''.'') tx" _ 0]
  by (auto simp: parseIpv4_def Let_def ip_wf_def split: if_splits)

lemma hex_digit_bound: "hex_digit c = Some d \<Longrightarrow> 0 \<le> d \<and> d < 16"
  by (auto simp: hex_digit_def Let_def split: if_splits)

lemma hex_value_bound:
  "hex_value a s = Some v \<Longrightarrow> 0 \<le> a \<Longrightarrow> a < 16 ^ k \<Longrightarrow> 0 \<le> v \<and> v < 16 ^ (k + length s)"
proof (induction s arbitrary: a k)
  case (Cons c s)
  obtain d where d: "hex_digit c = Some d" "hex_value (a * 16 + d) s = Some v"
    using Cons.prems(1) by (auto split: option.splits)
  have "a * 16 + d < 16 ^ Suc k" using hex_digit_bound [OF d(1)] Cons.prems(3) by simp
  then show ?case using Cons.IH [OF d(2), of "Suc k"] hex_digit_bound [OF d(1)] Cons.prems(2) by simp
qed simp

lemma hex_groups_bound: "hex_groups gs = Some vs \<Longrightarrow> v \<in> set vs \<Longrightarrow> 0 \<le> v \<and> v < 2 ^ 16"
proof (induction gs arbitrary: vs)
  case (Cons g gs)
  obtain x xs where x: "hex_value 0 g = Some x" "hex_groups gs = Some xs" "vs = x # xs" "length g \<le> 4"
    using Cons.prems(1) by (auto split: option.splits if_splits)
  have "0 \<le> x \<and> x < 16 ^ length g" using hex_value_bound [OF x(1), of 0] by simp
  moreover have "(16 :: int) ^ length g \<le> 16 ^ 4" using x(4) by (intro power_increasing) auto
  ultimately show ?case using Cons.IH [OF x(2)] Cons.prems(2) x(3) by auto
qed simp

lemma parseGroups_bound: "parseGroups s = Some vs \<Longrightarrow> v \<in> set vs \<Longrightarrow> 0 \<le> v \<and> v < 2 ^ 16"
  using hex_groups_bound by (auto simp: parseGroups_def split: if_splits)

lemma ipv6_groups_bound:
  assumes "ipv6_groups h = Some gs"
  shows "length gs = 8 \<and> (\<forall>v \<in> set gs. 0 \<le> v \<and> v < 2 ^ 16)"
  using assms parseGroups_bound
  by (fastforce simp: ipv6_groups_def Let_def split: if_splits option.splits)

lemma group_bytes_bound:
  assumes "\<forall>v \<in> set gs. 0 \<le> v \<and> v < (2 :: int) ^ 16"
  shows "0 \<le> group_bytes gs \<and> group_bytes gs < 2 ^ (16 * length gs)"
proof -
  have "0 \<le> a \<Longrightarrow> a < 2 ^ k \<Longrightarrow> \<forall>v \<in> set gs. 0 \<le> v \<and> v < (2 :: int) ^ 16 \<Longrightarrow>
      0 \<le> foldl (\<lambda>v g. push_bit 16 v OR g) a gs \<and> foldl (\<lambda>v g. push_bit 16 v OR g) a gs < 2 ^ (k + 16 * length gs)" for a k
  proof (induction gs arbitrary: a k)
    case (Cons g gs)
    from append_bits [OF Cons.prems(1,2), of g 16] Cons.prems(3)
    show ?case using Cons.IH [of "push_bit 16 a OR g" "k + 16"] Cons.prems(3) by (simp add: ac_simps)
  qed simp
  from this [of 0 0] assms show ?thesis by (simp add: group_bytes_def)
qed

lemma parseIpv6_wf: "parseIpv6 tx = Some ip \<Longrightarrow> ip_wf ip \<and> ip_family ip = F6"
proof -
  have *: "ip_wf \<lparr>ip_bytes = group_bytes gs, ip_bits = 128, ip_family = F6\<rparr>"
    if "length gs = 8" "\<forall>v \<in> set gs. 0 \<le> v \<and> v < 2 ^ 16" for gs
    using group_bytes_bound [OF that(2)] that(1) by (simp add: ip_wf_def)
  have upd: "\<forall>v \<in> set (gs[6 := drop_bit 16 b AND 0xffff, 7 := b AND 0xffff]). 0 \<le> v \<and> v < 2 ^ 16"
    if "\<forall>v \<in> set gs. 0 \<le> v \<and> v < (2 :: int) ^ 16" for gs b
  proof
    fix v
    assume "v \<in> set (gs[6 := drop_bit 16 b AND 0xffff, 7 := b AND 0xffff])"
    then have "v \<in> insert (b AND 0xffff) (insert (drop_bit 16 b AND 0xffff) (set gs))"
      using set_update_subset_insert by (meson insert_mono subsetD subset_trans)
    moreover have "0 \<le> c AND 0xffff \<and> c AND 0xffff < 2 ^ 16" for c :: int
      using take_bit_eq_mask [of 16 c] by (simp add: mask_eq_exp_minus_1 take_bit_eq_mod)
    ultimately show "0 \<le> v \<and> v < 2 ^ 16" using that by blast
  qed
  let ?h = "takeWhile (\<lambda>c. c \<noteq> CHR ''%'') tx"
  let ?a = "rev (takeWhile (\<lambda>c. c \<noteq> CHR '':'') (rev ?h))"
  let ?u = "rev (dropWhile (\<lambda>c. c \<noteq> CHR '':'') (rev ?h))"
  assume p: "parseIpv6 tx = Some ip"
  show ?thesis
  proof (cases "CHR ''.'' \<in> set ?a")
    case True
    obtain v4 where v4: "parseIpv4 ?a = Some v4"
      using p True by (cases "parseIpv4 ?a") (simp_all add: parseIpv6_def Let_def)
    obtain gs where gs: "ipv6_groups (?u @ ''0:0'') = Some gs"
      using p True v4 by (cases "ipv6_groups (?u @ ''0:0'')") (simp_all add: parseIpv6_def Let_def)
    have "ip = \<lparr>ip_bytes = group_bytes (gs[6 := drop_bit 16 (ip_bytes v4) AND 0xffff, 7 := ip_bytes v4 AND 0xffff]),
        ip_bits = 128, ip_family = F6\<rparr>"
      using p True v4 gs by (simp add: parseIpv6_def Let_def)
    then show ?thesis using * [of "gs[6 := _, 7 := _]"] upd [of gs] ipv6_groups_bound [OF gs] by simp
  next
    case False
    obtain gs where gs: "ipv6_groups ?h = Some gs"
      using p False by (cases "ipv6_groups ?h") (simp_all add: parseIpv6_def Let_def)
    have "ip = \<lparr>ip_bytes = group_bytes gs, ip_bits = 128, ip_family = F6\<rparr>"
      using p False gs by (simp add: parseIpv6_def Let_def)
    then show ?thesis using * [of gs] ipv6_groups_bound [OF gs] by simp
  qed
qed

lemma parseIp_wf: "parseIp tx = Some ip \<Longrightarrow> ip_wf ip"
  using parseIpv4_wf parseIpv6_wf by (auto simp: parseIp_def Let_def split: if_splits)

end
