(* ===== verification/NetPolicy.thy ===== *)
theory NetPolicy
  imports NetAddress
begin

text \<open>
  What the address policy of the authenticated fetch decides: CIDR containment as equality of
  leading bits, the IPv4 classification against a table of ranges, the dotted text as a
  faithful spelling of a destination, and the verdict in terms of them.
\<close>

unbundle bit_operations_syntax

subsection \<open>IPv4 ranges\<close>

abbreviation v4 :: "int \<Rightarrow> parsed_ip" where
  "v4 x \<equiv> \<lparr>ip_bytes = x, ip_bits = 32, ip_family = F4\<rparr>"

lemma embedded_v4 [simp]: "embeddedIpv4 (v4 x) = None" "destinationOf (v4 x) = v4 x"
  by (simp_all add: embeddedIpv4_def destinationOf_def)

lemma inCidr_v4:
  assumes "parseCidr c = Some \<lparr>ci_base = v4 b, ci_prefix = p\<rparr>" "0 \<le> x" "x < 2 ^ 32"
    and "0 \<le> b" "b < 2 ^ 32" "p \<le> 32"
  shows "inCidr c (v4 x) \<longleftrightarrow> (b div 2 ^ (32 - p)) * 2 ^ (32 - p) \<le> x \<and> x < (b div 2 ^ (32 - p) + 1) * 2 ^ (32 - p)"
proof -
  have "inCidr c (v4 x) \<longleftrightarrow> b div 2 ^ (32 - p) = x div 2 ^ (32 - p)"
    using masked_eq_iff [of b 32 x "32 - p"] assms by (simp add: inCidr_def containsCidr_def Let_def)
  also have "\<dots> \<longleftrightarrow> (b div 2 ^ (32 - p)) * 2 ^ (32 - p) \<le> x \<and> x < (b div 2 ^ (32 - p) + 1) * 2 ^ (32 - p)"
  proof -
    define m where "m = (2 :: int) ^ (32 - p)"
    have m: "0 < m" by (simp add: m_def)
    have "q = x div m \<longleftrightarrow> q * m \<le> x \<and> x < (q + 1) * m" for q
    proof
      assume "q = x div m"
      then have "q * m + x mod m = x" "(q + 1) * m = q * m + m" by (simp_all add: algebra_simps)
      then show "q * m \<le> x \<and> x < (q + 1) * m"
        using pos_mod_bound [OF m, of x] pos_mod_sign [OF m, of x] by linarith
    next
      assume q: "q * m \<le> x \<and> x < (q + 1) * m"
      then have "x = m * q + (x - q * m)" "0 \<le> x - q * m" "x - q * m < m" by (simp_all add: algebra_simps)
      then show "q = x div m" using int_div_pos_eq by metis
    qed
    then show ?thesis by (simp add: m_def)
  qed
  finally show ?thesis .
qed

text \<open>The ranges of the special-purpose IPv4 blocks, first match first.\<close>

definition v4_table :: "(int \<times> int \<times> network_class) list" where
  "v4_table =
     [(0xA9FEA9FE, 0xA9FEA9FE, NcMetadata), (0xA9FEAA02, 0xA9FEAA02, NcMetadata),
      (0x00000000, 0x00FFFFFF, NcUnspecified), (0x7F000000, 0x7FFFFFFF, NcLoopback),
      (0x0A000000, 0x0AFFFFFF, NcPrivate), (0xAC100000, 0xAC1FFFFF, NcPrivate),
      (0xC0A80000, 0xC0A8FFFF, NcPrivate), (0x64400000, 0x647FFFFF, NcCgnat),
      (0xA9FE0000, 0xA9FEFFFF, NcLinkLocal), (0xE0000000, 0xEFFFFFFF, NcMulticast),
      (0xFFFFFFFF, 0xFFFFFFFF, NcBroadcast),
      (0xC0000000, 0xC00000FF, NcReserved), (0xC0000200, 0xC00002FF, NcReserved),
      (0xC6336400, 0xC63364FF, NcReserved), (0xCB007100, 0xCB0071FF, NcReserved),
      (0xF0000000, 0xFFFFFFFF, NcReserved)]"

fun range_class :: "(int \<times> int \<times> network_class) list \<Rightarrow> int \<Rightarrow> network_class" where
  "range_class [] x = NcPublic"
| "range_class ((lo, hi, c) # rs) x = (if lo \<le> x \<and> x \<le> hi then c else range_class rs x)"

lemma v4_cidrs:
  "parseCidr ''169.254.169.254'' = Some \<lparr>ci_base = v4 0xA9FEA9FE, ci_prefix = 32\<rparr>"
  "parseCidr ''169.254.170.2'' = Some \<lparr>ci_base = v4 0xA9FEAA02, ci_prefix = 32\<rparr>"
  "parseCidr ''0.0.0.0/8'' = Some \<lparr>ci_base = v4 0, ci_prefix = 8\<rparr>"
  "parseCidr ''127.0.0.0/8'' = Some \<lparr>ci_base = v4 0x7F000000, ci_prefix = 8\<rparr>"
  "parseCidr ''10.0.0.0/8'' = Some \<lparr>ci_base = v4 0x0A000000, ci_prefix = 8\<rparr>"
  "parseCidr ''172.16.0.0/12'' = Some \<lparr>ci_base = v4 0xAC100000, ci_prefix = 12\<rparr>"
  "parseCidr ''192.168.0.0/16'' = Some \<lparr>ci_base = v4 0xC0A80000, ci_prefix = 16\<rparr>"
  "parseCidr ''100.64.0.0/10'' = Some \<lparr>ci_base = v4 0x64400000, ci_prefix = 10\<rparr>"
  "parseCidr ''169.254.0.0/16'' = Some \<lparr>ci_base = v4 0xA9FE0000, ci_prefix = 16\<rparr>"
  "parseCidr ''224.0.0.0/4'' = Some \<lparr>ci_base = v4 0xE0000000, ci_prefix = 4\<rparr>"
  "parseCidr ''192.0.0.0/24'' = Some \<lparr>ci_base = v4 0xC0000000, ci_prefix = 24\<rparr>"
  "parseCidr ''192.0.2.0/24'' = Some \<lparr>ci_base = v4 0xC0000200, ci_prefix = 24\<rparr>"
  "parseCidr ''198.51.100.0/24'' = Some \<lparr>ci_base = v4 0xC6336400, ci_prefix = 24\<rparr>"
  "parseCidr ''203.0.113.0/24'' = Some \<lparr>ci_base = v4 0xCB007100, ci_prefix = 24\<rparr>"
  "parseCidr ''240.0.0.0/4'' = Some \<lparr>ci_base = v4 0xF0000000, ci_prefix = 4\<rparr>"
  "parseCidr ''255.255.255.254/32'' = Some \<lparr>ci_base = v4 0xFFFFFFFE, ci_prefix = 32\<rparr>"
  by code_simp+

lemma classify_v4_table:
  assumes "0 \<le> x" "x < 2 ^ 32"
  shows "classify (v4 x) = range_class v4_table x"
proof -
  note c = v4_cidrs [THEN inCidr_v4, OF assms, simplified]
  have "classify (v4 x) = range_class v4_table x \<longleftrightarrow> True"
    unfolding classify_def METADATA_V4_def v4_table_def range_class.simps
    using assms by (simp add: c)
  then show ?thesis by simp
qed

text \<open>Evaluation reads an IPv4 class off the table; every other address is classified as written.\<close>

definition classify_parsed :: "parsed_ip \<Rightarrow> network_class" where
  "classify_parsed = classify"

lemmas classify_parsed_code [code] = classify_def [folded classify_parsed_def]

lemma classify_code [code]:
  "classify ip =
     (if ip_family ip = F4 \<and> ip_bits ip = 32 \<and> 0 \<le> ip_bytes ip \<and> ip_bytes ip < 2 ^ 32
      then range_class v4_table (ip_bytes ip) else classify_parsed ip)"
  using classify_v4_table [of "ip_bytes ip"] by (cases ip) (auto simp: classify_parsed_def)

subsection \<open>The dotted text of a destination\<close>

lemma digit_char:
  assumes "0 \<le> d" "d < 10"
  shows "is_digit (char_of (nat d + 48))" "int (of_char (char_of (nat d + 48) :: char)) - 48 = d"
proof -
  have "(nat d + 48) mod 256 = nat d + 48" using assms by (simp add: mod_less)
  then show "is_digit (char_of (nat d + 48))" "int (of_char (char_of (nat d + 48) :: char)) - 48 = d"
    using assms by (simp_all add: is_digit_def)
qed

definition digit_of :: "int \<Rightarrow> char" where
  "digit_of d = char_of (nat d + 48)"

lemma digits_value:
  assumes "\<forall>d \<in> set ds. 0 \<le> d \<and> d < 10"
  shows "list_all is_digit (map digit_of ds)" "dec_value (map digit_of ds) = foldl (\<lambda>a d. a * 10 + d) 0 ds"
proof -
  show "list_all is_digit (map digit_of ds)"
    using assms digit_char(1) by (simp add: list_all_iff digit_of_def)
  have "foldl (\<lambda>a c. a * 10 + (int (of_char c) - 48)) a (map digit_of ds) = foldl (\<lambda>a d. a * 10 + d) a ds" for a
    using assms
  proof (induction ds arbitrary: a)
    case (Cons d ds)
    then show ?case using digit_char(2) [of d] by (simp only: digit_of_def list.map foldl.simps) simp
  qed simp
  then show "dec_value (map digit_of ds) = foldl (\<lambda>a d. a * 10 + d) 0 ds" by (simp add: dec_value_def)
qed

lemma show_octet_digits:
  "show_octet v = map digit_of (if v \<ge> 100 then [v div 100, v div 10 mod 10, v mod 10]
     else if v \<ge> 10 then [v div 10, v mod 10] else [v])"
  by (simp add: show_octet_def Let_def digit_of_def)

lemma show_octet:
  assumes "0 \<le> v" "v < 256"
  shows "short_decimal (show_octet v)" "dec_value (show_octet v) = v"
proof -
  define ds where "ds = (if v \<ge> 100 then [v div 100, v div 10 mod 10, v mod 10]
     else if v \<ge> 10 then [v div 10, v mod 10] else [v])"
  have "0 \<le> v div 100 \<and> v div 100 < 10" "v < 100 \<longrightarrow> v div 10 < 10" "0 \<le> v div 10"
    using assms by linarith+
  then have d: "\<forall>d \<in> set ds. 0 \<le> d \<and> d < 10" using assms by (simp add: ds_def)
  have "v div 100 = v div 10 div 10" using zdiv_zmult2_eq [of 10 v 10] by simp
  then have "foldl (\<lambda>a d. a * 10 + d) 0 ds = v"
    using div_mult_mod_eq [of v 10] div_mult_mod_eq [of "v div 10" 10] by (simp add: ds_def)
  then show "dec_value (show_octet v) = v" "short_decimal (show_octet v)"
    using digits_value [OF d] show_octet_digits [of v]
    by (simp_all add: ds_def short_decimal_def)
qed

lemma octet_chars: "short_decimal s \<Longrightarrow> c \<in> set s \<Longrightarrow> is_digit c"
  by (simp add: short_decimal_def list_all_iff)

definition octets :: "int \<Rightarrow> int list" where
  "octets x = map (\<lambda>n. drop_bit n x AND 0xff) [24, 16, 8, 0]"

lemma octets_eq:
  assumes "0 \<le> x" "x < 2 ^ 32"
  shows "octets x = [x div 2 ^ 24, x div 2 ^ 16 mod 256, x div 2 ^ 8 mod 256, x mod 256]"
    "\<forall>v \<in> set (octets x). 0 \<le> v \<and> v < 256"
proof -
  have a: "c AND 0xff = c mod 256" for c :: int
    using take_bit_eq_mask [of 8 c] by (simp add: mask_eq_exp_minus_1 take_bit_eq_mod)
  have "x div 2 ^ 24 < 256" "0 \<le> x div 2 ^ 24" using assms by simp_all
  then show "octets x = [x div 2 ^ 24, x div 2 ^ 16 mod 256, x div 2 ^ 8 mod 256, x mod 256]"
    by (simp add: octets_def a drop_bit_eq_div)
  show "\<forall>v \<in> set (octets x). 0 \<le> v \<and> v < 256" by (simp add: octets_def a)
qed

definition dotted :: "int \<Rightarrow> string" where
  "dotted x = join_with ''.'' (map show_octet (octets x))"

lemma addressText_v4: "addressText (v4 x) w = dotted x"
  by (simp add: addressText_def dotted_def octets_def)

lemma ipv4_octets_fold:
  assumes "\<forall>v \<in> set vs. 0 \<le> v \<and> v < 256"
  shows "ipv4_octets a (map show_octet vs) = Some (foldl (\<lambda>a v. a * 256 + v) a vs)"
  using assms
proof (induction vs arbitrary: a)
  case (Cons v vs)
  then show ?case using show_octet [of v] push_or [of v 8 a] by simp
qed simp

lemma octets_value:
  assumes "0 \<le> x" "x < 2 ^ 32"
  shows "foldl (\<lambda>a v. a * 256 + v) 0 (octets x) = x"
proof -
  have horner: "foldl (\<lambda>a v. a * 256 + v) 0 [A, b, c, d] = x"
    if "A * 256 + b = B" "B * 256 + c = C" "C * 256 + d = x" for A B C b c d :: int
    using that by simp
  have AB: "x div 2 ^ 24 * 256 + x div 2 ^ 16 mod 256 = x div 2 ^ 16"
    using zdiv_zmult2_eq [of 256 x "2 ^ 16"] div_mult_mod_eq [of "x div 2 ^ 16" 256] by simp
  have BC: "x div 2 ^ 16 * 256 + x div 2 ^ 8 mod 256 = x div 2 ^ 8"
    using zdiv_zmult2_eq [of 256 x "2 ^ 8"] div_mult_mod_eq [of "x div 2 ^ 8" 256] by simp
  have C: "x div 2 ^ 8 * 256 + x mod 256 = x" using div_mult_mod_eq [of x 256] by simp
  show ?thesis unfolding octets_eq(1) [OF assms] by (rule horner [OF AB BC C])
qed

lemma dotted_split:
  assumes "0 \<le> x" "x < 2 ^ 32"
  shows "split_on (CHR ''.'') (dotted x) = map show_octet (octets x)"
  unfolding dotted_def
proof (rule split_join)
  show "map show_octet (octets x) \<noteq> []" by (simp add: octets_def)
  fix p
  assume "p \<in> set (map show_octet (octets x))"
  then obtain v where "p = show_octet v" "0 \<le> v" "v < 256" using octets_eq(2) [OF assms] by auto
  then show "CHR ''.'' \<notin> set p" using octet_chars [OF show_octet(1)] by (force simp: is_digit_def)
qed

lemma parse_dotted:
  assumes "0 \<le> x" "x < 2 ^ 32"
  shows "parseIpv4 (dotted x) = Some (v4 x)"
proof -
  have "length (octets x) = 4" by (simp add: octets_def)
  then show ?thesis
    using ipv4_octets_fold [OF octets_eq(2) [OF assms], of 0] octets_value [OF assms]
    by (simp add: parseIpv4_def Let_def dotted_split [OF assms])
qed

lemma dotted_chars:
  assumes "0 \<le> x" "x < 2 ^ 32" "c \<in> set (dotted x)"
  shows "is_digit c \<or> c = CHR ''.''"
proof -
  have sub: "set (join_with ''.'' ps) \<subseteq> insert (CHR ''.'') (\<Union>(set ` set ps))" for ps
    by (induction "''.''" ps rule: join_with.induct) auto
  then have "c = CHR ''.'' \<or> (\<exists>v \<in> set (octets x). c \<in> set (show_octet v))"
    using assms(3) by (fastforce simp: dotted_def)
  then show ?thesis using octets_eq(2) [OF assms(1,2)] octet_chars [OF show_octet(1)] by blast
qed

lemma trim_id: "(\<And>c. c \<in> set s \<Longrightarrow> \<not> js_space c) \<Longrightarrow> js_trim s = s"
proof -
  assume a: "\<And>c. c \<in> set s \<Longrightarrow> \<not> js_space c"
  have d: "dropWhile js_space t = t" if "\<And>c. c \<in> set t \<Longrightarrow> \<not> js_space c" for t
    using that by (cases t) auto
  show ?thesis using d [of s] d [of "rev s"] a by (simp add: js_trim_def)
qed

lemma dotted_candidate:
  assumes "0 \<le> x" "x < 2 ^ 32"
  shows "strip_brackets (js_trim (dotted x)) = dotted x" "CHR '':'' \<notin> set (dotted x)"
proof -
  note ch = dotted_chars [OF assms]
  have "js_trim (dotted x) = dotted x"
    by (rule trim_id) (use ch in \<open>force simp: is_digit_def js_space_def\<close>)
  moreover have nb: "CHR ''['' \<notin> set (dotted x)" "CHR '']'' \<notin> set (dotted x)"
    using ch by (force simp: is_digit_def)+
  ultimately show "strip_brackets (js_trim (dotted x)) = dotted x"
    by (cases "dotted x") (auto simp: strip_brackets_def Let_def dest: last_in_set)
  show "CHR '':'' \<notin> set (dotted x)" using ch by (force simp: is_digit_def)
qed

lemma parseIp_dotted:
  assumes "0 \<le> x" "x < 2 ^ 32"
  shows "parseIp (dotted x) = Some (v4 x)"
  using dotted_candidate [OF assms] parse_dotted [OF assms] by (simp add: parseIp_def Let_def)

subsection \<open>Destinations and verdicts\<close>

lemma destination_wf:
  assumes "ip_wf ip"
  shows "ip_wf (destinationOf ip)"
proof -
  have "0 \<le> a AND 0xffffffff \<and> a AND 0xffffffff < 2 ^ 32" for a :: int
    using take_bit_eq_mask [of 32 a] by (simp add: mask_eq_exp_minus_1 take_bit_eq_mod)
  then show ?thesis
    using assms
    by (auto simp: destinationOf_def embeddedIpv4_def Let_def ip_wf_def split: option.splits embedded_route.splits if_splits)
qed

lemma destination_family: "destinationOf ip \<noteq> ip \<Longrightarrow> ip_family ip = F6 \<and> (\<exists>x. destinationOf ip = v4 x)"
  by (auto simp: destinationOf_def embeddedIpv4_def Let_def split: option.splits embedded_route.splits if_splits)

lemma wf_v4: "ip_wf ip \<Longrightarrow> ip_family ip = F4 \<Longrightarrow> \<exists>x. ip = v4 x \<and> 0 \<le> x \<and> x < 2 ^ 32"
  by (cases ip) (auto simp: ip_wf_def)

text \<open>The text a verdict carries parses to the destination that was judged.\<close>

lemma verdict_address:
  assumes "parseIp a = Some ip"
  shows "parseIp (addressText (destinationOf ip) a) = Some (destinationOf ip)"
proof (cases "ip_family (destinationOf ip) = F4")
  case True
  from wf_v4 [OF destination_wf [OF parseIp_wf [OF assms]] True]
  obtain x where "destinationOf ip = v4 x" "0 \<le> x" "x < 2 ^ 32" by blast
  then show ?thesis by (simp add: addressText_v4 parseIp_dotted)
next
  case False
  then have "destinationOf ip = ip" using destination_family [of ip] by (metis parsed_ip.select_convs(3))
  then show ?thesis using False assms by (simp add: addressText_def)
qed

definition denied_by :: "network_policy \<Rightarrow> parsed_ip \<Rightarrow> bool" where
  "denied_by p ip \<longleftrightarrow> list_ex (\<lambda>c. inCidr c (destinationOf ip) \<or> inCidr c ip) (np_deniedCidrs p)"

definition allowed_by :: "network_policy \<Rightarrow> parsed_ip \<Rightarrow> bool" where
  "allowed_by p ip \<longleftrightarrow>
     list_ex (\<lambda>c. inCidr c (destinationOf ip)) (np_allowedCidrs p) \<or> class_flag p (classify (destinationOf ip))"

lemma find_list_ex: "find Q xs = None \<longleftrightarrow> \<not> list_ex Q xs"
  by (auto simp: find_None_iff list_ex_iff)

lemma evaluate_parsed:
  assumes "parseIp a = Some ip"
  shows "av_allowed (evaluateAddress a p) \<longleftrightarrow>
      classify (destinationOf ip) \<notin> set ALWAYS_DENIED \<and> \<not> denied_by p ip \<and> allowed_by p ip"
    "av_address (evaluateAddress a p) = addressText (destinationOf ip) a"
    "av_class (evaluateAddress a p) = classify (destinationOf ip)"
    "av_family (evaluateAddress a p) = ip_family (destinationOf ip)"
proof -
  let ?forms = "if destinationOf ip = ip then [ip] else [destinationOf ip, ip]"
  have d: "find (\<lambda>c. list_ex (inCidr c) ?forms) (np_deniedCidrs p) = None \<longleftrightarrow> \<not> denied_by p ip"
    unfolding find_list_ex denied_by_def by (simp add: list_ex_iff)
  have al: "find (\<lambda>c. inCidr c (destinationOf ip)) (np_allowedCidrs p) = None \<longleftrightarrow>
      \<not> list_ex (\<lambda>c. inCidr c (destinationOf ip)) (np_allowedCidrs p)"
    by (rule find_list_ex)
  show "av_allowed (evaluateAddress a p) \<longleftrightarrow>
      classify (destinationOf ip) \<notin> set ALWAYS_DENIED \<and> \<not> denied_by p ip \<and> allowed_by p ip"
    using d al assms
    by (auto simp: evaluateAddress_def Let_def allowed_by_def split: option.split)
  show "av_address (evaluateAddress a p) = addressText (destinationOf ip) a"
    "av_class (evaluateAddress a p) = classify (destinationOf ip)"
    "av_family (evaluateAddress a p) = ip_family (destinationOf ip)"
    using assms by (auto simp: evaluateAddress_def Let_def split: option.split)
qed

lemma evaluate_unparsed: "parseIp a = None \<Longrightarrow> \<not> av_allowed (evaluateAddress a p)"
  by (simp add: evaluateAddress_def)

end
