(* ===== verification/NetMatch.thy ===== *)
theory NetMatch
  imports NetPolicy
begin

text \<open>
  URLs, rules and redirects of the authenticated web fetch
  (\<open>plugins/dsh-web-fetch-authenticated/src/policy/url.ts\<close>, \<open>match.ts\<close>, \<open>redirect.ts\<close> and the
  rule shapes of \<open>types.ts\<close>). The platform's \<open>URL\<close> parser is an argument; a parsed URL is the
  record of the parts the code reads.
\<close>

subsection \<open>URLs\<close>

record url =
  ur_href :: string
  ur_protocol :: string
  ur_hostname :: string
  ur_port :: string
  ur_username :: string
  ur_password :: string
  ur_pathname :: string
  ur_origin :: string

datatype url_error = UrlTooLong | UrlMalformed | UrlScheme | UrlCredentials | UrlNoHost

definition validateFetchUrl :: "(string \<Rightarrow> url option) \<Rightarrow> string \<Rightarrow> nat \<Rightarrow> url_error + url" where
  "validateFetchUrl parse input maxUrlLength =
     (if length input > maxUrlLength then Inl UrlTooLong
      else case parse input of
        None \<Rightarrow> Inl UrlMalformed
      | Some u \<Rightarrow>
          if ur_protocol u \<noteq> ''http:'' \<and> ur_protocol u \<noteq> ''https:'' then Inl UrlScheme
          else if length (ur_username u) > 0 \<or> length (ur_password u) > 0 then Inl UrlCredentials
          else if length (ur_hostname u) = 0 then Inl UrlNoHost
          else Inr u)"

definition isSameOrigin :: "url \<Rightarrow> url \<Rightarrow> bool" where
  "isSameOrigin a b \<longleftrightarrow>
     ur_protocol a = ur_protocol b \<and> ur_hostname a = ur_hostname b \<and> ur_port a = ur_port b"

definition effectivePort :: "url \<Rightarrow> int" where
  "effectivePort u =
     (if ur_port u \<noteq> '''' then dec_value (ur_port u)
      else if ur_protocol u = ''https:'' then 443 else 80)"

subsection \<open>Path patterns\<close>

text \<open>
  The regular expression a pattern compiles to: \<open>**\<close> is \<open>.*\<close>, a single \<open>*\<close> is \<open>[^/]*\<close>, every
  other character stands for itself.
\<close>

datatype path_token = AnyPath | AnySegment | Lit char

function compile_tokens :: "string \<Rightarrow> path_token list" where
  "compile_tokens [] = []"
| "compile_tokens (c # cs) =
     (if c \<noteq> CHR ''*'' then Lit c # compile_tokens cs
      else if cs \<noteq> '''' \<and> hd cs = CHR ''*''
        then AnyPath # compile_tokens (dropWhile (\<lambda>x. x = CHR ''*'') cs)
      else AnySegment # compile_tokens cs)"
  by pat_completeness auto
termination
  by (relation "measure length") (auto simp: le_imp_less_Suc length_dropWhile_le)

definition compilePathPattern :: "string \<Rightarrow> path_token list option" where
  "compilePathPattern pattern =
     (if pattern = '''' \<or> hd pattern \<noteq> CHR ''/'' then None else Some (compile_tokens pattern))"

text \<open>\<open>.\<close> matches no line terminator.\<close>

definition line_terminator :: "char \<Rightarrow> bool" where
  "line_terminator c \<longleftrightarrow> of_char c \<in> {10, 13 :: nat}"

fun tokens_match :: "path_token list \<Rightarrow> string \<Rightarrow> bool" where
  "tokens_match [] s \<longleftrightarrow> s = ''''"
| "tokens_match (Lit c # ts) [] \<longleftrightarrow> False"
| "tokens_match (Lit c # ts) (x # xs) \<longleftrightarrow> x = c \<and> tokens_match ts xs"
| "tokens_match (AnySegment # ts) [] \<longleftrightarrow> tokens_match ts []"
| "tokens_match (AnySegment # ts) (x # xs) \<longleftrightarrow>
     tokens_match ts (x # xs) \<or> (x \<noteq> CHR ''/'' \<and> tokens_match (AnySegment # ts) xs)"
| "tokens_match (AnyPath # ts) [] \<longleftrightarrow> tokens_match ts []"
| "tokens_match (AnyPath # ts) (x # xs) \<longleftrightarrow>
     tokens_match ts (x # xs) \<or> (\<not> line_terminator x \<and> tokens_match (AnyPath # ts) xs)"

definition pathMatches :: "string \<Rightarrow> string \<Rightarrow> bool" where
  "pathMatches pattern pathname =
     (case compilePathPattern pattern of None \<Rightarrow> False | Some ts \<Rightarrow> tokens_match ts pathname)"

subsection \<open>Rules\<close>

datatype auth_config =
    AuthNone
  | AuthBearer string
  | AuthBasic string string
  | AuthHeader string string "string option"

record rule_match =
  rm_schemes :: "string list option"
  rm_hosts :: "string list"
  rm_ports :: "int list option"
  rm_allowPaths :: "string list option"
  rm_denyPaths :: "string list option"

datatype redirect_mode = RedirNone | SameOrigin | Allowlist

text \<open>The optional sections of a rule, as the settings document has them: an absent field is \<open>None\<close>.\<close>

record raw_network =
  rn_allowPublic :: "bool option"
  rn_allowPrivate :: "bool option"
  rn_allowLoopback :: "bool option"
  rn_allowLinkLocal :: "bool option"
  rn_allowCGNAT :: "bool option"
  rn_allowIPv6ULA :: "bool option"
  rn_allowedCidrs :: "string list option"
  rn_deniedCidrs :: "string list option"

record raw_redirects =
  rd_mode :: "redirect_mode option"
  rd_maxRedirects :: "int option"
  rd_allowedOrigins :: "string list option"

record raw_limits =
  rl_timeoutMs :: "int option"
  rl_maxResponseBytes :: "int option"
  rl_maxBodyChars :: "int option"

datatype adapter_type = AdapterNone | AdapterJira | AdapterConfluence

datatype jira_flavor = JiraServer | JiraCloud

datatype cleanup_level = CleanupOff | CleanupBalanced | CleanupStrict

record raw_adapter =
  ra_type :: "adapter_type option"
  ra_jiraFlavor :: "jira_flavor option"
  ra_includeComments :: "bool option"
  ra_includeLinks :: "bool option"
  ra_cleanup :: "cleanup_level option"
  ra_maxAttachments :: "int option"

record raw_documents =
  rx_enabled :: "bool option"
  rx_maxBytes :: "int option"
  rx_maxChars :: "int option"

record fetch_rule =
  fr_id :: string
  fr_name :: string
  fr_enabled :: bool
  fr_testUrl :: "string option"
  fr_match :: rule_match
  fr_auth :: auth_config
  fr_networkPolicy :: "raw_network option"
  fr_redirects :: "raw_redirects option"
  fr_limits :: "raw_limits option"
  fr_adapter :: "raw_adapter option"
  fr_documents :: "raw_documents option"

text \<open>The same sections resolved: every field has its value.\<close>

record redirect_policy =
  rp_mode :: redirect_mode
  rp_maxRedirects :: int
  rp_allowedOrigins :: "string list"

record fetch_limits =
  fl_timeoutMs :: int
  fl_maxResponseBytes :: int
  fl_maxBodyChars :: int

record resolved_adapter =
  ad_type :: adapter_type
  ad_jiraFlavor :: jira_flavor
  ad_includeComments :: bool
  ad_includeLinks :: bool
  ad_cleanup :: cleanup_level
  ad_maxAttachments :: int

record resolved_documents =
  do_enabled :: bool
  do_maxBytes :: int
  do_maxChars :: int

record resolved_rule =
  rr_source :: fetch_rule
  rr_networkPolicy :: network_policy
  rr_redirects :: redirect_policy
  rr_limits :: fetch_limits
  rr_adapter :: resolved_adapter
  rr_documents :: resolved_documents

text \<open>\<open>toLowerCase\<close> on the characters below 256.\<close>

definition lower_char :: "char \<Rightarrow> char" where
  "lower_char c =
     (let n = of_char c :: nat in
      if (65 \<le> n \<and> n \<le> 90) \<or> (192 \<le> n \<and> n \<le> 222 \<and> n \<noteq> 215) then char_of (n + 32) else c)"

definition to_lower :: "string \<Rightarrow> string" where
  "to_lower = map lower_char"

definition normalizeHost :: "string \<Rightarrow> string" where
  "normalizeHost host = to_lower (js_trim host)"

definition allowedSchemes :: "rule_match \<Rightarrow> string list" where
  "allowedSchemes m =
     (case rm_schemes m of None \<Rightarrow> [''https''] | Some ss \<Rightarrow> if ss = [] then [''https''] else ss)"

definition ruleMatchesUrl :: "fetch_rule \<Rightarrow> url \<Rightarrow> bool" where
  "ruleMatchesUrl rule u =
     (let m = fr_match rule in
      if (if ur_protocol u = ''https:'' then ''https'' else ''http'') \<notin> set (allowedSchemes m) then False
      else if ur_hostname u \<notin> set (map normalizeHost (rm_hosts m)) then False
      else if (case rm_ports m of None \<Rightarrow> False | Some ps \<Rightarrow> ps \<noteq> [] \<and> effectivePort u \<notin> set ps) then False
      else if (case rm_denyPaths m of None \<Rightarrow> False
               | Some ps \<Rightarrow> list_ex (\<lambda>p. pathMatches p (ur_pathname u)) ps) then False
      else (case rm_allowPaths m of
              None \<Rightarrow> True
            | Some ps \<Rightarrow> if ps = [] then True else list_ex (\<lambda>p. pathMatches p (ur_pathname u)) ps))"

definition matchRules :: "resolved_rule list \<Rightarrow> url \<Rightarrow> resolved_rule list" where
  "matchRules rules u = filter (\<lambda>r. fr_enabled (rr_source r) \<and> ruleMatchesUrl (rr_source r) u) rules"

subsection \<open>Redirects\<close>

datatype redirect_denial = RedirectsDisabled | CrossOrigin | NoRuleMatches | NotAllowlisted

datatype redirect_decision = Follow bool | Deny redirect_denial

definition decideRedirect :: "redirect_policy \<Rightarrow> url \<Rightarrow> url \<Rightarrow> bool \<Rightarrow> bool \<Rightarrow> redirect_decision" where
  "decideRedirect p current target targetMatchesOriginalRule targetMatchesSomeRule =
     (if rp_mode p = RedirNone then Deny RedirectsDisabled
      else if targetMatchesOriginalRule \<and> isSameOrigin target current then Follow True
      else if rp_mode p = SameOrigin then Deny CrossOrigin
      else if \<not> targetMatchesSomeRule then Deny NoRuleMatches
      else if \<not> list_ex (\<lambda>origin. origin = ur_origin target) (rp_allowedOrigins p) then Deny NotAllowlisted
      else Follow targetMatchesOriginalRule)"

subsection \<open>Patterns and the paths they name\<close>

lemma anypath_prefix:
  "list_all (\<lambda>c. \<not> line_terminator c) xs \<Longrightarrow> tokens_match [AnyPath] xs"
  by (induction xs) auto

lemma lits_match: "tokens_match (map Lit ps @ ts) (ps @ xs) = tokens_match ts xs"
  by (induction ps) auto

lemma compile_lits: "CHR ''*'' \<notin> set ps \<Longrightarrow> compile_tokens (ps @ cs) = map Lit ps @ compile_tokens cs"
  by (induction ps) auto

text \<open>A pattern that ends in \<open>/**\<close> matches exactly the paths below its directory.\<close>

lemma tokens_lits_only: "tokens_match (map Lit ps @ ts) s \<Longrightarrow> \<exists>xs. s = ps @ xs \<and> tokens_match ts xs"
proof (induction ps arbitrary: s)
  case (Cons p ps)
  then show ?case by (cases s) auto
qed simp

lemma subtree_pattern:
  assumes "CHR ''*'' \<notin> set d" "list_all (\<lambda>c. \<not> line_terminator c) path"
  shows "pathMatches ((CHR ''/'' # d) @ ''/**'') path \<longleftrightarrow> (\<exists>xs. path = (CHR ''/'' # d) @ ''/'' @ xs)"
proof -
  let ?p = "(CHR ''/'' # d) @ ''/''"
  have "compile_tokens (?p @ ''**'') = map Lit ?p @ [AnyPath]"
    using compile_lits [of ?p "''**''"] assms(1) by simp
  then have "pathMatches (?p @ ''**'') path \<longleftrightarrow> tokens_match (map Lit ?p @ [AnyPath]) path"
    by (simp add: pathMatches_def compilePathPattern_def)
  also have "\<dots> \<longleftrightarrow> (\<exists>xs. path = ?p @ xs)"
  proof
    assume "\<exists>xs. path = ?p @ xs"
    then obtain xs where "path = ?p @ xs" by blast
    moreover have "tokens_match [AnyPath] xs"
      using assms(2) calculation by (intro anypath_prefix) simp
    ultimately show "tokens_match (map Lit ?p @ [AnyPath]) path" by (simp only: lits_match)
  qed (blast dest: tokens_lits_only)
  finally show ?thesis by simp
qed

end
