(* ===== verification/NetFetch.thy ===== *)
theory NetFetch
  imports NetMatch
begin

text \<open>
  The authenticated transport of the web fetch: approval of resolved addresses
  (\<open>policy/dns.ts\<close>), authentication headers (\<open>auth/index.ts\<close>), the per-hop pipeline with its
  redirect loop and the capped read (\<open>transport/fetch.ts\<close>), and the provider's rule selection
  (\<open>provider.ts\<close>), all under
  \<open>plugins/dsh-web-fetch-authenticated/src\<close>. The platform (\<open>URL\<close>, the resolver, the
  credential service, one HTTP exchange) is the record \<open>fetch_env\<close> over a world.
\<close>

subsection \<open>Errors\<close>

text \<open>The codes of \<open>errors.ts\<close> this pipeline uses, and \<open>RawError\<close> for an error that is not one of
  them: an unresolvable \<open>Location\<close>, or a response stream that fails while it is read.\<close>

datatype fetch_error =
    ErrNetworkDenied | ErrDnsFailed | ErrCredentialMissing | ErrCredentialInvalid
  | ErrRedirectDenied | ErrProvider | ErrTimeout | ErrAborted | ErrTooLarge
  | ErrNoMatchingRule | ErrAmbiguousMatch | ErrDisabled | ErrInvalidUrl | ErrDownloadFailed
  | ErrNotAnImage | ErrImageTooLarge
  | RawError

subsection \<open>Headers\<close>

record auth_secrets =
  se_credential :: "string option"
  se_password :: "string option"

definition FORBIDDEN_HEADER_NAMES :: "string list" where
  "FORBIDDEN_HEADER_NAMES =
     [''host'', ''content-length'', ''transfer-encoding'', ''connection'', ''proxy-authorization'',
      ''proxy-authenticate'', ''authorization'', ''cookie'', ''set-cookie'', ''expect'', ''te'',
      ''trailer'', ''upgrade'']"

text \<open>\<open>Buffer.from(s, "utf8").toString("base64")\<close>.\<close>

definition utf8 :: "string \<Rightarrow> nat list" where
  "utf8 s = concat (map (\<lambda>c. let n = of_char c in if n < 128 then [n] else [192 + n div 64, 128 + n mod 64]) s)"

definition base64_char :: "nat \<Rightarrow> char" where
  "base64_char n = ''ABCDEFGHIJKLMNOPQRSTUVWXYZabcdefghijklmnopqrstuvwxyz0123456789+/'' ! (n mod 64)"

fun base64 :: "nat list \<Rightarrow> string" where
  "base64 [] = ''''"
| "base64 [a] = [base64_char (a div 4), base64_char (a * 16), CHR ''='', CHR ''='']"
| "base64 [a, b] = [base64_char (a div 4), base64_char (a * 16 + b div 16), base64_char (b * 4), CHR ''='']"
| "base64 (a # b # c # r) =
     [base64_char (a div 4), base64_char (a * 16 + b div 16), base64_char (b * 4 + c div 64), base64_char c] @ base64 r"

datatype auth_error = SecretMissing | ForbiddenHeader

definition present :: "string option \<Rightarrow> string option" where
  "present v = (case v of None \<Rightarrow> None | Some s \<Rightarrow> if length s = 0 then None else Some s)"

definition buildAuthHeaders :: "resolved_rule \<Rightarrow> auth_secrets \<Rightarrow> auth_error + (string \<times> string) list" where
  "buildAuthHeaders rule secrets =
     (case fr_auth (rr_source rule) of
        AuthNone \<Rightarrow> Inr []
      | AuthBearer _ \<Rightarrow>
          (case present (se_credential secrets) of
             None \<Rightarrow> Inl SecretMissing
           | Some c \<Rightarrow> Inr [(''authorization'', ''Bearer '' @ c)])
      | AuthBasic username _ \<Rightarrow>
          (case present (se_password secrets) of
             None \<Rightarrow> Inl SecretMissing
           | Some p \<Rightarrow> Inr [(''authorization'', ''Basic '' @ base64 (utf8 (username @ '':'' @ p)))])
      | AuthHeader headerName _ pre \<Rightarrow>
          (case present (se_credential secrets) of
             None \<Rightarrow> Inl SecretMissing
           | Some c \<Rightarrow>
               if to_lower headerName \<in> set FORBIDDEN_HEADER_NAMES then Inl ForbiddenHeader
               else Inr [(to_lower headerName, (case pre of None \<Rightarrow> '''' | Some p \<Rightarrow> p) @ c)]))"

subsection \<open>Surroundings\<close>

record approved_address =
  ap_address :: string
  ap_family :: ip_family

record fetch_request =
  rq_url :: url
  rq_headers :: "(string \<times> string) list"
  rq_approved :: "approved_address list"

record fetch_response =
  rs_status :: int
  rs_location :: "string option"
  rs_contentType :: "string option"
  rs_declared :: "jsnum option"
  rs_readable :: bool
  rs_chunks :: "nat list list"
  rs_completes :: bool

text \<open>The body is the chunks that arrive and whether the stream then completes; it fails when the
  connection breaks or the fused signal aborts the read. What the error handler of one exchange sees: the caller aborted, the fused signal's
  reason is the timeout, the fused signal is aborted.\<close>

record exchange_failure =
  xf_outerAborted :: bool
  xf_timeoutReason :: bool
  xf_signalAborted :: bool

record 'w fetch_env =
  fe_rules :: "resolved_rule list"
  fe_maxUrlLength :: nat
  fe_userAgent :: string
  fe_parse :: "string \<Rightarrow> url option"
  fe_resolveUrl :: "string \<Rightarrow> url \<Rightarrow> string option"
  fe_dns :: "string \<Rightarrow> 'w \<Rightarrow> string list option \<times> 'w"
  fe_isRef :: "string \<Rightarrow> bool"
  fe_credential :: "string \<Rightarrow> 'w \<Rightarrow> string option \<times> 'w"
  fe_exchange :: "fetch_request \<Rightarrow> 'w \<Rightarrow> (exchange_failure + fetch_response) \<times> 'w"
  fe_aborted :: "'w \<Rightarrow> bool"

definition translateTransportError :: "exchange_failure \<Rightarrow> fetch_error" where
  "translateTransportError f =
     (if \<not> xf_outerAborted f \<and> xf_timeoutReason f then ErrTimeout
      else if xf_signalAborted f then ErrAborted else ErrProvider)"

subsection \<open>Approved addresses\<close>

datatype address_error = PolicyDenied "address_verdict list" | ResolutionFailed

definition approve :: "addresses_verdict \<Rightarrow> address_error + approved_address list" where
  "approve v =
     (if \<not> as_allowed v then Inl (PolicyDenied (as_verdicts v))
      else Inr (map (\<lambda>v. \<lparr>ap_address = av_address v, ap_family = av_family v\<rparr>) (as_verdicts v)))"

definition resolveApprovedAddresses ::
  "'w fetch_env \<Rightarrow> string \<Rightarrow> network_policy \<Rightarrow> 'w \<Rightarrow> (address_error + approved_address list) \<times> 'w" where
  "resolveApprovedAddresses env hostname p w =
     (let bare = strip_brackets hostname in
      if isIpLiteral bare then (approve (evaluateAddresses [bare] p), w)
      else case fe_dns env hostname w of
        (None, w1) \<Rightarrow> (Inl ResolutionFailed, w1)
      | (Some answers, w1) \<Rightarrow>
          if answers = [] then (Inl ResolutionFailed, w1)
          else (approve (evaluateAddresses answers p), w1))"

text \<open>The lookup the socket layer calls: the addresses it may connect to, for a wanted family
  (\<open>None\<close> for any) and with or without \<open>all\<close>.\<close>

definition pinnedLookup :: "approved_address list \<Rightarrow> ip_family option \<Rightarrow> bool \<Rightarrow> approved_address list option" where
  "pinnedLookup approved family wantAll =
     (let wanted = (case family of None \<Rightarrow> approved | Some f \<Rightarrow> filter (\<lambda>a. ap_family a = f) approved);
          pool = (if wanted \<noteq> [] then wanted else approved)
      in if wantAll then Some pool
         else case pool of [] \<Rightarrow> None | a # _ \<Rightarrow> Some [a])"

subsection \<open>Credentials\<close>

definition resolveOne :: "'w fetch_env \<Rightarrow> string \<Rightarrow> 'w \<Rightarrow> (fetch_error + string) \<times> 'w" where
  "resolveOne env ref w =
     (if \<not> fe_isRef env ref then (Inl ErrCredentialInvalid, w)
      else case fe_credential env ref w of
        (None, w1) \<Rightarrow> (Inl ErrCredentialMissing, w1)
      | (Some v, w1) \<Rightarrow> (if length v > 0 then Inr v else Inl ErrCredentialMissing, w1))"

definition resolveSecrets :: "'w fetch_env \<Rightarrow> resolved_rule \<Rightarrow> 'w \<Rightarrow> (fetch_error + auth_secrets) \<times> 'w" where
  "resolveSecrets env rule w =
     (case fr_auth (rr_source rule) of
        AuthNone \<Rightarrow> (Inr \<lparr>se_credential = None, se_password = None\<rparr>, w)
      | AuthBasic _ ref \<Rightarrow>
          (case resolveOne env ref w of
             (Inl e, w1) \<Rightarrow> (Inl e, w1)
           | (Inr v, w1) \<Rightarrow> (Inr \<lparr>se_credential = None, se_password = Some v\<rparr>, w1))
      | AuthBearer ref \<Rightarrow>
          (case resolveOne env ref w of
             (Inl e, w1) \<Rightarrow> (Inl e, w1)
           | (Inr v, w1) \<Rightarrow> (Inr \<lparr>se_credential = Some v, se_password = None\<rparr>, w1))
      | AuthHeader _ ref _ \<Rightarrow>
          (case resolveOne env ref w of
             (Inl e, w1) \<Rightarrow> (Inl e, w1)
           | (Inr v, w1) \<Rightarrow> (Inr \<lparr>se_credential = Some v, se_password = None\<rparr>, w1)))"

subsection \<open>The pipeline\<close>

text \<open>The loop's variables, and the requests sent so far with the rule each was sent under.\<close>

record 'w fetch_state =
  fx_url :: url
  fx_rule :: resolved_rule
  fx_followed :: nat
  fx_cache :: "(string \<times> auth_secrets) list"
  fx_sent :: "(resolved_rule \<times> fetch_request) list"
  fx_world :: 'w

definition rule_id :: "resolved_rule \<Rightarrow> string" where
  "rule_id r = fr_id (rr_source r)"

definition isRedirectStatus :: "int \<Rightarrow> bool" where
  "isRedirectStatus s \<longleftrightarrow> s \<in> {301, 302, 303, 307, 308}"

definition cachedSecrets :: "'w fetch_env \<Rightarrow> 'w fetch_state \<Rightarrow> (fetch_error + auth_secrets) \<times> 'w fetch_state" where
  "cachedSecrets env s =
     (case map_of (fx_cache s) (rule_id (fx_rule s)) of
        Some sec \<Rightarrow> (Inr sec, s)
      | None \<Rightarrow>
          (case resolveSecrets env (fx_rule s) (fx_world s) of
             (Inl e, w1) \<Rightarrow> (Inl e, s\<lparr>fx_world := w1\<rparr>)
           | (Inr sec, w1) \<Rightarrow>
               (Inr sec, s\<lparr>fx_world := w1, fx_cache := amap_set (rule_id (fx_rule s)) sec (fx_cache s)\<rparr>)))"

datatype hop_outcome = HopFail fetch_error | HopFollow | HopDone fetch_response

definition redirect_hop :: "'w fetch_env \<Rightarrow> fetch_response \<Rightarrow> 'w fetch_state \<Rightarrow> hop_outcome \<times> 'w fetch_state" where
  "redirect_hop env resp s =
     (case rs_location resp of
        None \<Rightarrow> (HopFail ErrRedirectDenied, s)
      | Some location \<Rightarrow>
          if int (fx_followed s) \<ge> rp_maxRedirects (rr_redirects (fx_rule s)) then (HopFail ErrRedirectDenied, s)
          else case fe_resolveUrl env location (fx_url s) of
            None \<Rightarrow> (HopFail RawError, s)
          | Some tx \<Rightarrow>
              (case validateFetchUrl (fe_parse env) tx (fe_maxUrlLength env) of
                 Inl _ \<Rightarrow> (HopFail ErrRedirectDenied, s)
               | Inr target \<Rightarrow>
                   (let sameRule = ruleMatchesUrl (rr_source (fx_rule s)) target;
                        someRule = matchRules (fe_rules env) target
                    in case decideRedirect (rr_redirects (fx_rule s)) (fx_url s) target sameRule (someRule \<noteq> []) of
                         Deny _ \<Rightarrow> (HopFail ErrRedirectDenied, s)
                       | Follow same \<Rightarrow>
                           (HopFollow,
                            s\<lparr>fx_rule := (if \<not> same \<and> someRule \<noteq> [] then hd someRule else fx_rule s),
                              fx_url := target, fx_followed := fx_followed s + 1\<rparr>))))"

definition request_headers :: "'w fetch_env \<Rightarrow> string \<Rightarrow> (string \<times> string) list \<Rightarrow> (string \<times> string) list" where
  "request_headers env accept auth =
     fold (\<lambda>(k, v). amap_set k v) auth [(''user-agent'', fe_userAgent env), (''accept'', accept)]"

definition fetch_hop :: "'w fetch_env \<Rightarrow> string \<Rightarrow> 'w fetch_state \<Rightarrow> hop_outcome \<times> 'w fetch_state" where
  "fetch_hop env accept s =
     (case resolveApprovedAddresses env (ur_hostname (fx_url s)) (rr_networkPolicy (fx_rule s)) (fx_world s) of
        (Inl (PolicyDenied _), w1) \<Rightarrow> (HopFail ErrNetworkDenied, s\<lparr>fx_world := w1\<rparr>)
      | (Inl ResolutionFailed, w1) \<Rightarrow> (HopFail ErrDnsFailed, s\<lparr>fx_world := w1\<rparr>)
      | (Inr approved, w1) \<Rightarrow>
          (case cachedSecrets env (s\<lparr>fx_world := w1\<rparr>) of
             (Inl e, s2) \<Rightarrow> (HopFail e, s2)
           | (Inr sec, s2) \<Rightarrow>
               (case buildAuthHeaders (fx_rule s2) sec of
                  Inl _ \<Rightarrow> (HopFail ErrCredentialMissing, s2)
                | Inr auth \<Rightarrow>
                    (let req = \<lparr>rq_url = fx_url s2, rq_headers = request_headers env accept auth,
                                rq_approved = approved\<rparr>;
                         (r, w3) = fe_exchange env req (fx_world s2);
                         s3 = s2\<lparr>fx_world := w3, fx_sent := fx_sent s2 @ [(fx_rule s2, req)]\<rparr>
                     in case r of
                          Inl f \<Rightarrow> (HopFail (translateTransportError f), s3)
                        | Inr resp \<Rightarrow>
                            if isRedirectStatus (rs_status resp) then redirect_hop env resp s3
                            else (HopDone resp, s3)))))"

text \<open>The loop, with as many hops as its fuel; \<open>None\<close> is a loop still running then.\<close>

fun fetch_loop :: "nat \<Rightarrow> 'w fetch_env \<Rightarrow> string \<Rightarrow> 'w fetch_state \<Rightarrow> ((fetch_error + fetch_response) \<times> 'w fetch_state) option" where
  "fetch_loop 0 env accept s = None"
| "fetch_loop (Suc n) env accept s =
     (case fetch_hop env accept s of
        (HopFollow, s1) \<Rightarrow> fetch_loop n env accept s1
      | (HopFail e, s1) \<Rightarrow> Some (Inl e, s1)
      | (HopDone r, s1) \<Rightarrow> Some (Inr r, s1))"

definition start_fetch :: "resolved_rule \<Rightarrow> url \<Rightarrow> 'w \<Rightarrow> 'w fetch_state" where
  "start_fetch rule u w =
     \<lparr>fx_url = u, fx_rule = rule, fx_followed = 0, fx_cache = [], fx_sent = [], fx_world = w\<rparr>"

definition redirect_fuel :: "'w fetch_env \<Rightarrow> resolved_rule \<Rightarrow> nat" where
  "redirect_fuel env rule =
     Suc (foldr max (map (\<lambda>r. nat (rp_maxRedirects (rr_redirects r))) (rule # fe_rules env)) 0)"

definition runAuthenticatedFetch ::
  "'w fetch_env \<Rightarrow> string \<Rightarrow> resolved_rule \<Rightarrow> url \<Rightarrow> 'w \<Rightarrow> ((fetch_error + fetch_response) \<times> 'w fetch_state) option" where
  "runAuthenticatedFetch env accept rule u w =
     (if fe_aborted env w then Some (Inl ErrAborted, start_fetch rule u w)
      else fetch_loop (redirect_fuel env rule) env accept (start_fetch rule u w))"

subsection \<open>The capped read\<close>

fun read_loop :: "nat \<Rightarrow> nat list list \<Rightarrow> bool \<Rightarrow> nat list \<Rightarrow> (nat list \<times> bool) option" where
  "read_loop maxBytes [] completes acc = (if completes then Some (acc, False) else None)"
| "read_loop maxBytes (buffer # bs) completes acc =
     (let remaining = maxBytes - length acc in
      if length buffer > remaining then Some (acc @ take remaining buffer, True)
      else read_loop maxBytes bs completes (acc @ buffer))"

definition readCapped :: "fetch_response \<Rightarrow> nat \<Rightarrow> fetch_error + (nat list \<times> bool)" where
  "readCapped resp maxBytes =
     (if (case rs_declared resp of Some (Fin n) \<Rightarrow> n > of_nat maxBytes | _ \<Rightarrow> False) then Inl ErrTooLarge
      else if \<not> rs_readable resp then Inr ([], False)
      else case read_loop maxBytes (rs_chunks resp) (rs_completes resp) [] of
        None \<Rightarrow> Inl RawError | Some b \<Rightarrow> Inr b)"

record fetched_binary =
  fb_url :: string
  fb_statusCode :: int
  fb_contentType :: "string option"
  fb_bytes :: "nat list"
  fb_truncated :: bool

definition authenticatedFetchBinary ::
  "'w fetch_env \<Rightarrow> string \<Rightarrow> nat \<Rightarrow> resolved_rule \<Rightarrow> url \<Rightarrow> 'w \<Rightarrow> ((fetch_error + fetched_binary) \<times> 'w fetch_state) option" where
  "authenticatedFetchBinary env accept maxBytes rule u w =
     (case runAuthenticatedFetch env accept rule u w of
        None \<Rightarrow> None
      | Some (Inl e, s) \<Rightarrow> Some (Inl e, s)
      | Some (Inr resp, s) \<Rightarrow>
          Some (case readCapped resp (min maxBytes (nat (fl_maxResponseBytes (rr_limits (fx_rule s))))) of
                  Inl e \<Rightarrow> (Inl e, s)
                | Inr (bytes, truncated) \<Rightarrow>
                    (Inr \<lparr>fb_url = ur_href (fx_url s), fb_statusCode = rs_status resp,
                          fb_contentType = rs_contentType resp, fb_bytes = bytes, fb_truncated = truncated\<rparr>, s)))"

subsection \<open>The provider\<close>

definition validatedUrl :: "'w fetch_env \<Rightarrow> string \<Rightarrow> fetch_error + url" where
  "validatedUrl env raw =
     (case validateFetchUrl (fe_parse env) raw (fe_maxUrlLength env) of
        Inl _ \<Rightarrow> Inl ErrInvalidUrl | Inr u \<Rightarrow> Inr u)"

definition ruleFor :: "'w fetch_env \<Rightarrow> url \<Rightarrow> fetch_error + resolved_rule" where
  "ruleFor env u =
     (case matchRules (fe_rules env) u of
        [] \<Rightarrow> Inl ErrNoMatchingRule
      | [r] \<Rightarrow> Inr r
      | _ \<Rightarrow> Inl ErrAmbiguousMatch)"

end
