(* ===== verification/NetSafety.thy ===== *)
theory NetSafety
  imports NetFetch
begin

text \<open>
  Lemmas on the authenticated transport: what an approved address is, that every request is
  sent under a rule that matches its URL with that rule's own credentials, that the redirect
  loop ends, and the capped read as a prefix.
\<close>

subsection \<open>Approved addresses\<close>

definition address_ok :: "network_policy \<Rightarrow> approved_address \<Rightarrow> bool" where
  "address_ok p a \<longleftrightarrow>
     (case parseIp (ap_address a) of
        None \<Rightarrow> False
      | Some ip \<Rightarrow> destinationOf ip = ip \<and> ap_family a = ip_family ip \<and>
          classify ip \<notin> set ALWAYS_DENIED \<and> \<not> list_ex (\<lambda>c. inCidr c ip) (np_deniedCidrs p) \<and> allowed_by p ip)"

lemma destination_idem: "ip_wf ip \<Longrightarrow> destinationOf (destinationOf ip) = destinationOf ip"
  using destination_family [of ip] by (cases "destinationOf ip = ip") auto

lemma verdict_ok:
  assumes "av_allowed (evaluateAddress a p)"
  shows "address_ok p \<lparr>ap_address = av_address (evaluateAddress a p), ap_family = av_family (evaluateAddress a p)\<rparr>"
proof -
  obtain ip where ip: "parseIp a = Some ip"
    using assms evaluate_unparsed [of a p] by (cases "parseIp a") auto
  note e = evaluate_parsed [OF ip, of p]
  have idem: "destinationOf (destinationOf ip) = destinationOf ip"
    by (rule destination_idem [OF parseIp_wf [OF ip]])
  show ?thesis
    using e assms verdict_address [OF ip] idem
    by (auto simp: address_ok_def denied_by_def allowed_by_def list_ex_iff)
qed

lemma approve_ok:
  assumes "approve (evaluateAddresses as p) = Inr approved"
  shows "list_all (address_ok p) approved \<and> length approved = length as"
  using assms verdict_ok [of _ p]
  by (auto simp: approve_def evaluateAddresses_def Let_def find_None_iff list_all_iff split: if_splits)

lemma resolve_ok:
  assumes "resolveApprovedAddresses env h p w = (Inr approved, w')"
  shows "list_all (address_ok p) approved \<and> approved \<noteq> []"
  using assms approve_ok [of _ p approved]
  by (fastforce simp: resolveApprovedAddresses_def Let_def split: if_splits prod.splits option.splits)

lemma pinned_subset:
  assumes "pinnedLookup approved f a = Some pool"
  shows "set pool \<subseteq> set approved"
proof -
  define wanted where "wanted = (case f of None \<Rightarrow> approved | Some f \<Rightarrow> filter (\<lambda>a. ap_family a = f) approved)"
  define full where "full = (if wanted \<noteq> [] then wanted else approved)"
  have "set full \<subseteq> set approved" by (auto simp: full_def wanted_def split: option.splits)
  moreover have "set pool \<subseteq> set full"
    using assms unfolding pinnedLookup_def Let_def wanted_def [symmetric] full_def [symmetric]
    by (auto split: if_splits list.splits)
  ultimately show ?thesis by blast
qed

subsection \<open>Every request\<close>

definition secrets_of :: "'w fetch_env \<Rightarrow> resolved_rule \<Rightarrow> auth_secrets \<Rightarrow> bool" where
  "secrets_of env rule sec \<longleftrightarrow> (\<exists>w. fst (resolveSecrets env rule w) = Inr sec)"

definition request_ok :: "'w fetch_env \<Rightarrow> string \<Rightarrow> resolved_rule \<times> fetch_request \<Rightarrow> bool" where
  "request_ok env accept e \<longleftrightarrow>
     (case e of (rule, req) \<Rightarrow>
        rule \<in> set (fe_rules env) \<and> ruleMatchesUrl (rr_source rule) (rq_url req) \<and>
        rq_approved req \<noteq> [] \<and> list_all (address_ok (rr_networkPolicy rule)) (rq_approved req) \<and>
        (\<exists>sec auth. secrets_of env rule sec \<and> buildAuthHeaders rule sec = Inr auth \<and>
           rq_headers req = request_headers env accept auth))"

definition fetch_inv :: "'w fetch_env \<Rightarrow> string \<Rightarrow> 'w fetch_state \<Rightarrow> bool" where
  "fetch_inv env accept s \<longleftrightarrow>
     fx_rule s \<in> set (fe_rules env) \<and> ruleMatchesUrl (rr_source (fx_rule s)) (fx_url s) \<and>
     (\<forall>(i, sec) \<in> set (fx_cache s). \<exists>r \<in> set (fe_rules env). rule_id r = i \<and> secrets_of env r sec) \<and>
     list_all (request_ok env accept) (fx_sent s)"

lemma set_amap_set: "set (amap_set k v m) \<subseteq> insert (k, v) (set m)"
  by (induction k v m rule: amap_set.induct) auto

lemma cachedSecrets_inv:
  assumes "distinct (map rule_id (fe_rules env))" "fetch_inv env accept s" "cachedSecrets env s = (r, s')"
  shows "fetch_inv env accept s'" "fx_rule s' = fx_rule s" "fx_url s' = fx_url s" "fx_sent s' = fx_sent s"
    "fx_followed s' = fx_followed s" "r = Inr sec \<Longrightarrow> secrets_of env (fx_rule s) sec"
proof -
  have same: "r1 = r2" if "r1 \<in> set (fe_rules env)" "r2 \<in> set (fe_rules env)" "rule_id r1 = rule_id r2" for r1 r2
    using assms(1) that by (auto simp: distinct_map inj_on_def)
  have I: "fx_rule s \<in> set (fe_rules env)" "ruleMatchesUrl (rr_source (fx_rule s)) (fx_url s)"
    "\<forall>(i, sec) \<in> set (fx_cache s). \<exists>r \<in> set (fe_rules env). rule_id r = i \<and> secrets_of env r sec"
    "list_all (request_ok env accept) (fx_sent s)"
    using assms(2) by (simp_all add: fetch_inv_def)
  have "fetch_inv env accept s' \<and> fx_rule s' = fx_rule s \<and> fx_url s' = fx_url s \<and> fx_sent s' = fx_sent s \<and>
      fx_followed s' = fx_followed s \<and> (\<forall>sec. r = Inr sec \<longrightarrow> secrets_of env (fx_rule s) sec)"
  proof (cases "map_of (fx_cache s) (rule_id (fx_rule s))")
    case (Some sec)
    then have "(rule_id (fx_rule s), sec) \<in> set (fx_cache s)" by (rule map_of_SomeD)
    then obtain r0 where "r0 \<in> set (fe_rules env)" "rule_id r0 = rule_id (fx_rule s)" "secrets_of env r0 sec"
      using I(3) by auto
    then have "secrets_of env (fx_rule s) sec" using same I(1) by metis
    then show ?thesis using assms(2,3) Some by (auto simp: cachedSecrets_def)
  next
    case None
    obtain r1 w1 where rs: "resolveSecrets env (fx_rule s) (fx_world s) = (r1, w1)" by force
    show ?thesis
    proof (cases r1)
      case (Inl e)
      then show ?thesis using assms(3) None rs I by (auto simp: cachedSecrets_def fetch_inv_def)
    next
      case (Inr sec)
      have sec: "secrets_of env (fx_rule s) sec"
        unfolding secrets_of_def by (rule exI [of _ "fx_world s"]) (simp add: rs Inr)
      have s': "s' = s\<lparr>fx_world := w1, fx_cache := amap_set (rule_id (fx_rule s)) sec (fx_cache s)\<rparr>" "r = Inr sec"
        using assms(3) None rs Inr by (auto simp: cachedSecrets_def)
      have "\<forall>(i, sec) \<in> set (amap_set (rule_id (fx_rule s)) sec (fx_cache s)).
          \<exists>r \<in> set (fe_rules env). rule_id r = i \<and> secrets_of env r sec"
        using set_amap_set [of "rule_id (fx_rule s)" sec "fx_cache s"] I(1,3) sec by blast
      then show ?thesis using s' I sec by (simp add: fetch_inv_def)
    qed
  qed
  then show "fetch_inv env accept s'" "fx_rule s' = fx_rule s" "fx_url s' = fx_url s" "fx_sent s' = fx_sent s"
    "fx_followed s' = fx_followed s" "r = Inr sec \<Longrightarrow> secrets_of env (fx_rule s) sec" by simp_all
qed

text \<open>A redirect keeps the invariant: the rule in effect still matches the URL.\<close>

lemma redirect_follow:
  assumes "redirect_hop env resp s = (HopFollow, s')"
  obtains target where
    "decideRedirect (rr_redirects (fx_rule s)) (fx_url s) target (ruleMatchesUrl (rr_source (fx_rule s)) target)
       (matchRules (fe_rules env) target \<noteq> []) = Follow (ruleMatchesUrl (rr_source (fx_rule s)) target)"
    "int (fx_followed s) < rp_maxRedirects (rr_redirects (fx_rule s))"
    "s' = s\<lparr>fx_rule := (if \<not> ruleMatchesUrl (rr_source (fx_rule s)) target \<and> matchRules (fe_rules env) target \<noteq> []
               then hd (matchRules (fe_rules env) target) else fx_rule s),
            fx_url := target, fx_followed := fx_followed s + 1\<rparr>"
proof -
  obtain location where l: "rs_location resp = Some location"
    using assms by (cases "rs_location resp") (auto simp: redirect_hop_def)
  have lt: "int (fx_followed s) < rp_maxRedirects (rr_redirects (fx_rule s))"
    using assms l by (auto simp: redirect_hop_def not_le split: if_splits)
  obtain tx where tx: "fe_resolveUrl env location (fx_url s) = Some tx"
    using assms l lt by (cases "fe_resolveUrl env location (fx_url s)") (auto simp: redirect_hop_def)
  obtain target where t: "validateFetchUrl (fe_parse env) tx (fe_maxUrlLength env) = Inr target"
    using assms l lt tx by (cases "validateFetchUrl (fe_parse env) tx (fe_maxUrlLength env)") (auto simp: redirect_hop_def)
  let ?same = "ruleMatchesUrl (rr_source (fx_rule s)) target"
  have d: "decideRedirect p c target ?same some = Follow b \<Longrightarrow> b = ?same" for p c some b
    by (auto simp: decideRedirect_def split: if_splits)
  obtain b where b: "decideRedirect (rr_redirects (fx_rule s)) (fx_url s) target ?same
      (matchRules (fe_rules env) target \<noteq> []) = Follow b"
    using assms l lt tx t
    by (cases "decideRedirect (rr_redirects (fx_rule s)) (fx_url s) target ?same (matchRules (fe_rules env) target \<noteq> [])")
      (auto simp: redirect_hop_def Let_def)
  show ?thesis
    by (rule that [of target]) (use assms l lt tx t b d [OF b] in \<open>auto simp: redirect_hop_def Let_def\<close>)
qed

lemma redirect_keeps:
  assumes "redirect_hop env resp s = (r, s')" "r \<noteq> HopFollow"
  shows "s' = s"
  using assms
  by (auto simp: redirect_hop_def Let_def split: option.splits if_splits sum.splits redirect_decision.splits)

lemma redirect_inv:
  assumes "fetch_inv env accept s" "redirect_hop env resp s = (r, s')"
  shows "fetch_inv env accept s'"
proof (cases "r = HopFollow")
  case True
  from assms(2) [unfolded True] obtain target where
    d: "decideRedirect (rr_redirects (fx_rule s)) (fx_url s) target (ruleMatchesUrl (rr_source (fx_rule s)) target)
       (matchRules (fe_rules env) target \<noteq> []) = Follow (ruleMatchesUrl (rr_source (fx_rule s)) target)"
    and s': "s' = s\<lparr>fx_rule := (if \<not> ruleMatchesUrl (rr_source (fx_rule s)) target \<and> matchRules (fe_rules env) target \<noteq> []
               then hd (matchRules (fe_rules env) target) else fx_rule s),
            fx_url := target, fx_followed := fx_followed s + 1\<rparr>"
    by (rule redirect_follow)
  have hd: "hd (matchRules (fe_rules env) target) \<in> set (fe_rules env) \<and>
      ruleMatchesUrl (rr_source (hd (matchRules (fe_rules env) target))) target"
    if "matchRules (fe_rules env) target \<noteq> []"
    using hd_in_set [OF that] by (auto simp: matchRules_def)
  have "\<not> ruleMatchesUrl (rr_source (fx_rule s)) target \<Longrightarrow> matchRules (fe_rules env) target \<noteq> []"
    using d by (auto simp: decideRedirect_def split: if_splits)
  then show ?thesis using assms(1) s' hd by (auto simp: fetch_inv_def)
qed (use redirect_keeps [OF assms(2)] assms(1) in simp)


text \<open>A hop refuses before it sends, or sends one request and acts on the answer.\<close>

lemma fetch_hop_cases:
  assumes "distinct (map rule_id (fe_rules env))" "fetch_inv env accept s" "fetch_hop env accept s = (r, s')"
  obtains (refused) e where "r = HopFail e" "fetch_inv env accept s'" "fx_rule s' = fx_rule s"
      "fx_url s' = fx_url s" "fx_followed s' = fx_followed s" "fx_sent s' = fx_sent s"
  | (sent) req x s3 where "fetch_inv env accept s3" "fx_rule s3 = fx_rule s" "fx_url s3 = fx_url s"
      "fx_followed s3 = fx_followed s" "fx_sent s3 = fx_sent s @ [(fx_rule s, req)]" "rq_url req = fx_url s"
      "(case x of Inl f \<Rightarrow> (HopFail (translateTransportError f), s3)
         | Inr resp \<Rightarrow> if isRedirectStatus (rs_status resp) then redirect_hop env resp s3 else (HopDone resp, s3)) = (r, s')"
proof -
  obtain a w1 where ap: "resolveApprovedAddresses env (ur_hostname (fx_url s)) (rr_networkPolicy (fx_rule s)) (fx_world s) = (a, w1)"
    by force
  have I0: "fetch_inv env accept (s\<lparr>fx_world := w1\<rparr>)" using assms(2) by (simp add: fetch_inv_def)
  show ?thesis
  proof (cases a)
    case (Inl e)
    then show ?thesis using assms(3) ap I0
      by (intro refused [of "case e of PolicyDenied _ \<Rightarrow> ErrNetworkDenied | ResolutionFailed \<Rightarrow> ErrDnsFailed"])
        (auto simp: fetch_hop_def split: address_error.splits)
  next
    case (Inr approved)
    obtain c s2 where c: "cachedSecrets env (s\<lparr>fx_world := w1\<rparr>) = (c, s2)" by force
    note cs = cachedSecrets_inv [OF assms(1) I0 c]
    show ?thesis
    proof (cases c)
      case (Inl e)
      then show ?thesis using assms(3) ap \<open>a = _\<close> c cs(1-5)
        by (intro refused [of e]) (auto simp: fetch_hop_def)
    next
      case sec: (Inr sec)
      show ?thesis
      proof (cases "buildAuthHeaders (fx_rule s2) sec")
        case (Inl e)
        then show ?thesis using assms(3) ap \<open>a = _\<close> c sec cs(1-5)
          by (intro refused [of ErrCredentialMissing]) (auto simp: fetch_hop_def)
      next
        case auth: (Inr auth)
        define req where "req = \<lparr>rq_url = fx_url s2, rq_headers = request_headers env accept auth, rq_approved = approved\<rparr>"
        obtain x w3 where x: "fe_exchange env req (fx_world s2) = (x, w3)" by force
        define s3 where "s3 = s2\<lparr>fx_world := w3, fx_sent := fx_sent s2 @ [(fx_rule s2, req)]\<rparr>"
        have "request_ok env accept (fx_rule s2, req)"
          using cs resolve_ok [OF ap [unfolded Inr]] I0 cs(6) [OF sec] auth
          by (auto simp: request_ok_def req_def fetch_inv_def)
        then have I3: "fetch_inv env accept s3"
          using cs(1) by (simp add: s3_def fetch_inv_def)
        have "fetch_hop env accept s =
            (case x of Inl f \<Rightarrow> (HopFail (translateTransportError f), s3)
             | Inr resp \<Rightarrow> if isRedirectStatus (rs_status resp) then redirect_hop env resp s3 else (HopDone resp, s3))"
          unfolding s3_def using ap Inr c sec auth x by (simp add: fetch_hop_def Let_def flip: req_def)
        then show ?thesis
          using cs(2-5) assms(3) by (intro sent [OF I3, of req x]) (simp_all add: s3_def req_def)
      qed
    qed
  qed
qed

lemma fetch_hop_inv:
  assumes "distinct (map rule_id (fe_rules env))" "fetch_inv env accept s" "fetch_hop env accept s = (r, s')"
  shows "fetch_inv env accept s'"
  using assms
proof (cases rule: fetch_hop_cases)
  case (sent req x s3)
  then show ?thesis using redirect_inv [OF sent(1)] by (auto split: sum.splits if_splits)
qed

lemma fetch_loop_inv:
  assumes "distinct (map rule_id (fe_rules env))"
  shows "fetch_inv env accept s \<Longrightarrow> fetch_loop n env accept s = Some (r, s') \<Longrightarrow> fetch_inv env accept s'"
proof (induction n arbitrary: s)
  case (Suc n)
  obtain h s1 where h: "fetch_hop env accept s = (h, s1)" by force
  have I1: "fetch_inv env accept s1" by (rule fetch_hop_inv [OF assms Suc.prems(1) h])
  show ?case using Suc.IH [OF I1] Suc.prems(2) h I1 by (cases h) auto
qed simp

subsection \<open>The loop ends\<close>

lemma cachedSecrets_frame:
  assumes "cachedSecrets env s = (r, s')"
  shows "fx_rule s' = fx_rule s" "fx_followed s' = fx_followed s" "fx_sent s' = fx_sent s"
  using assms by (auto simp: cachedSecrets_def split: option.splits prod.splits sum.splits)

text \<open>A hop sends at most one request; one that follows a redirect was within its rule's maximum.\<close>

lemma fetch_hop_step:
  assumes "fetch_hop env accept s = (h, s')"
  shows "length (fx_sent s') \<le> Suc (length (fx_sent s))"
    "h = HopFollow \<Longrightarrow> int (fx_followed s) < rp_maxRedirects (rr_redirects (fx_rule s)) \<and>
       fx_followed s' = Suc (fx_followed s) \<and> (fx_rule s' = fx_rule s \<or> fx_rule s' \<in> set (fe_rules env))"
proof -
  obtain a w1 where ap: "resolveApprovedAddresses env (ur_hostname (fx_url s)) (rr_networkPolicy (fx_rule s)) (fx_world s) = (a, w1)"
    by force
  obtain c s2 where c: "cachedSecrets env (s\<lparr>fx_world := w1\<rparr>) = (c, s2)" by force
  note fr = cachedSecrets_frame [OF c, simplified]
  have "length (fx_sent s') \<le> Suc (length (fx_sent s)) \<and>
    (h = HopFollow \<longrightarrow> int (fx_followed s) < rp_maxRedirects (rr_redirects (fx_rule s)) \<and>
       fx_followed s' = Suc (fx_followed s) \<and> (fx_rule s' = fx_rule s \<or> fx_rule s' \<in> set (fe_rules env)))"
  proof (cases "(\<exists>e. a = Inl e) \<or> (\<exists>e. c = Inl e)")
    case True
    then show ?thesis using assms ap c fr(3)
      by (auto simp: fetch_hop_def split: sum.splits address_error.splits)
  next
    case False
    then obtain approved sec where ok: "a = Inr approved" "c = Inr sec" by (cases a; cases c) auto
    show ?thesis
    proof (cases "buildAuthHeaders (fx_rule s2) sec")
      case (Inl e)
      then show ?thesis using assms ap c ok fr(3) by (auto simp: fetch_hop_def)
    next
      case (Inr auth)
      define req where "req = \<lparr>rq_url = fx_url s2, rq_headers = request_headers env accept auth, rq_approved = approved\<rparr>"
      obtain x w3 where x: "fe_exchange env req (fx_world s2) = (x, w3)" by force
      define s3 where "s3 = s2\<lparr>fx_world := w3, fx_sent := fx_sent s2 @ [(fx_rule s2, req)]\<rparr>"
      have s3: "fx_rule s3 = fx_rule s" "fx_followed s3 = fx_followed s" "length (fx_sent s3) = Suc (length (fx_sent s))"
        using fr by (simp_all add: s3_def)
      have h: "(case x of Inl f \<Rightarrow> (HopFail (translateTransportError f), s3)
             | Inr resp \<Rightarrow> if isRedirectStatus (rs_status resp) then redirect_hop env resp s3 else (HopDone resp, s3)) = (h, s')"
        unfolding s3_def using assms ap c ok Inr x by (simp add: fetch_hop_def Let_def flip: req_def)
      show ?thesis
      proof (cases "h = HopFollow")
        case True
        then obtain resp where "redirect_hop env resp s3 = (HopFollow, s')"
          using h by (auto split: sum.splits if_splits)
        then show ?thesis
          by (rule redirect_follow) (use s3 in \<open>auto simp: matchRules_def dest!: hd_in_set\<close>)
      next
        case False
        then have "s' = s3" using h by (auto dest: redirect_keeps split: sum.splits if_splits)
        then show ?thesis using s3 False by simp
      qed
    qed
  qed
  then show "length (fx_sent s') \<le> Suc (length (fx_sent s))"
    "h = HopFollow \<Longrightarrow> int (fx_followed s) < rp_maxRedirects (rr_redirects (fx_rule s)) \<and>
       fx_followed s' = Suc (fx_followed s) \<and> (fx_rule s' = fx_rule s \<or> fx_rule s' \<in> set (fe_rules env))" by blast+
qed

lemma fetch_loop_ends:
  assumes "\<forall>r \<in> insert rule (set (fe_rules env)). rp_maxRedirects (rr_redirects r) \<le> int m"
  shows "fx_rule s \<in> insert rule (set (fe_rules env)) \<Longrightarrow> fx_followed s + n = Suc m \<Longrightarrow> 0 < n \<Longrightarrow>
    \<exists>r s'. fetch_loop n env accept s = Some (r, s') \<and> length (fx_sent s') \<le> length (fx_sent s) + n"
proof (induction n arbitrary: s)
  case (Suc n)
  obtain h s1 where h: "fetch_hop env accept s = (h, s1)" by force
  note step = fetch_hop_step [OF h]
  show ?case
  proof (cases "h = HopFollow")
    case True
    note f = step(2) [OF True]
    have "int (fx_followed s) < int m" using f assms Suc.prems(1) by force
    then have "0 < n" using Suc.prems(2) by simp
    moreover have "fx_rule s1 \<in> insert rule (set (fe_rules env))" using f Suc.prems(1) by auto
    ultimately obtain r s' where "fetch_loop n env accept s1 = Some (r, s')" "length (fx_sent s') \<le> length (fx_sent s1) + n"
      using Suc.IH [of s1] f Suc.prems(2) by auto
    then show ?thesis using h True step(1) by auto
  next
    case False
    then show ?thesis using h step(1) by (cases h) auto
  qed
qed simp

lemma foldr_max_ge: "x \<in> set xs \<Longrightarrow> x \<le> foldr max xs (0 :: nat)"
  by (induction xs) auto

lemma run_ends:
  "\<exists>r s. runAuthenticatedFetch env accept rule u w = Some (r, s) \<and> length (fx_sent s) \<le> redirect_fuel env rule"
proof (cases "fe_aborted env w")
  case True
  then show ?thesis by (simp add: runAuthenticatedFetch_def start_fetch_def)
next
  case False
  let ?m = "foldr max (map (\<lambda>r. nat (rp_maxRedirects (rr_redirects r))) (rule # fe_rules env)) 0"
  have "\<forall>r \<in> insert rule (set (fe_rules env)). rp_maxRedirects (rr_redirects r) \<le> int ?m"
  proof
    fix r
    assume "r \<in> insert rule (set (fe_rules env))"
    then have "nat (rp_maxRedirects (rr_redirects r)) \<le> ?m" by (intro foldr_max_ge) auto
    then show "rp_maxRedirects (rr_redirects r) \<le> int ?m" by simp
  qed
  from fetch_loop_ends [OF this, of "start_fetch rule u w" "Suc ?m" accept] False show ?thesis
    by (simp add: runAuthenticatedFetch_def redirect_fuel_def start_fetch_def del: foldr.simps list.map)
qed

text \<open>Outside the allowlist mode the origin and the rule never change.\<close>

definition stays :: "resolved_rule \<Rightarrow> url \<Rightarrow> 'w fetch_state \<Rightarrow> bool" where
  "stays rule u s \<longleftrightarrow> fx_rule s = rule \<and> isSameOrigin (fx_url s) u \<and>
     list_all (\<lambda>(r, req). r = rule \<and> isSameOrigin (rq_url req) u) (fx_sent s)"

lemma stays_hop:
  assumes d: "distinct (map rule_id (fe_rules env))" and i: "fetch_inv env accept s"
    and m: "rp_mode (rr_redirects rule) \<noteq> Allowlist" and st: "stays rule u s"
    and h: "fetch_hop env accept s = (h, s1)"
  shows "stays rule u s1"
  using d i h
proof (cases rule: fetch_hop_cases)
  case (refused e)
  then show ?thesis using st by (simp add: stays_def)
next
  case (sent req x s3)
  have s3: "stays rule u s3" using sent st by (simp add: stays_def)
  show ?thesis
  proof (cases "h = HopFollow")
    case True
    then obtain resp where "redirect_hop env resp s3 = (HopFollow, s1)"
      using sent(7) by (auto split: sum.splits if_splits)
    then show ?thesis
    proof (rule redirect_follow)
      fix target
      assume t: "decideRedirect (rr_redirects (fx_rule s3)) (fx_url s3) target (ruleMatchesUrl (rr_source (fx_rule s3)) target)
         (matchRules (fe_rules env) target \<noteq> []) = Follow (ruleMatchesUrl (rr_source (fx_rule s3)) target)"
        and s1: "s1 = s3\<lparr>fx_rule := (if \<not> ruleMatchesUrl (rr_source (fx_rule s3)) target \<and> matchRules (fe_rules env) target \<noteq> []
               then hd (matchRules (fe_rules env) target) else fx_rule s3),
            fx_url := target, fx_followed := fx_followed s3 + 1\<rparr>"
      have "rp_mode (rr_redirects (fx_rule s3)) \<noteq> Allowlist" using m s3 by (simp add: stays_def)
      then have "ruleMatchesUrl (rr_source (fx_rule s3)) target \<and> isSameOrigin target (fx_url s3)"
        using t by (cases "rp_mode (rr_redirects (fx_rule s3))") (auto simp: decideRedirect_def split: if_splits)
      then show ?thesis using s1 s3 by (auto simp: stays_def isSameOrigin_def)
    qed
  next
    case False
    then show ?thesis using sent(7) s3 by (auto dest: redirect_keeps split: sum.splits if_splits)
  qed
qed

lemma stays_loop:
  assumes d: "distinct (map rule_id (fe_rules env))" and m: "rp_mode (rr_redirects rule) \<noteq> Allowlist"
  shows "fetch_inv env accept s \<Longrightarrow> stays rule u s \<Longrightarrow> fetch_loop n env accept s = Some (r, s') \<Longrightarrow> stays rule u s'"
proof (induction n arbitrary: s)
  case (Suc n)
  obtain h s1 where h: "fetch_hop env accept s = (h, s1)" by force
  have I1: "fetch_inv env accept s1" by (rule fetch_hop_inv [OF d Suc.prems(1) h])
  have S1: "stays rule u s1" by (rule stays_hop [OF d Suc.prems(1) m Suc.prems(2) h])
  show ?case using Suc.IH [OF I1 S1] Suc.prems(3) h S1 by (cases h) auto
qed simp

subsection \<open>The capped read\<close>

lemma read_loop_prefix:
  "length acc \<le> m \<Longrightarrow> read_loop m bs completes acc = Some (bytes, truncated) \<Longrightarrow>
   bytes = take m (acc @ concat bs) \<and> truncated = (m < length (acc @ concat bs))"
proof (induction bs arbitrary: acc)
  case (Cons b bs)
  then show ?case using Cons.IH [of "acc @ b"] by (auto simp: Let_def not_less split: if_splits)
qed (simp split: if_splits)

end
