(* ===== verification/NetConfig.thy ===== *)
theory NetConfig
  imports NetSafety
begin

text \<open>
  Configuration of the web fetch: validation of a rule and of the whole document with its
  warnings (\<open>rule-validation.ts\<close>) and the defaults a valid rule gets (\<open>config.ts\<close>), both under
  \<open>plugins/dsh-web-fetch-authenticated/src\<close>. The document is typed as the host's schema
  guarantees, so the code's \<open>typeof\<close> checks hold by typing; the messages are constructors.
  Then the lemmas: a kept rule is a valid one, its headers can be built, and two rules that
  accept one URL are warned about.
\<close>

subsection \<open>Text checks\<close>

definition lower_or_digit :: "char \<Rightarrow> bool" where
  "lower_or_digit c \<longleftrightarrow> (97 \<le> (of_char c :: nat) \<and> (of_char c :: nat) \<le> 122) \<or> is_digit c"

text \<open>\<open>[a-z0-9](?:[a-z0-9-]*[a-z0-9])?\<close>.\<close>

definition host_label :: "string \<Rightarrow> bool" where
  "host_label l \<longleftrightarrow> l \<noteq> '''' \<and> lower_or_digit (hd l) \<and> lower_or_digit (last l) \<and>
     list_all (\<lambda>c. lower_or_digit c \<or> c = CHR ''-'') l"

definition isIpHost :: "string \<Rightarrow> bool" where
  "isIpHost host \<longleftrightarrow>
     CHR '':'' \<in> set host \<or>
     (let parts = split_on (CHR ''.'') host in length parts = 4 \<and> list_all short_decimal parts)"

definition isValidConfiguredHost :: "string \<Rightarrow> bool" where
  "isValidConfiguredHost host =
     (let n = normalizeHost host in
      if length n = 0 \<or> CHR ''*'' \<in> set n then False
      else isIpHost n \<or>
        (let parts = split_on (CHR ''.'') n;
             labels = (if length parts > 1 \<and> last parts = '''' then butlast parts else parts)
         in list_all host_label labels))"

definition word_char :: "char \<Rightarrow> bool" where
  "word_char c \<longleftrightarrow> (let n = of_char c :: nat in (65 \<le> n \<and> n \<le> 90) \<or> (97 \<le> n \<and> n \<le> 122)) \<or> c = CHR ''_''"

definition isCredentialRef :: "string \<Rightarrow> bool" where
  "isCredentialRef v \<longleftrightarrow> v \<noteq> '''' \<and> word_char (hd v) \<and> list_all (\<lambda>c. word_char c \<or> is_digit c) v"

definition HEADER_NAME_PATTERN :: "string \<Rightarrow> bool" where
  "HEADER_NAME_PATTERN s \<longleftrightarrow> s \<noteq> '''' \<and>
     list_all (\<lambda>c. word_char c \<or> is_digit c \<or> c \<in> set ''!#$%&*+-.^`|~'' \<or> c = CHR 0x27) s"

subsection \<open>One rule\<close>

datatype limit_field = TimeoutMs | MaxResponseBytes | MaxBodyChars

datatype rule_error =
    EmptyId | EmptyName | NoHost | BadHost string | BadScheme string | BadPort int
  | BadAllowPath string | BadDenyPath string | BadMaxAttachments
  | BadCredential | NoUsername | BadPasswordCredential | BadHeaderName | ForbiddenHeaderName string
  | BadAllowedCidr string | BadDeniedCidr string | BadMaxRedirects | NoAllowedOrigins | BadOrigin string
  | BadLimit limit_field | TestUrlScheme | TestUrlInvalid | BadDocumentBytes | BadDocumentChars

definition check :: "bool \<Rightarrow> 'e \<Rightarrow> 'e list" where
  "check ok e = (if ok then [] else [e])"

definition opt_items :: "'a list option \<Rightarrow> 'a list" where
  "opt_items x = (case x of None \<Rightarrow> [] | Some xs \<Rightarrow> xs)"

definition opt_ok :: "('a \<Rightarrow> bool) \<Rightarrow> 'a option \<Rightarrow> bool" where
  "opt_ok p x = (case x of None \<Rightarrow> True | Some v \<Rightarrow> p v)"

definition validateAdapter :: "raw_adapter option \<Rightarrow> rule_error list" where
  "validateAdapter a =
     (case a of None \<Rightarrow> [] | Some ad \<Rightarrow> check (opt_ok (\<lambda>n. n \<ge> 0) (ra_maxAttachments ad)) BadMaxAttachments)"

definition validateAuth :: "auth_config \<Rightarrow> rule_error list" where
  "validateAuth a =
     (case a of
        AuthNone \<Rightarrow> []
      | AuthBearer ref \<Rightarrow> check (isCredentialRef ref) BadCredential
      | AuthBasic username ref \<Rightarrow>
          check (length username > 0) NoUsername @ check (isCredentialRef ref) BadPasswordCredential
      | AuthHeader h ref pre \<Rightarrow>
          (if \<not> HEADER_NAME_PATTERN h then [BadHeaderName]
           else check (to_lower h \<notin> set FORBIDDEN_HEADER_NAMES) (ForbiddenHeaderName h))
          @ check (isCredentialRef ref) BadCredential)"

definition validateNetworkPolicy :: "raw_network option \<Rightarrow> rule_error list" where
  "validateNetworkPolicy p =
     (case p of None \<Rightarrow> []
      | Some n \<Rightarrow>
          concat (map (\<lambda>c. check (isCidr c) (BadAllowedCidr c)) (opt_items (rn_allowedCidrs n)))
          @ concat (map (\<lambda>c. check (isCidr c) (BadDeniedCidr c)) (opt_items (rn_deniedCidrs n))))"

definition isValidOrigin :: "(string \<Rightarrow> url option) \<Rightarrow> string \<Rightarrow> bool" where
  "isValidOrigin parse v =
     (case parse v of None \<Rightarrow> False
      | Some u \<Rightarrow> ur_origin u = v \<and> (ur_protocol u = ''https:'' \<or> ur_protocol u = ''http:''))"

definition validateRedirectPolicy :: "(string \<Rightarrow> url option) \<Rightarrow> raw_redirects option \<Rightarrow> rule_error list" where
  "validateRedirectPolicy parse p =
     (case p of None \<Rightarrow> []
      | Some r \<Rightarrow>
          check (opt_ok (\<lambda>n. n \<ge> 0) (rd_maxRedirects r)) BadMaxRedirects
          @ (if rd_mode r = Some Allowlist \<and> opt_items (rd_allowedOrigins r) = [] then [NoAllowedOrigins]
             else concat (map (\<lambda>v. check (isValidOrigin parse v) (BadOrigin v)) (opt_items (rd_allowedOrigins r)))))"

definition validateDocuments :: "raw_documents option \<Rightarrow> rule_error list" where
  "validateDocuments d =
     (case d of None \<Rightarrow> []
      | Some x \<Rightarrow> check (opt_ok (\<lambda>n. n > 0) (rx_maxBytes x)) BadDocumentBytes
                 @ check (opt_ok (\<lambda>n. n > 0) (rx_maxChars x)) BadDocumentChars)"

definition validateRule :: "(string \<Rightarrow> url option) \<Rightarrow> fetch_rule \<Rightarrow> rule_error list" where
  "validateRule parse rule =
     (let m = fr_match rule in
      check (length (js_trim (fr_id rule)) > 0) EmptyId
      @ check (length (js_trim (fr_name rule)) > 0) EmptyName
      @ (if rm_hosts m = [] then [NoHost]
         else concat (map (\<lambda>h. check (isValidConfiguredHost h) (BadHost h)) (rm_hosts m)))
      @ concat (map (\<lambda>s. check (s = ''https'' \<or> s = ''http'') (BadScheme s)) (opt_items (rm_schemes m)))
      @ concat (map (\<lambda>p. check (1 \<le> p \<and> p \<le> 65535) (BadPort p)) (opt_items (rm_ports m)))
      @ concat (map (\<lambda>p. check (compilePathPattern p \<noteq> None) (BadAllowPath p)) (opt_items (rm_allowPaths m)))
      @ concat (map (\<lambda>p. check (compilePathPattern p \<noteq> None) (BadDenyPath p)) (opt_items (rm_denyPaths m)))
      @ validateAdapter (fr_adapter rule)
      @ validateAuth (fr_auth rule)
      @ validateNetworkPolicy (fr_networkPolicy rule)
      @ validateRedirectPolicy parse (fr_redirects rule)
      @ (case fr_limits rule of None \<Rightarrow> []
         | Some l \<Rightarrow> check (opt_ok (\<lambda>n. n > 0) (rl_timeoutMs l)) (BadLimit TimeoutMs)
                    @ check (opt_ok (\<lambda>n. n > 0) (rl_maxResponseBytes l)) (BadLimit MaxResponseBytes)
                    @ check (opt_ok (\<lambda>n. n > 0) (rl_maxBodyChars l)) (BadLimit MaxBodyChars))
      @ (case fr_testUrl rule of None \<Rightarrow> []
         | Some tx \<Rightarrow>
             if length tx > 0
             then (case parse tx of None \<Rightarrow> [TestUrlInvalid]
                   | Some u \<Rightarrow> check (ur_protocol u = ''https:'' \<or> ur_protocol u = ''http:'') TestUrlScheme)
             else [])
      @ validateDocuments (fr_documents rule))"

subsection \<open>Defaults\<close>

definition or_else :: "'a option \<Rightarrow> 'a option \<Rightarrow> 'a option" where
  "or_else x y = (case x of None \<Rightarrow> y | Some _ \<Rightarrow> x)"

definition or_value :: "'a option \<Rightarrow> 'a \<Rightarrow> 'a" where
  "or_value x d = (case x of None \<Rightarrow> d | Some v \<Rightarrow> v)"

definition resolveLimits :: "raw_limits option \<Rightarrow> raw_limits option \<Rightarrow> fetch_limits" where
  "resolveLimits globalLimits ruleLimits =
     (let pick = (\<lambda>f d. or_value (or_else (Option.bind ruleLimits f) (Option.bind globalLimits f)) d)
      in \<lparr>fl_timeoutMs = pick rl_timeoutMs 30000, fl_maxResponseBytes = pick rl_maxResponseBytes 5242880,
          fl_maxBodyChars = pick rl_maxBodyChars 100000\<rparr>)"

definition resolveAdapter :: "raw_adapter option \<Rightarrow> resolved_adapter" where
  "resolveAdapter a =
     \<lparr>ad_type = or_value (Option.bind a ra_type) AdapterNone,
      ad_jiraFlavor = or_value (Option.bind a ra_jiraFlavor) JiraServer,
      ad_includeComments = or_value (Option.bind a ra_includeComments) False,
      ad_includeLinks = or_value (Option.bind a ra_includeLinks) False,
      ad_cleanup = or_value (Option.bind a ra_cleanup) CleanupBalanced,
      ad_maxAttachments = or_value (Option.bind a ra_maxAttachments) 50\<rparr>"

definition resolveDocuments :: "raw_documents option \<Rightarrow> raw_documents option \<Rightarrow> resolved_documents" where
  "resolveDocuments globalDocuments ruleDocuments =
     \<lparr>do_enabled = or_value (or_else (Option.bind ruleDocuments rx_enabled) (Option.bind globalDocuments rx_enabled)) True,
      do_maxBytes = or_value (or_else (Option.bind ruleDocuments rx_maxBytes) (Option.bind globalDocuments rx_maxBytes)) 4194304,
      do_maxChars = or_value (or_else (Option.bind ruleDocuments rx_maxChars) (Option.bind globalDocuments rx_maxChars)) 40000\<rparr>"

definition resolveNetwork :: "raw_network option \<Rightarrow> network_policy" where
  "resolveNetwork p =
     \<lparr>np_allowPublic = or_value (Option.bind p rn_allowPublic) True,
      np_allowPrivate = or_value (Option.bind p rn_allowPrivate) False,
      np_allowLoopback = or_value (Option.bind p rn_allowLoopback) False,
      np_allowLinkLocal = or_value (Option.bind p rn_allowLinkLocal) False,
      np_allowCGNAT = or_value (Option.bind p rn_allowCGNAT) False,
      np_allowIPv6ULA = or_value (Option.bind p rn_allowIPv6ULA) False,
      np_allowedCidrs = opt_items (Option.bind p rn_allowedCidrs),
      np_deniedCidrs = opt_items (Option.bind p rn_deniedCidrs)\<rparr>"

definition resolveRedirects :: "raw_redirects option \<Rightarrow> redirect_policy" where
  "resolveRedirects r =
     \<lparr>rp_mode = or_value (Option.bind r rd_mode) SameOrigin,
      rp_maxRedirects = or_value (Option.bind r rd_maxRedirects) 3,
      rp_allowedOrigins = opt_items (Option.bind r rd_allowedOrigins)\<rparr>"

definition resolveRule :: "raw_limits option \<Rightarrow> raw_documents option \<Rightarrow> fetch_rule \<Rightarrow> resolved_rule" where
  "resolveRule globalLimits globalDocuments rule =
     \<lparr>rr_source = rule, rr_networkPolicy = resolveNetwork (fr_networkPolicy rule),
      rr_redirects = resolveRedirects (fr_redirects rule),
      rr_limits = resolveLimits globalLimits (fr_limits rule),
      rr_adapter = resolveAdapter (fr_adapter rule),
      rr_documents = resolveDocuments globalDocuments (fr_documents rule)\<rparr>"

record fetch_config =
  wc_configVersion :: "int option"
  wc_enabled :: "bool option"
  wc_rules :: "fetch_rule list option"
  wc_limits :: "raw_limits option"
  wc_documents :: "raw_documents option"
  wc_audit :: "bool option"

record resolved_config =
  cf_configVersion :: int
  cf_enabled :: bool
  cf_rules :: "resolved_rule list"
  cf_limits :: fetch_limits
  cf_documents :: resolved_documents
  cf_audit :: bool
  cf_configErrors :: "rule_error list"

text \<open>A rule with errors is left out and its errors reported.\<close>

fun resolve_rules ::
  "(string \<Rightarrow> url option) \<Rightarrow> raw_limits option \<Rightarrow> raw_documents option \<Rightarrow> fetch_rule list \<Rightarrow>
   resolved_rule list \<times> rule_error list" where
  "resolve_rules parse gl gd [] = ([], [])"
| "resolve_rules parse gl gd (rule # rules) =
     (let errors = validateRule parse rule; (kept, reported) = resolve_rules parse gl gd rules
      in if errors \<noteq> [] then (kept, errors @ reported)
         else (resolveRule gl gd rule # kept, reported))"

definition resolveConfig :: "(string \<Rightarrow> url option) \<Rightarrow> fetch_config \<Rightarrow> resolved_config" where
  "resolveConfig parse c =
     (let (rules, errors) = resolve_rules parse (wc_limits c) (wc_documents c) (opt_items (wc_rules c))
      in \<lparr>cf_configVersion = or_value (wc_configVersion c) 1, cf_enabled = or_value (wc_enabled c) True,
          cf_rules = rules, cf_limits = resolveLimits (wc_limits c) None,
          cf_documents = resolveDocuments (wc_documents c) None,
          cf_audit = or_value (wc_audit c) True, cf_configErrors = errors\<rparr>)"

subsection \<open>The whole document\<close>

fun show_nat :: "nat \<Rightarrow> string" where
  "show_nat n = (if n < 10 then [char_of (n + 48)] else show_nat (n div 10) @ [char_of (n mod 10 + 48)])"

declare show_nat.simps [simp del]

text \<open>The ports two lists share: a rule without ports accepts every port.\<close>

definition shared_ports :: "int list \<Rightarrow> int list \<Rightarrow> int list" where
  "shared_ports portsA portsB =
     (if portsA = [] then portsB else if portsB = [] then portsA else filter (\<lambda>p. p \<in> set portsB) portsA)"

definition sharedScope :: "fetch_rule \<Rightarrow> fetch_rule \<Rightarrow> string option" where
  "sharedScope a b =
     (let sharedSchemes = filter (\<lambda>s. s \<in> set (allowedSchemes (fr_match b))) (allowedSchemes (fr_match a));
          hostsB = map normalizeHost (rm_hosts (fr_match b));
          sharedHosts = filter (\<lambda>h. h \<in> set hostsB) (map normalizeHost (rm_hosts (fr_match a)));
          portsA = opt_items (rm_ports (fr_match a)); portsB = opt_items (rm_ports (fr_match b));
          sharedPorts = shared_ports portsA portsB
      in if sharedSchemes = [] then None
         else if sharedHosts = [] then None
         else if portsA \<noteq> [] \<and> portsB \<noteq> [] \<and> sharedPorts = [] then None
         else Some (join_with ''/'' sharedSchemes @ ''://'' @ join_with '', '' sharedHosts
                    @ (if sharedPorts \<noteq> [] then '':'' @ join_with ''|'' (map (\<lambda>p. show_nat (nat p)) sharedPorts) else '''')))"

datatype config_error = RuleError rule_error | DuplicateId string

datatype config_warning =
    HttpAllowed string | PrivateAllowed string | LoopbackAllowed string | EveryPath string
  | MayOverlap string string string

definition rule_warnings :: "fetch_rule \<Rightarrow> config_warning list" where
  "rule_warnings rule =
     (if \<not> fr_enabled rule then []
      else check (''http'' \<notin> set (opt_items (rm_schemes (fr_match rule)))) (HttpAllowed (fr_id rule))
        @ check (\<not> (Option.bind (fr_networkPolicy rule) rn_allowPrivate = Some True \<and>
                    opt_items (Option.bind (fr_networkPolicy rule) rn_allowedCidrs) = [])) (PrivateAllowed (fr_id rule))
        @ check (Option.bind (fr_networkPolicy rule) rn_allowLoopback \<noteq> Some True) (LoopbackAllowed (fr_id rule))
        @ check (opt_items (rm_allowPaths (fr_match rule)) \<noteq> []) (EveryPath (fr_id rule)))"

text \<open>Errors of every rule, with the identifiers seen so far.\<close>

fun validate_rules :: "(string \<Rightarrow> url option) \<Rightarrow> string list \<Rightarrow> fetch_rule list \<Rightarrow> config_error list" where
  "validate_rules parse seen [] = []"
| "validate_rules parse seen (rule # rules) =
     map RuleError (validateRule parse rule)
     @ (if length (fr_id rule) > 0
        then check (fr_id rule \<notin> set seen) (DuplicateId (fr_id rule))
             @ validate_rules parse (fr_id rule # seen) rules
        else validate_rules parse seen rules)"

definition overlap_warning :: "fetch_rule \<Rightarrow> fetch_rule \<Rightarrow> config_warning list" where
  "overlap_warning a b =
     (if \<not> fr_enabled b then []
      else case sharedScope a b of None \<Rightarrow> [] | Some scope \<Rightarrow> [MayOverlap (fr_id a) (fr_id b) scope])"

fun overlap_warnings :: "fetch_rule list \<Rightarrow> config_warning list" where
  "overlap_warnings [] = []"
| "overlap_warnings (a # rules) =
     (if fr_enabled a then concat (map (overlap_warning a) rules) else []) @ overlap_warnings rules"

definition validateConfig :: "(string \<Rightarrow> url option) \<Rightarrow> fetch_config \<Rightarrow> config_error list \<times> config_warning list" where
  "validateConfig parse c =
     (let rules = opt_items (wc_rules c) in
      (map RuleError (validateDocuments (wc_documents c)) @ validate_rules parse [] rules,
       concat (map rule_warnings rules) @ overlap_warnings rules))"

subsection \<open>What validation gives\<close>

lemma check_nil [simp]: "check ok e = [] \<longleftrightarrow> ok"
  by (simp add: check_def)

lemma resolve_rules_eq:
  "resolve_rules parse gl gd rules =
     (map (resolveRule gl gd) (filter (\<lambda>r. validateRule parse r = []) rules),
      concat (map (validateRule parse) rules))"
  by (induction rules) (auto simp: Let_def)

lemma config_rules:
  "cf_rules (resolveConfig parse c) =
     map (resolveRule (wc_limits c) (wc_documents c)) (filter (\<lambda>r. validateRule parse r = []) (opt_items (wc_rules c)))"
  by (simp add: resolveConfig_def resolve_rules_eq)

lemma resolve_source [simp]: "rr_source (resolveRule gl gd r) = r"
  by (simp add: resolveRule_def)

lemma kept_valid:
  "r \<in> set (cf_rules (resolveConfig parse c)) \<Longrightarrow>
   rr_source r \<in> set (opt_items (wc_rules c)) \<and> validateRule parse (rr_source r) = []"
  by (auto simp: config_rules)

lemma or_value_ok: "opt_ok p x \<Longrightarrow> p d \<Longrightarrow> p (or_value x d)"
  by (auto simp: opt_ok_def or_value_def split: option.splits)

lemma valid_redirects:
  assumes "validateRule parse rule = []"
  shows "0 \<le> rp_maxRedirects (resolveRedirects (fr_redirects rule))"
    "rp_mode (resolveRedirects (fr_redirects rule)) = Allowlist \<Longrightarrow>
       rp_allowedOrigins (resolveRedirects (fr_redirects rule)) \<noteq> [] \<and>
       list_all (isValidOrigin parse) (rp_allowedOrigins (resolveRedirects (fr_redirects rule)))"
proof -
  have v: "validateRedirectPolicy parse (fr_redirects rule) = []"
    using assms by (simp add: validateRule_def Let_def)
  show "0 \<le> rp_maxRedirects (resolveRedirects (fr_redirects rule))"
    using v by (auto simp: validateRedirectPolicy_def resolveRedirects_def opt_ok_def or_value_def
        split: option.splits bind_splits)
  show "rp_allowedOrigins (resolveRedirects (fr_redirects rule)) \<noteq> [] \<and>
       list_all (isValidOrigin parse) (rp_allowedOrigins (resolveRedirects (fr_redirects rule)))"
    if "rp_mode (resolveRedirects (fr_redirects rule)) = Allowlist"
    using v that by (auto simp: validateRedirectPolicy_def resolveRedirects_def or_value_def list_all_iff
        split: option.splits bind_splits if_splits)
qed

lemma valid_auth: "validateRule parse rule = [] \<Longrightarrow> validateAuth (fr_auth rule) = []"
  by (simp add: validateRule_def Let_def)

lemma valid_cidrs:
  assumes "validateRule parse rule = []"
  shows "list_all isCidr (np_deniedCidrs (resolveNetwork (fr_networkPolicy rule)))"
    "list_all isCidr (np_allowedCidrs (resolveNetwork (fr_networkPolicy rule)))"
  using assms
  by (auto simp: validateRule_def Let_def validateNetworkPolicy_def resolveNetwork_def opt_items_def list_all_iff
      split: option.splits bind_splits)


text \<open>No duplicate is reported exactly when the identifiers differ.\<close>

lemma validate_rules_ids:
  "validate_rules parse seen rules = [] \<Longrightarrow>
   distinct (map fr_id rules) \<and> set (map fr_id rules) \<inter> set seen = {} \<and> list_all (\<lambda>r. validateRule parse r = []) rules"
proof (induction rules arbitrary: seen)
  case (Cons r rules)
  have "fr_id r \<noteq> ''''"
  proof
    assume "fr_id r = ''''"
    then have "validateRule parse r \<noteq> []" by (simp add: validateRule_def Let_def js_trim_def check_def)
    then show False using Cons.prems by simp
  qed
  then show ?case using Cons.IH [of "fr_id r # seen"] Cons.prems by auto
qed simp

lemma valid_config_distinct:
  assumes "fst (validateConfig parse c) = []"
  shows "distinct (map rule_id (cf_rules (resolveConfig parse c)))"
proof -
  have "distinct (map fr_id (opt_items (wc_rules c)))"
    using validate_rules_ids [of parse "[]" "opt_items (wc_rules c)"] assms by (simp add: validateConfig_def Let_def)
  then show ?thesis
    by (simp add: config_rules rule_id_def distinct_map_filter flip: map_map)
      (simp add: comp_def distinct_map_filter rule_id_def)
qed

text \<open>A valid rule's headers are refused only for a missing secret.\<close>

definition secret_for :: "auth_config \<Rightarrow> auth_secrets \<Rightarrow> string option" where
  "secret_for a sec =
     (case a of AuthNone \<Rightarrow> Some '''' | AuthBasic _ _ \<Rightarrow> present (se_password sec)
      | AuthBearer _ \<Rightarrow> present (se_credential sec) | AuthHeader _ _ _ \<Rightarrow> present (se_credential sec))"

lemma headers_built:
  assumes "validateAuth (fr_auth (rr_source rule)) = []" "secret_for (fr_auth (rr_source rule)) sec \<noteq> None"
  shows "\<exists>auth. buildAuthHeaders rule sec = Inr auth"
  using assms
  by (auto simp: buildAuthHeaders_def validateAuth_def secret_for_def split: auth_config.splits option.splits if_splits)

lemma resolved_secret:
  assumes "resolveSecrets env rule w = (Inr sec, w')"
  shows "secret_for (fr_auth (rr_source rule)) sec \<noteq> None"
  using assms
  by (auto simp: resolveSecrets_def resolveOne_def secret_for_def present_def
      split: auth_config.splits if_splits prod.splits option.splits sum.splits)

text \<open>Rules that accept one URL overlap in scope.\<close>

lemma matches_parts:
  assumes "ruleMatchesUrl r u"
  shows "(if ur_protocol u = ''https:'' then ''https'' else ''http'') \<in> set (allowedSchemes (fr_match r))"
    "ur_hostname u \<in> set (map normalizeHost (rm_hosts (fr_match r)))"
    "opt_items (rm_ports (fr_match r)) = [] \<or> effectivePort u \<in> set (opt_items (rm_ports (fr_match r)))"
  using assms by (auto simp: ruleMatchesUrl_def Let_def opt_items_def split: if_splits option.splits)

lemma shared_of_match:
  assumes "ruleMatchesUrl a u" "ruleMatchesUrl b u"
  shows "sharedScope a b \<noteq> None"
proof -
  note A = matches_parts [OF assms(1)] and B = matches_parts [OF assms(2)]
  have "filter (\<lambda>s. s \<in> set (allowedSchemes (fr_match b))) (allowedSchemes (fr_match a)) \<noteq> []"
    using A(1) B(1) by (auto simp: filter_empty_conv simp del: if_split)
  moreover have "filter (\<lambda>h. h \<in> set (map normalizeHost (rm_hosts (fr_match b)))) (map normalizeHost (rm_hosts (fr_match a))) \<noteq> []"
    using A(2) B(2) unfolding filter_empty_conv by blast
  moreover have "\<not> (opt_items (rm_ports (fr_match a)) \<noteq> [] \<and> opt_items (rm_ports (fr_match b)) \<noteq> [] \<and>
      shared_ports (opt_items (rm_ports (fr_match a))) (opt_items (rm_ports (fr_match b))) = [])"
    using A(3) B(3) by (auto simp: shared_ports_def filter_empty_conv)
  ultimately show ?thesis unfolding sharedScope_def Let_def by auto
qed

lemma overlap_pair:
  assumes "rules = xs @ a # ys @ b # zs" "fr_enabled a" "fr_enabled b" "sharedScope a b = Some scope"
  shows "MayOverlap (fr_id a) (fr_id b) scope \<in> set (overlap_warnings rules)"
  unfolding assms(1) using assms(2-) by (induction xs) (auto simp: overlap_warning_def)

text \<open>The first two rules a filter keeps stand in this order in the list.\<close>

lemma filter_two:
  assumes "filter P xs = a # b # rest"
  obtains us vs ws where "xs = us @ a # vs @ b # ws" "P a" "P b"
proof -
  from filter_eq_ConsD [OF assms] obtain us xs' where 1: "xs = us @ a # xs'" "P a" "filter P xs' = b # rest"
    by metis
  from filter_eq_ConsD [OF 1(3)] obtain vs ws where 2: "xs' = vs @ b # ws" "P b"
    by blast
  show ?thesis by (rule that [of us vs ws]) (simp_all add: 1 2)
qed

lemma ambiguous_warned:
  assumes "matchRules (cf_rules (resolveConfig parse c)) u = r # r' # rest"
  shows "\<exists>scope. MayOverlap (rule_id r) (rule_id r') scope \<in> set (snd (validateConfig parse c))"
proof -
  let ?rules = "opt_items (wc_rules c)"
  let ?ok = "\<lambda>x. validateRule parse x = []" and ?m = "\<lambda>x. fr_enabled x \<and> ruleMatchesUrl x u"
  let ?res = "resolveRule (wc_limits c) (wc_documents c)"
  have "matchRules (cf_rules (resolveConfig parse c)) u = map ?res (filter (\<lambda>x. ?m x \<and> ?ok x) ?rules)"
    by (simp add: matchRules_def config_rules filter_map comp_def conj_commute)
  with assms obtain a b l where f: "filter (\<lambda>x. ?m x \<and> ?ok x) ?rules = a # b # l" and r: "r = ?res a" "r' = ?res b"
    by (auto simp: map_eq_Cons_conv)
  from filter_two [OF f] obtain us vs ws where p: "?rules = us @ a # vs @ b # ws" "?m a" "?m b" by blast
  obtain scope where "sharedScope a b = Some scope" using shared_of_match [of a u b] p by auto
  from overlap_pair [OF p(1) _ _ this] p(2,3) show ?thesis
    by (auto simp: validateConfig_def Let_def r rule_id_def)
qed

end
