(* ===== verification/NetDownload.thy ===== *)
theory NetDownload
  imports NetConfig
begin

text \<open>
  The downloads of the provider (\<open>fetchImage\<close>, \<open>fetchFile\<close> of \<open>provider.ts\<close>) with the image
  signatures and file names of \<open>images.ts\<close>, both under
  \<open>plugins/dsh-web-fetch-authenticated/src\<close>, over the configuration the provider reads.
  \<open>decodeURIComponent\<close> is an argument; audit records are left out.
\<close>

subsection \<open>Image signatures\<close>

datatype image_media = ImagePng | ImageJpeg | ImageWebp | ImageGif

definition IMAGE_MEDIA_TYPES :: "image_media list" where
  "IMAGE_MEDIA_TYPES = [ImagePng, ImageJpeg, ImageWebp, ImageGif]"

fun media_text :: "image_media \<Rightarrow> string" where
  "media_text ImagePng = ''image/png''"
| "media_text ImageJpeg = ''image/jpeg''"
| "media_text ImageWebp = ''image/webp''"
| "media_text ImageGif = ''image/gif''"

definition imageAcceptHeader :: string where
  "imageAcceptHeader = join_with '','' (map media_text IMAGE_MEDIA_TYPES)"

definition starts_at :: "nat list \<Rightarrow> nat \<Rightarrow> nat list \<Rightarrow> bool" where
  "starts_at bytes offset expected \<longleftrightarrow>
     (if length bytes < offset + length expected then False
      else take (length expected) (drop offset bytes) = expected)"

definition asciiAt :: "nat list \<Rightarrow> nat \<Rightarrow> string \<Rightarrow> bool" where
  "asciiAt bytes offset value \<longleftrightarrow> starts_at bytes offset (map of_char value)"

definition sniffImageMediaType :: "nat list \<Rightarrow> image_media option" where
  "sniffImageMediaType bytes =
     (if starts_at bytes 0 [0x89, 0x50, 0x4e, 0x47, 0x0d, 0x0a, 0x1a, 0x0a] then Some ImagePng
      else if starts_at bytes 0 [0xff, 0xd8, 0xff] then Some ImageJpeg
      else if asciiAt bytes 0 ''GIF87a'' \<or> asciiAt bytes 0 ''GIF89a'' then Some ImageGif
      else if asciiAt bytes 0 ''RIFF'' \<and> asciiAt bytes 8 ''WEBP'' then Some ImageWebp
      else None)"

subsection \<open>File names\<close>

definition path_like :: "char \<Rightarrow> bool" where
  "path_like c \<longleftrightarrow> c \<in> set ''/:*?<>|'' \<or> c = CHR 0x5C \<or> c = CHR 0x22"

definition downloadNameFromUrl :: "(string \<Rightarrow> url option) \<Rightarrow> (string \<Rightarrow> string option) \<Rightarrow> string \<Rightarrow> string \<Rightarrow> string" where
  "downloadNameFromUrl parse decode href fallback =
     (case parse href of None \<Rightarrow> fallback
      | Some u \<Rightarrow>
          (let segments = filter (\<lambda>s. length s > 0) (split_on (CHR ''/'') (ur_pathname u)) in
           if segments = [] then fallback
           else let decoded = or_value (decode (last segments)) (last segments);
                    cleaned = js_trim (map (\<lambda>c. if path_like c then CHR ''-'' else c) decoded)
                in if length cleaned = 0 then fallback else cleaned))"

subsection \<open>The provider\<close>

record fetched_file =
  ff_url :: string
  ff_statusCode :: int
  ff_mediaType :: string
  ff_bytes :: "nat list"
  ff_name :: string

record fetched_image =
  fi_url :: string
  fi_statusCode :: int
  fi_mediaType :: image_media
  fi_bytes :: "nat list"
  fi_name :: string

definition provider_env :: "'w fetch_env \<Rightarrow> fetch_config \<Rightarrow> 'w fetch_env" where
  "provider_env env c = env\<lparr>fe_rules := cf_rules (resolveConfig (fe_parse env) c)\<rparr>"

definition media_of_header :: "string option \<Rightarrow> string" where
  "media_of_header h =
     (let m = (case h of None \<Rightarrow> '''' | Some t \<Rightarrow> to_lower (js_trim (hd (split_on (CHR '';'') t))))
      in if m = '''' then ''application/octet-stream'' else m)"

text \<open>The refusals before anything is sent: disabled, an invalid URL, no rule or more than one.\<close>

definition admit :: "'w fetch_env \<Rightarrow> fetch_config \<Rightarrow> string \<Rightarrow> fetch_error + resolved_rule \<times> url" where
  "admit env c raw =
     (if \<not> cf_enabled (resolveConfig (fe_parse env) c) then Inl ErrDisabled
      else case validatedUrl env raw of
        Inl e \<Rightarrow> Inl e
      | Inr u \<Rightarrow> (case ruleFor (provider_env env c) u of Inl e \<Rightarrow> Inl e | Inr rule \<Rightarrow> Inr (rule, u)))"

definition fetchFile ::
  "'w fetch_env \<Rightarrow> (string \<Rightarrow> string option) \<Rightarrow> fetch_config \<Rightarrow> string \<Rightarrow> 'w \<Rightarrow>
   ((fetch_error + fetched_file) \<times> 'w fetch_state option) option" where
  "fetchFile env decode c raw w =
     (case admit env c raw of
        Inl e \<Rightarrow> Some (Inl e, None)
      | Inr (rule, u) \<Rightarrow>
          (case authenticatedFetchBinary (provider_env env c) ''*/*'' (nat (fl_maxResponseBytes (rr_limits rule))) rule u w of
             None \<Rightarrow> None
           | Some (Inl e, s) \<Rightarrow> Some (Inl e, Some s)
           | Some (Inr fb, s) \<Rightarrow>
               Some (if fb_statusCode fb < 200 \<or> fb_statusCode fb \<ge> 300 then Inl ErrDownloadFailed
                     else if fb_truncated fb then Inl ErrTooLarge
                     else Inr \<lparr>ff_url = fb_url fb, ff_statusCode = fb_statusCode fb,
                               ff_mediaType = media_of_header (fb_contentType fb), ff_bytes = fb_bytes fb,
                               ff_name = downloadNameFromUrl (fe_parse env) decode (fb_url fb) ''download''\<rparr>, Some s)))"

definition fetchImage ::
  "'w fetch_env \<Rightarrow> (string \<Rightarrow> string option) \<Rightarrow> fetch_config \<Rightarrow> string \<Rightarrow> nat \<Rightarrow> 'w \<Rightarrow>
   ((fetch_error + fetched_image) \<times> 'w fetch_state option) option" where
  "fetchImage env decode c raw limit w =
     (case admit env c raw of
        Inl e \<Rightarrow> Some (Inl e, None)
      | Inr (rule, u) \<Rightarrow>
          (let maxBytes = min limit (nat (fl_maxResponseBytes (rr_limits rule))) in
           case authenticatedFetchBinary (provider_env env c) imageAcceptHeader maxBytes rule u w of
             None \<Rightarrow> None
           | Some (Inl e, s) \<Rightarrow> Some (Inl (if e = ErrTooLarge then ErrImageTooLarge else e), Some s)
           | Some (Inr fb, s) \<Rightarrow>
               Some (if fb_statusCode fb < 200 \<or> fb_statusCode fb \<ge> 300 then Inl ErrNotAnImage
                     else if fb_truncated fb then Inl ErrImageTooLarge
                     else case sniffImageMediaType (fb_bytes fb) of
                       None \<Rightarrow> Inl ErrNotAnImage
                     | Some m \<Rightarrow>
                         Inr \<lparr>fi_url = fb_url fb, fi_statusCode = fb_statusCode fb, fi_mediaType = m,
                              fi_bytes = fb_bytes fb,
                              fi_name = downloadNameFromUrl (fe_parse env) decode (fb_url fb) ''image''\<rparr>, Some s)))"

subsection \<open>What a download gives\<close>

lemma trim_subset: "set (js_trim s) \<subseteq> set s"
proof -
  have "set (dropWhile js_space t) \<subseteq> set t" for t by (auto dest: set_dropWhileD)
  from this [of "rev (dropWhile js_space s)"] this [of s] show ?thesis by (auto simp: js_trim_def)
qed

lemma name_is_leaf:
  assumes "fallback \<noteq> ''''" "list_all (\<lambda>c. \<not> path_like c) fallback"
  shows "downloadNameFromUrl parse decode href fallback \<noteq> '''' \<and>
    list_all (\<lambda>c. \<not> path_like c) (downloadNameFromUrl parse decode href fallback)"
proof -
  have clean: "list_all (\<lambda>c. \<not> path_like c) (js_trim (map (\<lambda>c. if path_like c then CHR ''-'' else c) s))" for s
    using trim_subset [of "map (\<lambda>c. if path_like c then CHR ''-'' else c) s"]
    by (auto simp: list_all_iff path_like_def split: if_splits)
  show ?thesis using assms clean by (auto simp: downloadNameFromUrl_def Let_def split: option.splits)
qed

lemma admit_rule:
  assumes "admit env c raw = Inr (rule, u)"
  shows "rule \<in> set (fe_rules (provider_env env c))" "ruleMatchesUrl (rr_source rule) u" "fr_enabled (rr_source rule)"
    "matchRules (fe_rules (provider_env env c)) u = [rule]"
proof -
  have m: "matchRules (fe_rules (provider_env env c)) u = [rule]"
    using assms by (auto simp: admit_def ruleFor_def split: if_splits sum.splits list.splits)
  then have "rule \<in> set (matchRules (fe_rules (provider_env env c)) u)" by simp
  then show "rule \<in> set (fe_rules (provider_env env c))" "ruleMatchesUrl (rr_source rule) u" "fr_enabled (rr_source rule)"
    unfolding matchRules_def by auto
  show "matchRules (fe_rules (provider_env env c)) u = [rule]" by (rule m)
qed

lemma binary_run:
  assumes "authenticatedFetchBinary env accept m rule u w = Some (r, s)"
  shows "\<exists>r'. runAuthenticatedFetch env accept rule u w = Some (r', s)"
  using assms by (auto simp: authenticatedFetchBinary_def split: option.splits prod.splits sum.splits)

lemma binary_bytes:
  assumes "authenticatedFetchBinary env accept m rule u w = Some (Inr fb, s)"
  shows "length (fb_bytes fb) \<le> m"
proof -
  obtain resp bytes cut where r: "runAuthenticatedFetch env accept rule u w = Some (Inr resp, s)"
    and b: "readCapped resp (min m (nat (fl_maxResponseBytes (rr_limits (fx_rule s))))) = Inr (bytes, cut)"
    and fb: "fb_bytes fb = bytes"
    using assms by (auto simp: authenticatedFetchBinary_def split: option.splits prod.splits sum.splits)
  have "length bytes \<le> min m (nat (fl_maxResponseBytes (rr_limits (fx_rule s))))"
    using b read_loop_prefix [of "[]" "min m (nat (fl_maxResponseBytes (rr_limits (fx_rule s))))" "rs_chunks resp" "rs_completes resp" bytes cut]
    by (auto simp: readCapped_def split: if_splits option.splits)
  then show ?thesis using fb by simp
qed

lemma file_run:
  assumes "fetchFile env decode c raw w = Some (r, Some s)"
  obtains rule u r' where "admit env c raw = Inr (rule, u)"
    "runAuthenticatedFetch (provider_env env c) ''*/*'' rule u w = Some (r', s)"
  using assms by (auto simp: fetchFile_def dest!: binary_run split: sum.splits prod.splits option.splits)

lemma image_run:
  assumes "fetchImage env decode c raw limit w = Some (r, Some s)"
  obtains rule u r' where "admit env c raw = Inr (rule, u)"
    "runAuthenticatedFetch (provider_env env c) imageAcceptHeader rule u w = Some (r', s)"
  using assms by (auto simp: fetchImage_def Let_def dest!: binary_run split: sum.splits prod.splits option.splits)

lemma image_checked:
  assumes "fetchImage env decode c raw limit w = Some (Inr img, s)"
  shows "200 \<le> fi_statusCode img \<and> fi_statusCode img < 300 \<and> length (fi_bytes img) \<le> limit \<and>
    sniffImageMediaType (fi_bytes img) = Some (fi_mediaType img) \<and>
    fi_name img \<noteq> '''' \<and> list_all (\<lambda>c. \<not> path_like c) (fi_name img)"
proof -
  obtain rule u where a: "admit env c raw = Inr (rule, u)"
    using assms by (auto simp: fetchImage_def split: sum.splits)
  let ?m = "min limit (nat (fl_maxResponseBytes (rr_limits rule)))"
  obtain fb s' where b: "authenticatedFetchBinary (provider_env env c) imageAcceptHeader ?m rule u w = Some (Inr fb, s')"
    and g: "\<not> (fb_statusCode fb < 200 \<or> fb_statusCode fb \<ge> 300)" "fi_bytes img = fb_bytes fb" "fi_statusCode img = fb_statusCode fb"
      "sniffImageMediaType (fb_bytes fb) = Some (fi_mediaType img)"
      "fi_name img = downloadNameFromUrl (fe_parse env) decode (fb_url fb) ''image''"
    using assms a by (auto simp: fetchImage_def Let_def split: sum.splits prod.splits option.splits if_splits)
  have "list_all (\<lambda>c. \<not> path_like c) ''image''" by code_simp
  then show ?thesis
    using binary_bytes [OF b] g name_is_leaf [of "''image''" "fe_parse env" decode "fb_url fb"] by simp
qed

end
