(* ===== verification/NetProperties.thy ===== *)
theory NetProperties
  imports NetDownload
begin

text \<open>
  The properties of the authenticated web fetch: the address policy, the requests it sends,
  its redirects and its capped read. The sample surroundings redirect once inside one origin.
\<close>

subsection \<open>Sample surroundings\<close>

definition demo_policy :: network_policy where
  "demo_policy =
     \<lparr>np_allowPublic = True, np_allowPrivate = False, np_allowLoopback = False, np_allowLinkLocal = False,
      np_allowCGNAT = False, np_allowIPv6ULA = False, np_allowedCidrs = [''10.1.0.0/16''], np_deniedCidrs = [''10.1.2.0/24'']\<rparr>"

definition demo_source :: "string \<Rightarrow> string \<Rightarrow> string \<Rightarrow> fetch_rule" where
  "demo_source i host token =
     \<lparr>fr_id = i, fr_name = i, fr_enabled = True, fr_testUrl = None,
      fr_match = \<lparr>rm_schemes = None, rm_hosts = [host], rm_ports = None, rm_allowPaths = None,
                  rm_denyPaths = Some [''/admin/**'']\<rparr>,
      fr_auth = AuthBearer token, fr_networkPolicy = None, fr_redirects = None, fr_limits = None,
      fr_adapter = None, fr_documents = None\<rparr>"

definition demo_rule :: resolved_rule where
  "demo_rule =
     \<lparr>rr_source = demo_source ''wiki'' ''wiki.test'' ''WIKI_TOKEN'',
      rr_networkPolicy = demo_policy,
      rr_redirects = \<lparr>rp_mode = SameOrigin, rp_maxRedirects = 3, rp_allowedOrigins = []\<rparr>,
      rr_limits = \<lparr>fl_timeoutMs = 30000, fl_maxResponseBytes = 4, fl_maxBodyChars = 100000\<rparr>,
      rr_adapter = \<lparr>ad_type = AdapterNone, ad_jiraFlavor = JiraServer, ad_includeComments = False,
                    ad_includeLinks = False, ad_cleanup = CleanupBalanced, ad_maxAttachments = 50\<rparr>,
      rr_documents = \<lparr>do_enabled = True, do_maxBytes = 4194304, do_maxChars = 40000\<rparr>\<rparr>"

definition demo_page :: "string \<Rightarrow> url" where
  "demo_page path =
     \<lparr>ur_href = CHR ''w'' # path, ur_protocol = ''https:'', ur_hostname = ''wiki.test'', ur_port = '''',
      ur_username = '''', ur_password = '''', ur_pathname = path, ur_origin = ''https://wiki.test''\<rparr>"

definition mirror_page :: "string \<Rightarrow> url" where
  "mirror_page path =
     \<lparr>ur_href = CHR ''m'' # path, ur_protocol = ''https:'', ur_hostname = ''mirror.test'', ur_port = '''',
      ur_username = '''', ur_password = '''', ur_pathname = path, ur_origin = ''https://mirror.test''\<rparr>"

text \<open>A page of one of the two hosts is written with the host's initial.\<close>

fun demo_parse :: "string \<Rightarrow> url option" where
  "demo_parse [] = None"
| "demo_parse (h # path) =
     (if h = CHR ''w'' then Some (demo_page path) else if h = CHR ''m'' then Some (mirror_page path)
      else if h # path = ''https://mirror.test'' then Some (mirror_page ''/'') else None)"

definition demo_response :: "int \<Rightarrow> string option \<Rightarrow> fetch_response" where
  "demo_response status location =
     \<lparr>rs_status = status, rs_location = location, rs_contentType = None, rs_declared = None,
      rs_readable = True, rs_chunks = [[1, 2, 3], [4, 5]], rs_completes = True\<rparr>"

definition demo_fetch :: "nat fetch_env" where
  "demo_fetch =
     \<lparr>fe_rules = [demo_rule], fe_maxUrlLength = 40, fe_userAgent = ''dsh'',
      fe_parse = demo_parse,
      fe_resolveUrl = (\<lambda>location base. Some (CHR ''w'' # location)),
      fe_dns = (\<lambda>_ w. (Some [''9.9.9.9''], Suc w)), fe_isRef = (\<lambda>_. True),
      fe_credential = (\<lambda>_ w. (Some ''s3cret'', Suc w)),
      fe_exchange = (\<lambda>req w. (Inr (if ur_pathname (rq_url req) = ''/new'' then demo_response 200 None
                                    else demo_response 302 (Some ''/new'')), Suc w)),
      fe_aborted = (\<lambda>_. False)\<rparr>"



lemma start_inv:
  assumes "rule \<in> set (fe_rules env)" "ruleMatchesUrl (rr_source rule) u"
  shows "fetch_inv env accept (start_fetch rule u w)" "stays rule u (start_fetch rule u w)"
  using assms by (simp_all add: fetch_inv_def start_fetch_def stays_def isSameOrigin_def)

lemma run_sent:
  assumes "distinct (map rule_id (fe_rules env))" "rule \<in> set (fe_rules env)" "ruleMatchesUrl (rr_source rule) u"
    and "runAuthenticatedFetch env accept rule u w = Some (r, s)"
  shows "fetch_inv env accept s"
proof (cases "fe_aborted env w")
  case True
  then show ?thesis using assms(4) start_inv [OF assms(2,3)] by (auto simp: runAuthenticatedFetch_def)
next
  case False
  then have "fetch_loop (redirect_fuel env rule) env accept (start_fetch rule u w) = Some (r, s)"
    using assms(4) by (simp add: runAuthenticatedFetch_def)
  from fetch_loop_inv [OF assms(1) start_inv(1) [OF assms(2,3)] this] show ?thesis .
qed

text \<open>A document with the sample rule, and one whose two rules carry one identifier.\<close>

definition demo_config :: fetch_config where
  "demo_config =
     \<lparr>wc_configVersion = None, wc_enabled = None, wc_rules = Some [demo_source ''wiki'' ''wiki.test'' ''WIKI_TOKEN''],
      wc_limits = Some \<lparr>rl_timeoutMs = None, rl_maxResponseBytes = Some 8, rl_maxBodyChars = None\<rparr>, wc_documents = None, wc_audit = None\<rparr>"



subsection \<open>Requests\<close>

text \<open>C17: Every request of a download, redirects included, goes to a URL that the rule it is sent
  under matches, to addresses that rule's network policy approved, with the authentication
  headers built from that rule's own secrets: under a configuration whose validation reports no
  error no credential reaches a URL its rule does not match.\<close>

theorem downloads_authorized:
  assumes "fst (validateConfig (fe_parse env) c) = []" "fetchFile env decode c raw w = Some (r, Some s)"
  shows "list_all (request_ok (provider_env env c) ''*/*'') (fx_sent s)"
proof -
  obtain rule u r' where a: "admit env c raw = Inr (rule, u)"
    and run: "runAuthenticatedFetch (provider_env env c) ''*/*'' rule u w = Some (r', s)"
    using assms(2) by (rule file_run)
  have "distinct (map rule_id (fe_rules (provider_env env c)))"
    using valid_config_distinct [OF assms(1)] by (simp add: provider_env_def)
  from run_sent [OF this admit_rule(1,2) [OF a] run] show ?thesis by (simp add: fetch_inv_def)
qed

definition demo_download :: "(fetch_error + fetched_file) \<times> nat fetch_state option" where
  "demo_download = the (fetchFile demo_fetch Some demo_config ''w/old'' 0)"

lemma demo_download_eq: "fetchFile demo_fetch Some demo_config ''w/old'' 0 = Some demo_download"
proof -
  have "fetchFile demo_fetch Some demo_config ''w/old'' 0 \<noteq> None" by code_simp
  then show ?thesis by (auto simp: demo_download_def)
qed

theorem downloads_authorized_witness:
  "list_all (request_ok (provider_env demo_fetch demo_config) ''*/*'') (fx_sent (the (snd demo_download)))
     \<and> length (fx_sent (the (snd demo_download))) = 2"
proof
  have "snd demo_download \<noteq> None" by code_simp
  then have e: "fetchFile demo_fetch Some demo_config ''w/old'' 0 =
      Some (fst demo_download, Some (the (snd demo_download)))"
    using demo_download_eq by (cases demo_download) simp
  have v: "fst (validateConfig (fe_parse demo_fetch) demo_config) = []" by code_simp
  show "list_all (request_ok (provider_env demo_fetch demo_config) ''*/*'') (fx_sent (the (snd demo_download)))"
    by (rule downloads_authorized [OF v e])
  show "length (fx_sent (the (snd demo_download))) = 2" by code_simp
qed


text \<open>C19: Every fetch ends, whatever the servers answer, after at most one request more than the
  largest redirect maximum of the configured rules.\<close>

theorem fetch_ends:
  "\<exists>r s. runAuthenticatedFetch env accept rule u w = Some (r, s) \<and> length (fx_sent s) \<le> redirect_fuel env rule"
  by (rule run_ends)





subsection \<open>Addresses\<close>





text \<open>The dotted text of an IPv4 destination parses back to it, whatever the bytes: what the
  socket is given cannot be read as another host.\<close>

theorem dotted_round_trip:
  assumes "0 \<le> x" "x < 2 ^ 32"
  shows "parseIp (addressText (v4 x) written) = Some (v4 x)"
  using parseIp_dotted [OF assms] by (simp add: addressText_v4)

theorem dotted_round_trip_witness: "parseIp ''10.1.3.4'' = Some (v4 0x0A010304)"
proof -
  have "addressText (v4 0x0A010304) '''' = ''10.1.3.4''" by code_simp
  then show ?thesis using dotted_round_trip [where x = "0x0A010304" and written = "''''"] by simp
qed

subsection \<open>Configuration and downloads\<close>



text \<open>No request is refused as ambiguous without a warning: when two rules in use match one URL,
  validation of the document warned that these two may overlap.\<close>

theorem ambiguity_warned:
  assumes "matchRules (cf_rules (resolveConfig parse c)) u = r # r' # rest"
  shows "\<exists>scope. MayOverlap (rule_id r) (rule_id r') scope \<in> set (snd (validateConfig parse c))"
  by (rule ambiguous_warned [OF assms])

definition overlap_config :: fetch_config where
  "overlap_config = demo_config\<lparr>wc_rules := Some
     [demo_source ''wiki'' ''wiki.test'' ''WIKI_TOKEN'', demo_source ''copy'' ''WIKI.test'' ''COPY_TOKEN'']\<rparr>"

theorem ambiguity_warned_witness:
  "\<exists>scope. MayOverlap ''wiki'' ''copy'' scope \<in> set (snd (validateConfig demo_parse overlap_config))"
proof -
  let ?rs = "cf_rules (resolveConfig demo_parse overlap_config)"
  have "length (matchRules ?rs (demo_page ''/a'')) = 2 \<and> map rule_id (matchRules ?rs (demo_page ''/a'')) = [''wiki'', ''copy'']"
    by code_simp
  then obtain r r' where "matchRules ?rs (demo_page ''/a'') = [r, r']" "rule_id r = ''wiki''" "rule_id r' = ''copy''"
    by (auto simp: map_eq_Cons_conv)
  with ambiguity_warned [of demo_parse overlap_config "demo_page ''/a''"] show ?thesis by metis
qed

text \<open>An image that \<open>fetchImage\<close> returns came with a success status, is within the caller's
  limit, has the signature of its media type, and its name is a non-empty leaf.\<close>

theorem image_download_checked:
  assumes "fetchImage env decode c raw limit w = Some (Inr img, s)"
  shows "200 \<le> fi_statusCode img \<and> fi_statusCode img < 300 \<and> length (fi_bytes img) \<le> limit \<and>
    sniffImageMediaType (fi_bytes img) = Some (fi_mediaType img) \<and>
    fi_name img \<noteq> '''' \<and> list_all (\<lambda>c. \<not> path_like c) (fi_name img)"
  by (rule image_checked [OF assms])

definition gif_env :: "nat fetch_env" where
  "gif_env = demo_fetch\<lparr>fe_exchange := (\<lambda>req w. (Inr (demo_response 200 None
     \<lparr>rs_chunks := [[71, 73, 70], [56, 57, 97, 1]]\<rparr>), w))\<rparr>"

theorem image_download_checked_witness:
  "\<exists>img s. fetchImage gif_env Some demo_config ''w/a/b.gif'' 9 0 = Some (Inr img, s) \<and>
     fi_mediaType img = ImageGif \<and> fi_name img = ''b.gif'' \<and> length (fi_bytes img) \<le> 9"
proof -
  let ?r = "fetchImage gif_env Some demo_config ''w/a/b.gif'' 9 0"
  have "case ?r of Some (Inr img, s) \<Rightarrow> fi_mediaType img = ImageGif \<and> fi_name img = ''b.gif'' | _ \<Rightarrow> False"
    by code_simp
  then obtain img s where r: "?r = Some (Inr img, s)" "fi_mediaType img = ImageGif" "fi_name img = ''b.gif''"
    by (auto split: option.splits prod.splits sum.splits)
  from image_download_checked [OF r(1)] r show ?thesis by blast
qed

end
