(* ===== verification/DiffSimilarity.thy ===== *)
theory DiffSimilarity
  imports Prelude "HOL-Library.Multiset"
begin

text \<open>
  Similarity of two texts and the detection of moved nodes in the documents plugin
  (\<open>plugins/dsh-documents/src/documents/comparison/alignment/similarity.ts\<close> and
  \<open>diff/move-detection.ts\<close>). Scores are exact fractions where the code has doubles; the tokenizer
  is an argument, and its memo table, which never changes a result, is left out. Then the
  lemmas: the two-row table is the least number of edits, the token score is the multiset
  overlap, and no deletion is left beside an insertion of the same text.
\<close>

subsection \<open>Edit distance\<close>

text \<open>One row of the table from the row above it; \<open>cur\<close> is the cell to the left.\<close>

fun edit_row :: "'a \<Rightarrow> 'a list \<Rightarrow> nat list \<Rightarrow> nat \<Rightarrow> nat list" where
  "edit_row a [] prev cur = []"
| "edit_row a (b # bs) prev cur =
     (let substitution = hd prev + (if a = b then 0 else 1);
          cell = min (min (hd (tl prev) + 1) (cur + 1)) substitution
      in cell # edit_row a bs (tl prev) cell)"

fun edit_rows :: "'a list \<Rightarrow> 'a list \<Rightarrow> nat \<Rightarrow> nat list \<Rightarrow> nat list" where
  "edit_rows [] right row prev = prev"
| "edit_rows (a # as) right row prev = edit_rows as right (row + 1) (row # edit_row a right prev row)"

definition editDistance :: "'a list \<Rightarrow> 'a list \<Rightarrow> nat" where
  "editDistance left right = edit_rows left right 1 [0..<length right + 1] ! length right"

definition CHAR_LIMIT :: nat where
  "CHAR_LIMIT = 512"

definition characterSimilarity :: "string \<Rightarrow> string \<Rightarrow> rat" where
  "characterSimilarity left right =
     (if left = right then 1
      else if length left > CHAR_LIMIT \<or> length right > CHAR_LIMIT then 0
      else let distance = editDistance left right; longest = max (length left) (length right)
           in if longest = 0 then 1 else 1 - of_nat distance / of_nat longest)"

subsection \<open>Token overlap\<close>

fun count_tokens :: "'a list \<Rightarrow> ('a \<times> nat) list \<Rightarrow> ('a \<times> nat) list" where
  "count_tokens [] counts = counts"
| "count_tokens (t # ts) counts =
     count_tokens ts (amap_set t ((case map_of counts t of None \<Rightarrow> 0 | Some n \<Rightarrow> n) + 1) counts)"

fun shared_tokens :: "'a list \<Rightarrow> ('a \<times> nat) list \<Rightarrow> nat \<Rightarrow> nat" where
  "shared_tokens [] counts shared = shared"
| "shared_tokens (t # ts) counts shared =
     (case map_of counts t of
        None \<Rightarrow> shared_tokens ts counts shared
      | Some remaining \<Rightarrow>
          if remaining = 0 then shared_tokens ts counts shared
          else shared_tokens ts (amap_set t (remaining - 1) counts) (shared + 1))"

definition diceFromTokens :: "'a list \<Rightarrow> 'a list \<Rightarrow> rat" where
  "diceFromTokens left right =
     (if left = [] \<and> right = [] then 1
      else if left = [] \<or> right = [] then 0
      else of_nat (2 * shared_tokens right (count_tokens left []) 0) / of_nat (length left + length right))"

definition SIMILARITY_TOKEN_CAP :: nat where
  "SIMILARITY_TOKEN_CAP = 4000"

definition cachedTokens :: "(string \<Rightarrow> string list) \<Rightarrow> string \<Rightarrow> string list" where
  "cachedTokens significantTokens tx = take SIMILARITY_TOKEN_CAP (significantTokens tx)"

definition similarityOf :: "(string \<Rightarrow> string list) \<Rightarrow> string \<Rightarrow> string \<Rightarrow> rat" where
  "similarityOf significantTokens left right =
     (if left = right then 1
      else max (diceFromTokens (cachedTokens significantTokens left) (cachedTokens significantTokens right))
               (characterSimilarity left right))"

subsection \<open>Moves\<close>

record detected_move =
  mv_deleteIndex :: nat
  mv_insertIndex :: nat

fun bucket_inserts :: "nat \<Rightarrow> 'k list \<Rightarrow> ('k \<times> nat list) list \<Rightarrow> ('k \<times> nat list) list" where
  "bucket_inserts i [] byHash = byHash"
| "bucket_inserts i (h # hs) byHash =
     bucket_inserts (i + 1) hs
       (case map_of byHash h of None \<Rightarrow> amap_set h [i] byHash | Some b \<Rightarrow> amap_set h (b @ [i]) byHash)"

fun match_deletes :: "nat \<Rightarrow> 'k list \<Rightarrow> ('k \<times> nat list) list \<Rightarrow> detected_move list \<times> nat list" where
  "match_deletes i [] byHash = ([], [])"
| "match_deletes i (h # hs) byHash =
     (case map_of byHash h of
        Some (j # js) \<Rightarrow>
          (let (moves, deleted) = match_deletes (i + 1) hs (amap_set h js byHash)
           in (\<lparr>mv_deleteIndex = i, mv_insertIndex = j\<rparr> # moves, deleted))
      | _ \<Rightarrow> (let (moves, deleted) = match_deletes (i + 1) hs byHash in (moves, i # deleted)))"

definition detectMoves :: "'k list \<Rightarrow> 'k list \<Rightarrow> detected_move list \<times> nat list \<times> nat list" where
  "detectMoves deletes inserts =
     (let (moves, deleted) = match_deletes 0 deletes (bucket_inserts 0 inserts []);
          claimed = map mv_insertIndex moves
      in (moves, deleted, filter (\<lambda>i. i \<notin> set claimed) [0..<length inserts]))"

subsection \<open>The least number of edits\<close>

inductive edits :: "nat \<Rightarrow> 'a list \<Rightarrow> 'a list \<Rightarrow> bool" where
  nothing: "edits 0 [] []"
| keep: "edits n xs ys \<Longrightarrow> edits n (x # xs) (x # ys)"
| change: "edits n xs ys \<Longrightarrow> edits (Suc n) (x # xs) (y # ys)"
| remove: "edits n xs ys \<Longrightarrow> edits (Suc n) (x # xs) ys"
| add: "edits n xs ys \<Longrightarrow> edits (Suc n) xs (y # ys)"

fun lev :: "'a list \<Rightarrow> 'a list \<Rightarrow> nat" where
  "lev [] ys = length ys"
| "lev (x # xs) [] = Suc (length xs)"
| "lev (x # xs) (y # ys) =
     min (min (lev xs (y # ys) + 1) (lev (x # xs) ys + 1)) (lev xs ys + (if x = y then 0 else 1))"

lemma lev_nil2 [simp]: "lev xs [] = length xs"
  by (cases xs) simp_all

lemma edits_nil_left: "edits (length ys) [] ys"
  by (induction ys) (auto intro: edits.intros)

lemma edits_nil_right: "edits (length xs) xs []"
  by (induction xs) (auto intro: edits.intros)

lemma lev_edits: "edits (lev xs ys) xs ys"
proof (induction xs ys rule: lev.induct)
  case (3 x xs y ys)
  show ?case
    using edits.remove [OF 3(1), of x] edits.add [OF 3(2), of y] edits.keep [OF 3(3), of x] edits.change [OF 3(3), of x y]
    by (auto simp: min_def)
qed (use edits_nil_left edits_nil_right [of "_ # _"] in simp_all)

lemma lev_step: "lev (x # xs) ys \<le> Suc (lev xs ys)" "lev xs (y # ys) \<le> Suc (lev xs ys)"
proof -
  show "lev (x # xs) ys \<le> Suc (lev xs ys)" by (cases ys) auto
  show "lev xs (y # ys) \<le> Suc (lev xs ys)" by (cases xs) auto
qed

lemma lev_cons: "lev (x # xs) (x # ys) \<le> lev xs ys"
  by simp

lemma lev_least: "edits n xs ys \<Longrightarrow> lev xs ys \<le> n"
proof (induction rule: edits.induct)
  case (keep n xs ys x)
  then show ?case using lev_cons [of x xs ys] by simp
next
  case (change n xs ys x y)
  have "lev (x # xs) (y # ys) \<le> lev xs ys + 1" by (simp add: min.coboundedI2)
  then show ?case using change by simp
next
  case (remove n xs ys x)
  then show ?case using lev_step(1) [of x xs ys] by simp
next
  case (add n xs ys y)
  then show ?case using lev_step(2) [of xs y ys] by simp
qed simp

lemma edits_append: "edits m xs ys \<Longrightarrow> edits n xs' ys' \<Longrightarrow> edits (m + n) (xs @ xs') (ys @ ys')"
  by (induction rule: edits.induct) (auto intro: edits.intros)

lemma edits_rev: "edits n xs ys \<Longrightarrow> edits n (rev xs) (rev ys)"
proof (induction rule: edits.induct)
  case (keep n xs ys x)
  then show ?case using edits_append [OF keep.IH edits.keep [OF edits.nothing]] by simp
next
  case (change n xs ys x y)
  then show ?case using edits_append [OF change.IH edits.change [OF edits.nothing]] by simp
next
  case (remove n xs ys x)
  then show ?case using edits_append [OF remove.IH edits.remove [OF edits.nothing]] by simp
next
  case (add n xs ys y)
  then show ?case using edits_append [OF add.IH edits.add [OF edits.nothing]] by simp
qed (auto intro: edits.nothing)

lemma lev_rev: "lev (rev xs) (rev ys) = lev xs ys"
  using lev_least [OF edits_rev [OF lev_edits [of xs ys]]] lev_least [OF edits_rev [OF lev_edits [of "rev xs" "rev ys"]]]
  by simp

text \<open>Cell \<open>j\<close> of the row of a prefix \<open>p\<close>, read backwards: the distance to the first \<open>j\<close> characters.\<close>

definition lev_row :: "'a list \<Rightarrow> 'a list \<Rightarrow> nat list" where
  "lev_row p right = map (\<lambda>j. lev (rev p) (rev (take j right))) [0..<length right + 1]"

lemma edit_row_eq:
  "prev = map (\<lambda>j. lev (rev p) (rev (seen @ take j bs))) [0..<length bs + 1] \<Longrightarrow>
   cur = lev (a # rev p) (rev seen) \<Longrightarrow>
   edit_row a bs prev cur = map (\<lambda>j. lev (a # rev p) (rev (seen @ take (Suc j) bs))) [0..<length bs]"
proof (induction bs arbitrary: prev cur seen)
  case (Cons b bs)
  have e: "map (\<lambda>j. f (take j (b # bs))) [0..<length (b # bs) + 1] = f [] # map (\<lambda>j. f (b # take j bs)) [0..<length bs + 1]"
    for f :: "'a list \<Rightarrow> nat"
    by (simp add: upt_conv_Cons map_Suc_upt [symmetric] del: upt_Suc)
  have p: "prev = lev (rev p) (rev seen) # map (\<lambda>j. lev (rev p) (rev ((seen @ [b]) @ take j bs))) [0..<length bs + 1]"
    using Cons.prems(1) e [of "\<lambda>z. lev (rev p) (rev (seen @ z))"] by simp
  have h: "hd (tl prev) = lev (rev p) (b # rev seen)"
    unfolding p by (simp add: upt_conv_Cons del: upt_Suc)
  let ?cell = "min (min (hd (tl prev) + 1) (cur + 1)) (hd prev + (if a = b then 0 else 1))"
  have c: "?cell = lev (a # rev p) (rev (seen @ [b]))"
    unfolding h using Cons.prems(2) p by simp
  have "edit_row a bs (tl prev) ?cell = map (\<lambda>j. lev (a # rev p) (rev ((seen @ [b]) @ take (Suc j) bs))) [0..<length bs]"
    by (rule Cons.IH) (use p c in simp_all)
  moreover have "map f [0..<length (b # bs)] = f 0 # map (\<lambda>j. f (Suc j)) [0..<length bs]" for f :: "nat \<Rightarrow> nat"
    by (simp add: upt_conv_Cons map_Suc_upt [symmetric] del: upt_Suc)
  ultimately show ?case using c by (simp add: Let_def del: upt_Suc)
qed simp

lemma edit_rows_eq:
  "edit_rows as right (length p + 1) (lev_row p right) = lev_row (p @ as) right"
proof (induction as arbitrary: p)
  case (Cons a as)
  have "edit_row a right (lev_row p right) (length p + 1) =
      map (\<lambda>j. lev (a # rev p) (rev ([] @ take (Suc j) right))) [0..<length right]"
    by (rule edit_row_eq) (simp_all add: lev_row_def)
  then have "(length p + 1) # edit_row a right (lev_row p right) (length p + 1) = lev_row (p @ [a]) right"
    by (simp add: lev_row_def upt_conv_Cons map_Suc_upt [symmetric] del: upt_Suc)
  then show ?case using Cons.IH [of "p @ [a]"] by simp
qed simp

lemma editDistance_lev: "editDistance xs ys = lev xs ys"
proof -
  have "lev_row [] ys = map (\<lambda>j. j) [0..<length ys + 1]"
    unfolding lev_row_def by (rule map_cong) auto
  then have i: "[0..<length ys + 1] = lev_row [] ys" by simp
  have "editDistance xs ys = lev_row xs ys ! length ys"
    unfolding editDistance_def i using edit_rows_eq [of xs ys "[]"] by simp
  also have "\<dots> = lev (rev xs) (rev ys)" by (simp add: lev_row_def nth_append del: upt_Suc)
  finally show ?thesis by (simp add: lev_rev)
qed

lemma edit_distance_bounds: "editDistance xs ys \<le> max (length xs) (length ys)" "xs \<noteq> ys \<Longrightarrow> 0 < editDistance xs ys"
proof -
  have "lev xs ys \<le> max (length xs) (length ys)" by (induction xs ys rule: lev.induct) auto
  then show "editDistance xs ys \<le> max (length xs) (length ys)" by (simp add: editDistance_lev)
  have "edits n xs ys \<Longrightarrow> n = 0 \<Longrightarrow> xs = ys" for n by (induction rule: edits.induct) auto
  from this [OF lev_edits] show "xs \<noteq> ys \<Longrightarrow> 0 < editDistance xs ys" by (auto simp: editDistance_lev)
qed

subsection \<open>The overlap of two multisets\<close>

lemma count_tokens_count:
  "(case map_of (count_tokens ts counts) t of None \<Rightarrow> 0 | Some n \<Rightarrow> n) =
   (case map_of counts t of None \<Rightarrow> 0 | Some n \<Rightarrow> n) + count (mset ts) t"
  by (induction ts arbitrary: counts) (auto split: option.splits)

lemma shared_tokens_inter:
  "(\<And>t. (case map_of counts t of None \<Rightarrow> 0 | Some n \<Rightarrow> n) = count M t) \<Longrightarrow>
   shared_tokens ts counts shared = shared + size (M \<inter># mset ts)"
proof (induction ts arbitrary: counts shared M)
  case (Cons t ts)
  have add: "M \<inter># add_mset t N = (if t \<in># M then add_mset t ((M - {#t#}) \<inter># N) else M \<inter># N)" for N
    by (simp add: inter_add_right1 inter_add_right2)
  show ?case
  proof (cases "t \<in># M")
    case True
    then obtain n where n: "map_of counts t = Some (Suc n)"
      using Cons.prems [of t] by (auto split: option.splits simp: gr0_conv_Suc count_greater_zero_iff [symmetric] simp del: count_greater_zero_iff)
    have "shared_tokens ts (amap_set t n counts) (shared + 1) = shared + 1 + size ((M - {#t#}) \<inter># mset ts)"
    proof (rule Cons.IH)
      fix t'
      show "(case map_of (amap_set t n counts) t' of None \<Rightarrow> 0 | Some k \<Rightarrow> k) = count (M - {#t#}) t'"
        using Cons.prems [of t'] n by (auto split: option.splits)
    qed
    then show ?thesis using True n add by simp
  next
    case False
    then have "count M t = 0" by (simp add: not_in_iff)
    then have "shared_tokens (t # ts) counts shared = shared_tokens ts counts shared"
      using Cons.prems [of t] by (auto split: option.splits)
    then show ?thesis using Cons.IH [OF Cons.prems] False add by simp
  qed
qed simp

lemma dice_overlap:
  assumes "left \<noteq> [] \<or> right \<noteq> []"
  shows "diceFromTokens left right =
    of_nat (2 * size (mset left \<inter># mset right)) / of_nat (length left + length right)"
proof -
  have "shared_tokens right (count_tokens left []) 0 = size (mset left \<inter># mset right)"
    using shared_tokens_inter [of "count_tokens left []" "mset left" right 0] count_tokens_count [of left "[]"] by simp
  then show ?thesis using assms by (auto simp: diceFromTokens_def)
qed

lemma dice_range: "0 \<le> diceFromTokens left right \<and> diceFromTokens left right \<le> 1"
proof (cases "left = [] \<and> right = []")
  case False
  then have ne: "left \<noteq> [] \<or> right \<noteq> []" by blast
  have "size (mset left \<inter># mset right) \<le> length left" "size (mset left \<inter># mset right) \<le> length right"
    using size_mset_mono [of "mset left \<inter># mset right" "mset left"] size_mset_mono [of "mset left \<inter># mset right" "mset right"]
    by simp_all
  then have "2 * size (mset left \<inter># mset right) \<le> length left + length right" by linarith
  then have le: "(of_nat (2 * size (mset left \<inter># mset right)) :: rat) \<le> of_nat (length left + length right)"
    by (rule of_nat_mono)
  have "0 < length left + length right" using ne by auto
  then have pos: "(0 :: rat) < of_nat (length left + length right)" by (simp only: of_nat_0_less_iff)
  have nn: "(0 :: rat) \<le> of_nat (2 * size (mset left \<inter># mset right))" by (rule of_nat_0_le_iff)
  show ?thesis unfolding dice_overlap [OF ne]
  proof
    show "0 \<le> of_nat (2 * size (mset left \<inter># mset right)) / (of_nat (length left + length right) :: rat)"
      by (rule divide_nonneg_pos [OF nn pos])
    show "of_nat (2 * size (mset left \<inter># mset right)) / (of_nat (length left + length right) :: rat) \<le> 1"
      using le pos by (simp only: divide_le_eq_1) blast
  qed
qed (simp add: diceFromTokens_def)

lemma dice_symmetric: "diceFromTokens left right = diceFromTokens right left"
proof (cases "left = [] \<and> right = []")
  case False
  then have "left \<noteq> [] \<or> right \<noteq> []" "right \<noteq> [] \<or> left \<noteq> []" by blast+
  note this [THEN dice_overlap]
  moreover have "mset left \<inter># mset right = mset right \<inter># mset left" by (simp add: multiset_eq_iff min.commute)
  ultimately show ?thesis by (simp only: add.commute)
qed (simp add: diceFromTokens_def)

lemma ratio_range: "d \<le> l \<Longrightarrow> 0 < l \<Longrightarrow> 0 \<le> 1 - of_nat d / (of_nat l :: rat) \<and> 1 - of_nat d / (of_nat l :: rat) \<le> 1"
  by (simp add: divide_le_eq_1)

lemma character_range: "0 \<le> characterSimilarity left right \<and> characterSimilarity left right \<le> 1"
proof (cases "left = right \<or> length left > CHAR_LIMIT \<or> length right > CHAR_LIMIT \<or> max (length left) (length right) = 0")
  case True
  then show ?thesis by (auto simp: characterSimilarity_def Let_def)
next
  case False
  then have "characterSimilarity left right = 1 - of_nat (editDistance left right) / of_nat (max (length left) (length right))"
    by (simp only: characterSimilarity_def Let_def) simp
  moreover from False have "0 < max (length left) (length right)" by (metis neq0_conv)
  ultimately show ?thesis using ratio_range [OF edit_distance_bounds(1) [of left right]] by (simp only: True_implies_equals)
qed

lemma similarity_range: "0 \<le> similarityOf tok left right \<and> similarityOf tok left right \<le> 1"
  using dice_range character_range by (auto simp: similarityOf_def max_def)

subsection \<open>Moves pair equal texts, and all that can be paired\<close>

definition bucket :: "('k \<times> nat list) list \<Rightarrow> 'k \<Rightarrow> nat list" where
  "bucket byHash h = (case map_of byHash h of None \<Rightarrow> [] | Some b \<Rightarrow> b)"

lemma bucket_set [simp]: "bucket (amap_set h b m) h' = (if h = h' then b else bucket m h')"
  by (simp add: bucket_def)

lemma bucket_inserts_eq:
  "bucket (bucket_inserts i hs m) h = bucket m h @ map ((+) i) (filter (\<lambda>k. hs ! k = h) [0..<length hs])"
proof (induction hs arbitrary: i m)
  case (Cons x hs)
  let ?m = "case map_of m x of None \<Rightarrow> amap_set x [i] m | Some b \<Rightarrow> amap_set x (b @ [i]) m"
  have b: "bucket ?m h = bucket m h @ (if x = h then [i] else [])"
    by (auto simp: bucket_def split: option.splits)
  have f: "filter (\<lambda>k. (x # hs) ! k = h) [0..<length (x # hs)] =
      (if x = h then [0] else []) @ map Suc (filter (\<lambda>k. hs ! k = h) [0..<length hs])"
    by (simp add: upt_conv_Cons map_Suc_upt [symmetric] filter_map comp_def del: upt_Suc)
  show ?case
    unfolding bucket_inserts.simps f Cons.IH [of "i + 1" ?m] b by (simp add: comp_def)
qed simp

lemma match_deletes_spec:
  "match_deletes i ds m = (moves, deleted) \<Longrightarrow>
   (\<forall>mv \<in> set moves. i \<le> mv_deleteIndex mv \<and> mv_deleteIndex mv < i + length ds) \<and>
   (\<forall>d \<in> set deleted. i \<le> d \<and> d < i + length ds \<and> length (bucket m (ds ! (d - i))) < count_list ds (ds ! (d - i))) \<and>
   mset (map mv_deleteIndex moves @ deleted) = mset [i..<i + length ds] \<and>
   (\<forall>h. map mv_insertIndex (filter (\<lambda>mv. ds ! (mv_deleteIndex mv - i) = h) moves) = take (count_list ds h) (bucket m h))"
proof (induction ds arbitrary: i m moves deleted)
  case (Cons x ds)
  show ?case
  proof (cases "bucket m x")
    case (Cons j js)
    then have mx: "map_of m x = Some (j # js)" by (auto simp: bucket_def split: option.splits)
    obtain mv' del' where r: "match_deletes (i + 1) ds (amap_set x js m) = (mv', del')" by force
    have res: "moves = \<lparr>mv_deleteIndex = i, mv_insertIndex = j\<rparr> # mv'" "deleted = del'"
      using Cons.prems mx r by auto
    note IH = Cons.IH [OF r]
    have nth: "i + 1 \<le> d \<Longrightarrow> (x # ds) ! (d - i) = ds ! (d - (i + 1))" for d by (simp add: nth_Cons')
    have "length (bucket m ((x # ds) ! (d - i))) < count_list (x # ds) ((x # ds) ! (d - i))" if "d \<in> set del'" for d
      using IH that nth [of d] \<open>bucket m x = _\<close> by (auto split: if_splits)
    moreover have "map mv_insertIndex (filter (\<lambda>mv. (x # ds) ! (mv_deleteIndex mv - i) = h) moves) = take (count_list (x # ds) h) (bucket m h)" for h
    proof -
      have "filter (\<lambda>mv. (x # ds) ! (mv_deleteIndex mv - i) = h) mv' = filter (\<lambda>mv. ds ! (mv_deleteIndex mv - (i + 1)) = h) mv'"
        by (rule filter_cong) (use IH nth in auto)
      then show ?thesis using IH res \<open>bucket m x = _\<close> by auto
    qed
    moreover have "mset (map mv_deleteIndex moves @ deleted) = mset [i..<i + length (x # ds)]"
      using IH res by (simp add: upt_conv_Cons del: upt_Suc)
    ultimately show ?thesis using IH res by auto
  next
    case Nil
    obtain mv' del' where r: "match_deletes (i + 1) ds m = (mv', del')" by force
    have res: "moves = mv'" "deleted = i # del'"
      using Cons.prems Nil r by (auto simp: bucket_def split: option.splits list.splits)
    note IH = Cons.IH [OF r]
    have nth: "i + 1 \<le> d \<Longrightarrow> (x # ds) ! (d - i) = ds ! (d - (i + 1))" for d by (simp add: nth_Cons')
    have "length (bucket m ((x # ds) ! (d - i))) < count_list (x # ds) ((x # ds) ! (d - i))" if "d \<in> set (i # del')" for d
      using IH that nth [of d] Nil by (auto split: if_splits)
    moreover have "map mv_insertIndex (filter (\<lambda>mv. (x # ds) ! (mv_deleteIndex mv - i) = h) moves) = take (count_list (x # ds) h) (bucket m h)" for h
    proof -
      have "filter (\<lambda>mv. (x # ds) ! (mv_deleteIndex mv - i) = h) mv' = filter (\<lambda>mv. ds ! (mv_deleteIndex mv - (i + 1)) = h) mv'"
        by (rule filter_cong) (use IH nth in auto)
      then show ?thesis using IH res Nil by auto
    qed
    moreover have "mset (map mv_deleteIndex moves @ deleted) = mset [i..<i + length (x # ds)]"
      using IH res by (simp add: upt_conv_Cons del: upt_Suc)
    ultimately show ?thesis using IH res by auto
  qed
qed simp

text \<open>A selection without repetition and what it leaves make up the whole.\<close>

lemma mset_select:
  assumes "distinct ps" "set ps \<subseteq> set xs" "distinct xs"
  shows "mset (ps @ filter (\<lambda>i. i \<notin> set ps) xs) = mset xs"
proof -
  have "distinct (ps @ filter (\<lambda>i. i \<notin> set ps) xs)" using assms by auto
  moreover have "set (ps @ filter (\<lambda>i. i \<notin> set ps) xs) = set xs" using assms by auto
  ultimately show ?thesis using assms(3) set_eq_iff_mset_eq_distinct by blast
qed

lemma bucket_empty [simp]: "bucket [] h = []"
  by (simp add: bucket_def)

lemma detect_moves_spec:
  assumes "detectMoves ds ins = (moves, deleted, inserted)"
  shows "mset (map mv_deleteIndex moves @ deleted) = mset [0..<length ds]"
    and "mset (map mv_insertIndex moves @ inserted) = mset [0..<length ins]"
    and "mv \<in> set moves \<Longrightarrow> ds ! mv_deleteIndex mv = ins ! mv_insertIndex mv"
    and "d \<in> set deleted \<Longrightarrow> i \<in> set inserted \<Longrightarrow> ds ! d \<noteq> ins ! i"
proof -
  let ?m = "bucket_inserts 0 ins []"
  have b: "bucket ?m h = filter (\<lambda>k. ins ! k = h) [0..<length ins]" for h
    using bucket_inserts_eq [of 0 ins "[]" h] by (simp add: map_idI)
  obtain moves' deleted' where r: "match_deletes 0 ds ?m = (moves', deleted')" by force
  have res: "moves = moves'" "deleted = deleted'"
    "inserted = filter (\<lambda>i. i \<notin> set (map mv_insertIndex moves)) [0..<length ins]"
    using assms r by (auto simp: detectMoves_def)
  note S = match_deletes_spec [OF r, folded res(1,2), unfolded diff_zero]
  have sel: "map mv_insertIndex (filter (\<lambda>mv. ds ! mv_deleteIndex mv = h) moves) =
      take (count_list ds h) (filter (\<lambda>k. ins ! k = h) [0..<length ins])" for h
    using S by (simp add: b)
  show "mset (map mv_deleteIndex moves @ deleted) = mset [0..<length ds]" using S by simp
  have key: "ins ! mv_insertIndex mv = ds ! mv_deleteIndex mv \<and> mv_insertIndex mv < length ins" if "mv \<in> set moves" for mv
  proof -
    have "mv_insertIndex mv \<in> set (map mv_insertIndex (filter (\<lambda>mv'. ds ! mv_deleteIndex mv' = ds ! mv_deleteIndex mv) moves))"
      using that by auto
    then show ?thesis unfolding sel by (auto dest: in_set_takeD)
  qed
  then show "mv \<in> set moves \<Longrightarrow> ds ! mv_deleteIndex mv = ins ! mv_insertIndex mv" by simp
  have "distinct (map mv_deleteIndex moves @ deleted)"
    using S mset_eq_imp_distinct_iff [of "map mv_deleteIndex moves @ deleted" "[0..<length ds]"] by simp
  then have "distinct moves" by (simp add: distinct_map)
  moreover have "inj_on mv_insertIndex (set moves)"
  proof (rule inj_onI)
    fix mv mv' assume m: "mv \<in> set moves" "mv' \<in> set moves" and e: "mv_insertIndex mv = mv_insertIndex mv'"
    let ?l = "filter (\<lambda>m. ds ! mv_deleteIndex m = ds ! mv_deleteIndex mv) moves"
    have "distinct (map mv_insertIndex ?l)" unfolding sel by simp
    then have "inj_on mv_insertIndex (set ?l)" by (simp add: distinct_map)
    moreover have "ds ! mv_deleteIndex mv' = ds ! mv_deleteIndex mv" using key [OF m(1)] key [OF m(2)] e by simp
    ultimately show "mv = mv'" using m e by (auto dest: inj_onD)
  qed
  ultimately have "distinct (map mv_insertIndex moves)" by (simp add: distinct_map)
  moreover have "set (map mv_insertIndex moves) \<subseteq> set [0..<length ins]" using key by auto
  ultimately show "mset (map mv_insertIndex moves @ inserted) = mset [0..<length ins]"
    unfolding res(3) by (intro mset_select) simp_all
  show "ds ! d \<noteq> ins ! i" if d: "d \<in> set deleted" and i: "i \<in> set inserted"
  proof
    assume e: "ds ! d = ins ! i"
    have "length (filter (\<lambda>k. ins ! k = ins ! i) [0..<length ins]) < count_list ds (ins ! i)"
      using S d e b by metis
    then have "map mv_insertIndex (filter (\<lambda>mv. ds ! mv_deleteIndex mv = ins ! i) moves) = filter (\<lambda>k. ins ! k = ins ! i) [0..<length ins]"
      unfolding sel by simp
    moreover have "i \<in> set (filter (\<lambda>k. ins ! k = ins ! i) [0..<length ins])" using i by (simp add: res(3))
    ultimately have "i \<in> set (map mv_insertIndex (filter (\<lambda>mv. ds ! mv_deleteIndex mv = ins ! i) moves))" by simp
    then have "i \<in> set (map mv_insertIndex moves)" by auto
    then show False using i by (simp add: res(3))
  qed
qed

end
