(* ===== verification/DiffRun.thy ===== *)
theory DiffRun
  imports Prelude
begin

text \<open>
  The longest increasing run of the alignment
  (\<open>longestIncreasingRun\<close> of \<open>plugins/dsh-documents/src/documents/comparison/alignment/block-align.ts\<close>):
  the least tails of the runs of each length, found by bisection, with the walk back along the
  recorded predecessors. Then the proof that the result is an increasing run and a longest one.
\<close>

text \<open>The least position whose tail is not below the value, by bisection.\<close>

function tail_position :: "nat list \<Rightarrow> nat \<Rightarrow> nat \<Rightarrow> nat \<Rightarrow> nat" where
  "tail_position tails v low high =
     (if low < high then
        let middle = (low + high) div 2
        in if tails ! middle < v then tail_position tails v (middle + 1) high
           else tail_position tails v low middle
      else low)"
  by pat_completeness auto

termination by (relation "measure (\<lambda>(_, _, low, high). high - low)") auto

declare tail_position.simps [simp del]

text \<open>Assignment to an index of an array, the next free one included.\<close>

definition put_at :: "nat \<Rightarrow> 'a \<Rightarrow> 'a list \<Rightarrow> 'a list" where
  "put_at i x xs = (if i < length xs then xs[i := x] else xs @ [x])"

record run_state =
  rs_tails :: "nat list"
  rs_tailsPositions :: "nat list"
  rs_previous :: "nat option list"

definition run_step :: "nat list \<Rightarrow> nat \<Rightarrow> run_state \<Rightarrow> run_state" where
  "run_step values i st =
     (let v = values ! i;
          low = tail_position (rs_tails st) v 0 (length (rs_tails st));
          positions = put_at low i (rs_tailsPositions st)
      in \<lparr>rs_tails = put_at low v (rs_tails st), rs_tailsPositions = positions,
          rs_previous = (rs_previous st)[i := if 0 < low then Some (positions ! (low - 1)) else None]\<rparr>)"

text \<open>The walk back from the last tail. It follows indexes below the one it is at, so as many
  steps as there are values are enough.\<close>

function run_back :: "nat \<Rightarrow> nat option list \<Rightarrow> nat option \<Rightarrow> nat list" where
  "run_back fuel previous cursor =
     (case cursor of
        None \<Rightarrow> []
      | Some c \<Rightarrow> if fuel = 0 then [] else c # run_back (fuel - 1) previous (previous ! c))"
  by pat_completeness auto

termination by (relation "measure (\<lambda>(fuel, _, _). fuel)") auto

declare run_back.simps [simp del]

lemma run_back_simps [simp]:
  "run_back fuel previous None = []" "run_back 0 previous cursor = []"
  "run_back (Suc fuel) previous (Some c) = c # run_back fuel previous (previous ! c)"
  by (simp_all add: run_back.simps split: option.splits)

definition longestIncreasingRun :: "nat list \<Rightarrow> nat list" where
  "longestIncreasingRun values =
     (if values = [] then []
      else let st = fold (run_step values) [0..<length values]
                      \<lparr>rs_tails = [], rs_tailsPositions = [], rs_previous = replicate (length values) None\<rparr>
           in rev (run_back (length values) (rs_previous st)
                (Some (rs_tailsPositions st ! (length (rs_tails st) - 1)))))"

subsection \<open>The run is a longest increasing one\<close>

definition increasing_run :: "nat list \<Rightarrow> nat list \<Rightarrow> bool" where
  "increasing_run values ps \<longleftrightarrow>
     sorted_wrt (<) ps \<and> (\<forall>p \<in> set ps. p < length values) \<and> sorted_wrt (<) (map ((!) values) ps)"

lemma put_at_nth: "k \<le> length xs \<Longrightarrow> i \<le> length xs \<Longrightarrow> k < length (put_at i x xs) \<Longrightarrow>
    put_at i x xs ! k = (if k = i then x else xs ! k)"
  by (auto simp: put_at_def nth_append nth_list_update)

lemma put_at_length [simp]: "i \<le> length xs \<Longrightarrow> length (put_at i x xs) = max (length xs) (Suc i)"
  by (auto simp: put_at_def)

lemma tail_position_spec:
  assumes "sorted_wrt (<) tails" "low \<le> high" "high \<le> length tails"
    and "\<And>k. k < low \<Longrightarrow> tails ! k < v" "\<And>k. high \<le> k \<Longrightarrow> k < length tails \<Longrightarrow> v \<le> tails ! k"
  shows "tail_position tails v low high \<le> length tails \<and> (\<forall>k < tail_position tails v low high. tails ! k < v) \<and>
    (\<forall>k. tail_position tails v low high \<le> k \<longrightarrow> k < length tails \<longrightarrow> v \<le> tails ! k)"
  using assms
proof (induction tails v low high rule: tail_position.induct)
  case (1 tails v low high)
  have mono: "tails ! a \<le> tails ! b" if "a \<le> b" "b < length tails" for a b
    using sorted_wrt_nth_less [OF "1.prems"(1), of a b] that by (cases "a = b") auto
  show ?case
  proof (cases "low < high")
    case True
    let ?m = "(low + high) div 2"
    have m: "low \<le> ?m" "?m < high" using True by auto
    show ?thesis
    proof (cases "tails ! ?m < v")
      case lt: True
      have e: "tail_position tails v low high = tail_position tails v (?m + 1) high"
        by (subst tail_position.simps) (simp add: True lt Let_def)
      have "tails ! k < v" if "k < ?m + 1" for k using mono [of k ?m] lt m that "1.prems"(3) by simp
      then show ?thesis unfolding e
        by (intro "1.IH"(1) [OF True refl lt] "1.prems"(1,3,5)) (use m in simp_all)
    next
      case False
      have e: "tail_position tails v low high = tail_position tails v low ?m"
        by (subst tail_position.simps) (simp add: True False Let_def)
      have "v \<le> tails ! k" if "?m \<le> k" "k < length tails" for k using mono [of ?m k] False that by simp
      then show ?thesis unfolding e
        by (intro "1.IH"(2) [OF True refl False] "1.prems"(1,4)) (use m "1.prems"(3) in simp_all)
    qed
  next
    case False
    then have "tail_position tails v low high = low" by (subst tail_position.simps) simp
    then show ?thesis using "1.prems" False by simp
  qed
qed

lemma run_back_update:
  "n \<notin> set (run_back fuel previous c) \<Longrightarrow> run_back fuel (previous[n := x]) c = run_back fuel previous c"
proof (induction fuel arbitrary: c)
  case (Suc fuel)
  then show ?case by (cases c) auto
qed simp

text \<open>The walk back from \<open>i\<close> is an increasing run of \<open>k + 1\<close> indices that ends in \<open>i\<close>.\<close>

definition run_ends :: "nat list \<Rightarrow> nat option list \<Rightarrow> nat \<Rightarrow> nat \<Rightarrow> bool" where
  "run_ends values previous i k \<longleftrightarrow> i < length values \<and>
     (\<forall>fuel > i. length (run_back fuel previous (Some i)) = Suc k \<and>
       hd (run_back fuel previous (Some i)) = i \<and>
       (\<forall>p \<in> set (run_back fuel previous (Some i)). p \<le> i) \<and>
       increasing_run values (rev (run_back fuel previous (Some i))))"

definition run_inv :: "nat list \<Rightarrow> nat \<Rightarrow> run_state \<Rightarrow> bool" where
  "run_inv values n st \<longleftrightarrow>
     length (rs_tails st) = length (rs_tailsPositions st) \<and> length (rs_previous st) = length values \<and>
     sorted_wrt (<) (rs_tails st) \<and>
     (\<forall>k < length (rs_tails st). rs_tailsPositions st ! k < n \<and>
        rs_tails st ! k = values ! (rs_tailsPositions st ! k) \<and>
        run_ends values (rs_previous st) (rs_tailsPositions st ! k) k) \<and>
     (\<forall>ps. ps \<noteq> [] \<longrightarrow> increasing_run values ps \<longrightarrow> last ps < n \<longrightarrow>
        length ps \<le> length (rs_tails st) \<and> rs_tails st ! (length ps - 1) \<le> values ! last ps)"

lemma increasing_run_snoc:
  "increasing_run values (ps @ [i]) \<longleftrightarrow> increasing_run values ps \<and> i < length values \<and>
     (ps \<noteq> [] \<longrightarrow> last ps < i \<and> values ! last ps < values ! i)"
proof -
  have e: "sorted_wrt (<) qs \<Longrightarrow> qs \<noteq> [] \<Longrightarrow> (\<forall>q \<in> set qs. q < (x :: nat)) \<longleftrightarrow> last qs < x" for qs x
    by (induction qs) (auto intro: less_trans)
  show ?thesis
    using e [of ps i] e [of "map ((!) values) ps" "values ! i"]
    by (cases "ps = []") (auto simp: increasing_run_def sorted_wrt_append last_map)
qed

lemma run_ends_update:
  assumes "run_ends values previous i k" "i < n"
  shows "run_ends values (previous[n := x]) i k"
proof -
  have "run_back fuel (previous[n := x]) (Some i) = run_back fuel previous (Some i)" if "fuel > i" for fuel
    using assms that by (intro run_back_update) (fastforce simp: run_ends_def)
  then show ?thesis using assms(1) by (simp add: run_ends_def)
qed

lemma run_step_inv:
  assumes inv: "run_inv values n st" and n: "n < length values"
  shows "run_inv values (Suc n) (run_step values n st)"
proof -
  let ?v = "values ! n" and ?tails = "rs_tails st" and ?pos = "rs_tailsPositions st"
  define low where "low = tail_position ?tails ?v 0 (length ?tails)"
  have len: "length ?tails = length ?pos" "length (rs_previous st) = length values" and sorted: "sorted_wrt (<) ?tails"
    using inv by (simp_all add: run_inv_def)
  have pos: "?pos ! k < n" "?tails ! k = values ! (?pos ! k)" "run_ends values (rs_previous st) (?pos ! k) k"
    if "k < length ?tails" for k using inv that by (simp_all add: run_inv_def)
  have best: "length ps \<le> length ?tails \<and> ?tails ! (length ps - 1) \<le> values ! last ps"
    if "ps \<noteq> []" "increasing_run values ps" "last ps < n" for ps using inv that unfolding run_inv_def by blast
  have low: "low \<le> length ?tails" "\<And>k. k < low \<Longrightarrow> ?tails ! k < ?v" "\<And>k. low \<le> k \<Longrightarrow> k < length ?tails \<Longrightarrow> ?v \<le> ?tails ! k"
    using tail_position_spec [OF sorted, of 0 "length ?tails" ?v] by (auto simp: low_def)
  let ?prev = "(rs_previous st)[n := if 0 < low then Some (?pos ! (low - 1)) else None]"
  have st': "run_step values n st = \<lparr>rs_tails = put_at low ?v ?tails, rs_tailsPositions = put_at low n ?pos, rs_previous = ?prev\<rparr>"
    unfolding run_step_def Let_def low_def [symmetric] using low(1) len(1) by (cases low) (simp_all add: put_at_nth)
  have T: "put_at low ?v ?tails ! k = (if k = low then ?v else ?tails ! k)"
    and Q: "put_at low n ?pos ! k = (if k = low then n else ?pos ! k)"
    if "k < length (put_at low ?v ?tails)" for k
    using that low(1) len(1) by (auto simp: put_at_nth)
  have new: "run_ends values ?prev n low"
  proof (cases "low = 0")
    case True
    have "run_back fuel ?prev (Some n) = [n]" if f: "fuel > n" for fuel
    proof -
      obtain f' where "fuel = Suc f'" using f by (cases fuel) auto
      then show ?thesis using n len True by (cases f') simp_all
    qed
    then show ?thesis using n True by (simp add: run_ends_def increasing_run_def)
  next
    case False
    let ?j = "?pos ! (low - 1)"
    have j: "?j < n" "values ! ?j < ?v" "run_ends values ?prev ?j (low - 1)"
      using pos [of "low - 1"] low(1) low(2) [of "low - 1"] False run_ends_update by auto
    have "run_back fuel ?prev (Some n) = n # run_back (fuel - 1) ?prev (Some ?j)" if "fuel > n" for fuel
      using that n len False by (cases fuel) auto
    moreover have "run_back (fuel - 1) ?prev (Some ?j) \<noteq> []" "\<forall>p \<in> set (run_back (fuel - 1) ?prev (Some ?j)). p \<le> n"
      "hd (run_back (fuel - 1) ?prev (Some ?j)) = ?j"
      if "fuel > n" for fuel
    proof -
      have "fuel - 1 > ?j" using that j(1) by simp
      then show "run_back (fuel - 1) ?prev (Some ?j) \<noteq> []" "\<forall>p \<in> set (run_back (fuel - 1) ?prev (Some ?j)). p \<le> n"
        "hd (run_back (fuel - 1) ?prev (Some ?j)) = ?j"
        using j(1,3) unfolding run_ends_def by (metis list.size(3) nat.distinct(1), metis le_trans less_imp_le, metis)
    qed
    ultimately show ?thesis
      using j n False by (simp add: run_ends_def increasing_run_snoc last_rev)
  qed
  have "run_ends values ?prev (put_at low n ?pos ! k) k" if "k < length (put_at low ?v ?tails)" for k
    using that new pos [of k] Q [OF that] run_ends_update low(1) by (auto simp: less_Suc_eq_le max_def split: if_splits)
  moreover have "put_at low n ?pos ! k < Suc n" "put_at low ?v ?tails ! k = values ! (put_at low n ?pos ! k)"
    if "k < length (put_at low ?v ?tails)" for k
    using that pos [of k] T [OF that] Q [OF that] low(1) by (auto simp: less_Suc_eq_le max_def split: if_splits)
  moreover have "sorted_wrt (<) (put_at low ?v ?tails)"
    unfolding sorted_wrt_iff_nth_less
  proof (intro allI impI)
    fix i j assume ij: "i < j" "j < length (put_at low ?v ?tails)"
    then have "i < length ?tails" using low(1) by (auto simp: max_def split: if_splits)
    then show "put_at low ?v ?tails ! i < put_at low ?v ?tails ! j"
      using T [of i] T [of j] ij low sorted_wrt_nth_less [OF sorted, of i j] sorted_wrt_nth_less [OF sorted, of low j]
      by (fastforce simp: max_def split: if_splits)
  qed
  moreover have "length ps \<le> length (put_at low ?v ?tails) \<and> put_at low ?v ?tails ! (length ps - 1) \<le> values ! last ps"
    if ps: "ps \<noteq> []" "increasing_run values ps" "last ps < Suc n" for ps
  proof (cases "last ps < n")
    case True
    note b = best [OF ps(1,2) True]
    have lp: "length ps - 1 < length ?tails" using b ps(1) by (cases ps) auto
    then have "length ps - 1 < length (put_at low ?v ?tails)" using low(1) by simp
    from T [OF this] have "put_at low ?v ?tails ! (length ps - 1) \<le> values ! last ps"
      using b low(3) [of low] lp by (cases "length ps - 1 = low") auto
    then show ?thesis using b low(1) by (auto simp: le_max_iff_disj)
  next
    case False
    then obtain qs where qs: "ps = qs @ [n]" using ps by (metis append_butlast_last_id less_Suc_eq)
    have "length qs \<le> low"
    proof (cases "qs = []")
      case False
      then have q: "increasing_run values qs" "last qs < n" "values ! last qs < ?v"
        using ps(2) by (auto simp: qs increasing_run_snoc)
      note b = best [OF False q(1,2)]
      have "length qs - 1 < length ?tails" using b False by (cases qs) auto
      then show ?thesis using low(3) [of "length qs - 1"] b q(3) by fastforce
    qed simp
    moreover from this have "length qs < length (put_at low ?v ?tails)" using low(1) by simp
    from T [OF this] have "put_at low ?v ?tails ! length qs \<le> ?v"
      using calculation low(2) [of "length qs"] by (cases "length qs = low") auto
    ultimately show ?thesis using low(1) by (simp add: qs)
  qed
  ultimately show ?thesis
    using low(1) len by (simp add: st' run_inv_def)
qed

lemma longest_run:
  "increasing_run values (longestIncreasingRun values)"
  "increasing_run values ps \<Longrightarrow> length ps \<le> length (longestIncreasingRun values)"
proof -
  let ?st = "\<lambda>n. fold (run_step values) [0..<n] \<lparr>rs_tails = [], rs_tailsPositions = [], rs_previous = replicate (length values) None\<rparr>"
  have inv: "run_inv values n (?st n)" if "n \<le> length values" for n
    using that by (induction n) (simp_all add: run_step_inv, simp add: run_inv_def)
  have "increasing_run values (longestIncreasingRun values) \<and>
      (increasing_run values ps \<longrightarrow> length ps \<le> length (longestIncreasingRun values))"
  proof (cases "values = []")
    case True
    then show ?thesis by (cases ps) (auto simp: longestIncreasingRun_def increasing_run_def)
  next
    case False
    define e where "e = ?st (length values)"
    define l where "l = length (rs_tails e) - 1"
    have I: "run_inv values (length values) e" using inv [of "length values"] by (simp add: e_def)
    have best: "length qs \<le> length (rs_tails e)" if "increasing_run values qs" for qs
    proof (cases "qs = []")
      case False
      then have "last qs < length values" using that by (auto simp: increasing_run_def)
      then show ?thesis using I that False unfolding run_inv_def by blast
    qed simp
    have "increasing_run values [0]" using False by (simp add: increasing_run_def)
    from best [OF this] have l: "length (rs_tails e) = Suc l" by (simp add: l_def)
    then have re: "run_ends values (rs_previous e) (rs_tailsPositions e ! l) l" using I by (simp add: run_inv_def)
    have "longestIncreasingRun values = rev (run_back (length values) (rs_previous e) (Some (rs_tailsPositions e ! l)))"
      using False by (simp add: longestIncreasingRun_def e_def [symmetric] l_def Let_def)
    then have "increasing_run values (longestIncreasingRun values)" "length (longestIncreasingRun values) = Suc l"
      using re by (simp_all add: run_ends_def)
    then show ?thesis using best [of ps] l by simp
  qed
  then show "increasing_run values (longestIncreasingRun values)"
    "increasing_run values ps \<Longrightarrow> length ps \<le> length (longestIncreasingRun values)" by simp_all
qed

end
