(* ===== verification/DiffAlign.thy ===== *)
theory DiffAlign
  imports DiffSimilarity DiffRun "HOL-Library.Product_Lexorder"
begin

text \<open>
  Alignment of two node sequences
  (\<open>plugins/dsh-documents/src/documents/comparison/alignment/block-align.ts\<close>): anchors whose text
  is unique on both sides, reduced to a longest increasing run, then the pairing inside the
  gaps between them, best match first. The loop over ranges ends because every split takes the
  anchors out of the range.
\<close>

record alignable =
  al_type :: string
  al_comparisonKey :: string

record alignment_pair =
  pr_left :: nat
  pr_right :: nat
  pr_similarity :: rat

record sequence_alignment =
  sa_pairs :: "alignment_pair list"
  sa_leftOnly :: "nat list"
  sa_rightOnly :: "nat list"

record gap_range =
  gr_leftStart :: nat
  gr_leftEnd :: nat
  gr_rightStart :: nat
  gr_rightEnd :: nat

definition REPLACE_THRESHOLD :: rat where
  "REPLACE_THRESHOLD = 55 / 100"

definition CROSS_TYPE_THRESHOLD :: rat where
  "CROSS_TYPE_THRESHOLD = 8 / 10"

definition MAX_PAIR_WORK :: nat where
  "MAX_PAIR_WORK = 250000"

definition INTERCHANGEABLE :: "string list" where
  "INTERCHANGEABLE = [''paragraph'', ''list-item'', ''heading'', ''table'']"

definition keyOf :: "alignable \<Rightarrow> string" where
  "keyOf item = al_type item @ CHR 0x00 # al_comparisonKey item"

subsection \<open>Anchors\<close>

text \<open>The keys of a range with their first index, and the keys met more than once.\<close>

fun index_keys :: "'k list \<Rightarrow> nat list \<Rightarrow> ('k \<times> nat) list \<Rightarrow> 'k list \<Rightarrow> ('k \<times> nat) list \<times> 'k list" where
  "index_keys keys [] seen duplicated = (seen, duplicated)"
| "index_keys keys (i # is) seen duplicated =
     (if keys ! i \<in> fst ` set seen then index_keys keys is seen (List.insert (keys ! i) duplicated)
      else index_keys keys is (amap_set (keys ! i) i seen) duplicated)"

definition uniqueIndex :: "'k list \<Rightarrow> nat \<Rightarrow> nat \<Rightarrow> ('k \<times> nat) list" where
  "uniqueIndex keys first past =
     (let (seen, duplicated) = index_keys keys [first..<past] [] [] in fold amap_delete duplicated seen)"

definition anchor_candidates :: "'k list \<Rightarrow> 'k list \<Rightarrow> gap_range \<Rightarrow> (nat \<times> nat) list" where
  "anchor_candidates leftKeys rightKeys rng =
     (let leftIndex = uniqueIndex leftKeys (gr_leftStart rng) (gr_leftEnd rng);
          rightIndex = uniqueIndex rightKeys (gr_rightStart rng) (gr_rightEnd rng)
      in sort_key fst (List.map_filter (\<lambda>(k, i). map_option (Pair i) (map_of rightIndex k)) leftIndex))"

definition patienceAnchors :: "'k list \<Rightarrow> 'k list \<Rightarrow> gap_range \<Rightarrow> (nat \<times> nat) list" where
  "patienceAnchors leftKeys rightKeys rng =
     (let candidates = anchor_candidates leftKeys rightKeys rng
      in if candidates = [] then []
         else map ((!) candidates) (longestIncreasingRun (map snd candidates)))"

subsection \<open>Anchors are unique, in range and increasing on both sides\<close>

lemma index_keys_spec:
  "index_keys keys is seen dup = (seen', dup') \<Longrightarrow> distinct is \<Longrightarrow> distinct (map fst seen) \<Longrightarrow>
   (\<forall>k i. map_of seen k = Some i \<longrightarrow> i \<notin> set is \<and> keys ! i = k) \<Longrightarrow>
   distinct (map fst seen') \<and>
   (\<forall>k. map_of seen' k = (case map_of seen k of Some i \<Rightarrow> Some i | None \<Rightarrow> find (\<lambda>i. keys ! i = k) is)) \<and>
   (\<forall>k. k \<in> set dup' \<longleftrightarrow> k \<in> set dup \<or>
      length (filter (\<lambda>i. keys ! i = k) is) + (if map_of seen k = None then 0 else 1) > 1)"
proof (induction "is" arbitrary: seen dup)
  case (Cons i "is")
  have known: "k \<in> fst ` set seen \<longleftrightarrow> map_of seen k \<noteq> None" for k
    by (simp add: map_of_eq_None_iff)
  show ?case
  proof (cases "keys ! i \<in> fst ` set seen")
    case True
    then obtain j where j: "map_of seen (keys ! i) = Some j" using known by auto
    have "index_keys keys is seen (List.insert (keys ! i) dup) = (seen', dup')" using Cons.prems(1) True by simp
    from Cons.IH [OF this] Cons.prems j show ?thesis by (auto split: option.splits)
  next
    case False
    then have n: "map_of seen (keys ! i) = None" using known by auto
    have r: "index_keys keys is (amap_set (keys ! i) i seen) dup = (seen', dup')" using Cons.prems(1) False by simp
    have d: "distinct is" "i \<notin> set is" using Cons.prems(2) by simp_all
    have m: "\<forall>k j. map_of (amap_set (keys ! i) i seen) k = Some j \<longrightarrow> j \<notin> set is \<and> keys ! j = k"
      using Cons.prems(4) d by simp
    note S = Cons.IH [OF r d(1) distinct_amap_set [OF Cons.prems(3)] m]
    show ?thesis
    proof (intro conjI allI)
      show "distinct (map fst seen')" using S by simp
    next
      fix k
      show "map_of seen' k = (case map_of seen k of Some i \<Rightarrow> Some i | None \<Rightarrow> find (\<lambda>i. keys ! i = k) (i # is))"
        using S n by (cases "k = keys ! i") (auto split: option.splits)
    next
      fix k
      show "k \<in> set dup' \<longleftrightarrow> k \<in> set dup \<or>
          length (filter (\<lambda>i. keys ! i = k) (i # is)) + (if map_of seen k = None then 0 else 1) > 1"
        using S n by (cases "k = keys ! i") auto
    qed
  qed
qed (auto split: option.splits)

lemma fold_delete:
  "map_of (fold amap_delete ks m) k = (if k \<in> set ks then None else map_of m k)"
  "distinct (map fst m) \<Longrightarrow> distinct (map fst (fold amap_delete ks m))"
  by (induction ks arbitrary: m) auto

text \<open>A key is answered with the only index that has it.\<close>

lemma uniqueIndex_spec:
  "distinct (map fst (uniqueIndex keys a b))"
  "map_of (uniqueIndex keys a b) k = Some i \<longleftrightarrow> filter (\<lambda>i. keys ! i = k) [a..<b] = [i]"
proof -
  obtain seen dup where r: "index_keys keys [a..<b] [] [] = (seen, dup)" by force
  note S = index_keys_spec [OF r]
  have u: "uniqueIndex keys a b = fold amap_delete dup seen" by (simp add: uniqueIndex_def r)
  have f: "find P xs = (case filter P xs of [] \<Rightarrow> None | x # _ \<Rightarrow> Some x)" for P and xs :: "nat list"
    by (induction xs) auto
  show "distinct (map fst (uniqueIndex keys a b))" using S by (simp add: u fold_delete(2))
  have "map_of seen k = find (\<lambda>i. keys ! i = k) [a..<b]" using S by simp
  moreover have "k \<in> set dup \<longleftrightarrow> length (filter (\<lambda>i. keys ! i = k) [a..<b]) > 1" using S by simp
  ultimately show "map_of (uniqueIndex keys a b) k = Some i \<longleftrightarrow> filter (\<lambda>i. keys ! i = k) [a..<b] = [i]"
    unfolding u fold_delete(1) f by (auto split: list.splits)
qed

definition anchors_ok :: "gap_range \<Rightarrow> (nat \<times> nat) list \<Rightarrow> bool" where
  "anchors_ok rng as \<longleftrightarrow>
     sorted_wrt (\<lambda>a b. fst a < fst b \<and> snd a < snd b) as \<and>
     (\<forall>(l, r) \<in> set as. gr_leftStart rng \<le> l \<and> l < gr_leftEnd rng \<and> gr_rightStart rng \<le> r \<and> r < gr_rightEnd rng)"

lemma candidates_spec:
  "sorted_wrt (\<lambda>a b. fst a < fst b) (anchor_candidates lk rk rng)"
  "(l, r) \<in> set (anchor_candidates lk rk rng) \<longleftrightarrow>
     (\<exists>k. filter (\<lambda>i. lk ! i = k) [gr_leftStart rng..<gr_leftEnd rng] = [l] \<and>
          filter (\<lambda>i. rk ! i = k) [gr_rightStart rng..<gr_rightEnd rng] = [r])"
proof -
  let ?L = "uniqueIndex lk (gr_leftStart rng) (gr_leftEnd rng)"
  let ?R = "uniqueIndex rk (gr_rightStart rng) (gr_rightEnd rng)"
  let ?f = "\<lambda>(k, i). map_option (Pair i) (map_of ?R k)"
  have inL: "(k, i) \<in> set ?L \<longleftrightarrow> filter (\<lambda>i. lk ! i = k) [gr_leftStart rng..<gr_leftEnd rng] = [i]" for k i
    using uniqueIndex_spec [of lk "gr_leftStart rng" "gr_leftEnd rng"] by (metis map_of_eq_Some_iff)
  have only: "P i" if "filter P xs = [i]" for P xs and i :: nat
  proof -
    have "i \<in> set (filter P xs)" unfolding that by simp
    then show ?thesis by simp
  qed
  have "distinct (map fst (List.map_filter ?f M))" if "distinct (map fst M)" "\<forall>(k, i) \<in> set M. lk ! i = k" for M
    using that
  proof (induction M)
    case (Cons p M)
    have "fst ` set (List.map_filter ?f M) \<subseteq> snd ` set M"
      by (force simp: List.map_filter_def image_iff split: option.splits)
    moreover have "snd p \<notin> snd ` set M" using Cons.prems by force
    ultimately show ?case using Cons by (cases p) (auto simp: List.map_filter_simps split: option.splits)
  qed (simp add: List.map_filter_simps)
  moreover have "\<forall>(k, i) \<in> set ?L. lk ! i = k"
  proof
    fix p assume "p \<in> set ?L"
    then have "filter (\<lambda>i. lk ! i = fst p) [gr_leftStart rng..<gr_leftEnd rng] = [snd p]" using inL [of "fst p" "snd p"] by simp
    from only [OF this] show "case p of (k, i) \<Rightarrow> lk ! i = k" by (cases p) simp
  qed
  ultimately have "distinct (map fst (List.map_filter ?f ?L))" using uniqueIndex_spec(1) by blast
  moreover have "sorted (map fst (anchor_candidates lk rk rng))" by (simp add: anchor_candidates_def Let_def)
  ultimately have "sorted_wrt (<) (map fst (anchor_candidates lk rk rng))"
    by (simp add: strict_sorted_iff anchor_candidates_def Let_def distinct_map)
  then show "sorted_wrt (\<lambda>a b. fst a < fst b) (anchor_candidates lk rk rng)" by (simp add: sorted_wrt_map)
  have "(l, r) \<in> set (anchor_candidates lk rk rng) \<longleftrightarrow> (\<exists>k. (k, l) \<in> set ?L \<and> map_of ?R k = Some r)"
    by (force simp: anchor_candidates_def Let_def List.map_filter_def image_iff split: option.splits)
  then show "(l, r) \<in> set (anchor_candidates lk rk rng) \<longleftrightarrow>
     (\<exists>k. filter (\<lambda>i. lk ! i = k) [gr_leftStart rng..<gr_leftEnd rng] = [l] \<and>
          filter (\<lambda>i. rk ! i = k) [gr_rightStart rng..<gr_rightEnd rng] = [r])"
    by (simp add: inL uniqueIndex_spec(2))
qed

lemma patience_subset: "set (patienceAnchors lk rk rng) \<subseteq> set (anchor_candidates lk rk rng)"
  using longest_run(1) [of "map snd (anchor_candidates lk rk rng)"]
  by (auto simp: patienceAnchors_def Let_def increasing_run_def)

lemma patience_ok: "anchors_ok rng (patienceAnchors lk rk rng)"
proof -
  let ?c = "anchor_candidates lk rk rng" let ?run = "longestIncreasingRun (map snd ?c)"
  have run: "sorted_wrt (<) ?run" "\<forall>p \<in> set ?run. p < length ?c" "sorted_wrt (<) (map ((!) (map snd ?c)) ?run)"
    using longest_run(1) [of "map snd ?c"] by (auto simp: increasing_run_def)
  have "sorted_wrt (\<lambda>p q. fst (?c ! p) < fst (?c ! q) \<and> snd (?c ! p) < snd (?c ! q)) ?run"
  proof -
    have "sorted_wrt (\<lambda>p q. p < q \<and> map snd ?c ! p < map snd ?c ! q) ?run"
      using run(1,3) unfolding sorted_wrt_map by (simp add: sorted_wrt_iff_nth_less)
    then show ?thesis
      by (rule sorted_wrt_mono_rel [rotated]) (use run(2) candidates_spec(1) [of lk rk rng] in \<open>auto simp: sorted_wrt_iff_nth_less\<close>)
  qed
  then have "sorted_wrt (\<lambda>a b. fst a < fst b \<and> snd a < snd b) (patienceAnchors lk rk rng)"
    by (simp add: patienceAnchors_def Let_def sorted_wrt_map)
  moreover have "a \<le> i \<and> i < b" if "filter P [a..<b] = [i]" for P a b i
  proof -
    have "i \<in> set (filter P [a..<b])" unfolding that by simp
    then show ?thesis by simp
  qed
  then have "gr_leftStart rng \<le> l \<and> l < gr_leftEnd rng \<and> gr_rightStart rng \<le> r \<and> r < gr_rightEnd rng"
    if "(l, r) \<in> set (patienceAnchors lk rk rng)" for l r
    using that patience_subset [of lk rk rng] candidates_spec(2) [of l r lk rk rng] by blast
  ultimately show ?thesis by (auto simp: anchors_ok_def)
qed

subsection \<open>Anchored ranges\<close>

text \<open>What the loop over the anchors pushes: the range before each anchor and the range after the
  last one. The stack is a list with its top in front.\<close>

fun split_range :: "gap_range \<Rightarrow> (nat \<times> nat) list \<Rightarrow> gap_range list" where
  "split_range rng [] = [rng]"
| "split_range rng ((l, r) # anchors) =
     rng\<lparr>gr_leftEnd := l, gr_rightEnd := r\<rparr>
     # split_range (rng\<lparr>gr_leftStart := l + 1, gr_rightStart := r + 1\<rparr>) anchors"

lemma split_range_size:
  "anchors_ok rng anchors \<Longrightarrow>
   (\<Sum>g \<leftarrow> split_range rng anchors. 2 * (gr_leftEnd g - gr_leftStart g) + 1) + length anchors
     \<le> 2 * (gr_leftEnd rng - gr_leftStart rng) + 1"
proof (induction rng anchors rule: split_range.induct)
  case (2 rng l r anchors)
  have "anchors_ok (rng\<lparr>gr_leftStart := l + 1, gr_rightStart := r + 1\<rparr>) anchors"
    using "2.prems" by (auto simp: anchors_ok_def)
  note IH = "2.IH" [OF this]
  have "gr_leftStart rng \<le> l" "l < gr_leftEnd rng" using "2.prems" by (auto simp: anchors_ok_def)
  then show ?case using IH by simp
qed simp

function align_work :: "'k list \<Rightarrow> 'k list \<Rightarrow> gap_range list \<Rightarrow> (nat \<times> nat) list \<times> gap_range list" where
  "align_work lk rk [] = ([], [])"
| "align_work lk rk (rng # work) =
     (if gr_leftStart rng \<ge> gr_leftEnd rng \<or> gr_rightStart rng \<ge> gr_rightEnd rng
      then (let (pairs, gaps) = align_work lk rk work in (pairs, rng # gaps))
      else
        let anchors = patienceAnchors lk rk rng
        in if anchors = [] then (let (pairs, gaps) = align_work lk rk work in (pairs, rng # gaps))
           else (let (pairs, gaps) = align_work lk rk (rev (split_range rng anchors) @ work)
                 in (anchors @ pairs, gaps)))"
  by pat_completeness auto

termination
proof (relation "measure (\<lambda>(_, _, work). \<Sum>g \<leftarrow> work. 2 * (gr_leftEnd g - gr_leftStart g) + 1)", goal_cases)
  case (4 lk rk rng work anchors)
  then show ?case using split_range_size [OF patience_ok [of rng lk rk]] by (cases "patienceAnchors lk rk rng") (auto simp flip: rev_map simp: sum_list_rev)
qed auto

declare align_work.simps(2) [simp del]

subsection \<open>Pairing inside a gap\<close>

definition align_score :: "alignable list \<Rightarrow> alignable list \<Rightarrow> string list list \<Rightarrow> string list list \<Rightarrow> nat \<Rightarrow> nat \<Rightarrow> rat" where
  "align_score left right leftTokens rightTokens l r =
     (let leftKey = al_comparisonKey (left ! l); rightKey = al_comparisonKey (right ! r)
      in if leftKey = rightKey then 1
         else max (diceFromTokens (leftTokens ! l) (rightTokens ! r)) (characterSimilarity leftKey rightKey))"

definition compatible :: "alignable list \<Rightarrow> alignable list \<Rightarrow> rat \<Rightarrow> nat \<Rightarrow> nat \<Rightarrow> rat \<Rightarrow> bool" where
  "compatible left right crossTypeThreshold l r similarity =
     (let leftType = al_type (left ! l); rightType = al_type (right ! r)
      in if leftType = rightType then True
         else if leftType \<notin> set INTERCHANGEABLE \<or> rightType \<notin> set INTERCHANGEABLE then False
         else similarity \<ge> crossTypeThreshold)"

text \<open>The candidates that are neither used yet, best first, and the nodes they use.\<close>

fun take_best :: "alignment_pair list \<Rightarrow> nat list \<Rightarrow> nat list \<Rightarrow> alignment_pair list" where
  "take_best [] leftUsed rightUsed = []"
| "take_best (c # cs) leftUsed rightUsed =
     (if pr_left c \<in> set leftUsed \<or> pr_right c \<in> set rightUsed then take_best cs leftUsed rightUsed
      else c # take_best cs (pr_left c # leftUsed) (pr_right c # rightUsed))"

text \<open>\<open>scr\<close> is the score and \<open>ok\<close> the test of a candidate: above the threshold and compatible.\<close>

definition gap_candidates :: "(nat \<Rightarrow> nat \<Rightarrow> rat) \<Rightarrow> (nat \<Rightarrow> nat \<Rightarrow> rat \<Rightarrow> bool) \<Rightarrow> (nat \<times> nat) list \<Rightarrow> alignment_pair list" where
  "gap_candidates scr ok places =
     map (\<lambda>(l, r). \<lparr>pr_left = l, pr_right = r, pr_similarity = scr l r\<rparr>) (filter (\<lambda>(l, r). ok l r (scr l r)) places)"

definition gap_pairs :: "(nat \<Rightarrow> nat \<Rightarrow> rat) \<Rightarrow> (nat \<Rightarrow> nat \<Rightarrow> rat \<Rightarrow> bool) \<Rightarrow> nat list \<Rightarrow> nat list \<Rightarrow> alignment_pair list" where
  "gap_pairs scr ok leftRange rightRange =
     (let positional = length leftRange * length rightRange > MAX_PAIR_WORK
      in if \<not> positional
         then take_best (sort_key (\<lambda>c. (- pr_similarity c, pr_left c, pr_right c))
                (gap_candidates scr ok (List.product leftRange rightRange))) [] []
         else gap_candidates scr ok (zip leftRange rightRange))"

definition pairGap :: "(nat \<Rightarrow> nat \<Rightarrow> rat) \<Rightarrow> (nat \<Rightarrow> nat \<Rightarrow> rat \<Rightarrow> bool) \<Rightarrow> gap_range \<Rightarrow> sequence_alignment" where
  "pairGap scr ok gap =
     (let leftRange = [gr_leftStart gap..<gr_leftEnd gap];
          rightRange = [gr_rightStart gap..<gr_rightEnd gap];
          pairs = gap_pairs scr ok leftRange rightRange
      in \<lparr>sa_pairs = pairs,
          sa_leftOnly = filter (\<lambda>i. i \<notin> pr_left ` set pairs) leftRange,
          sa_rightOnly = filter (\<lambda>i. i \<notin> pr_right ` set pairs) rightRange\<rparr>)"

definition align_gap :: "(nat \<Rightarrow> nat \<Rightarrow> rat) \<Rightarrow> (nat \<Rightarrow> nat \<Rightarrow> rat \<Rightarrow> bool) \<Rightarrow> gap_range \<Rightarrow> sequence_alignment" where
  "align_gap scr ok gap =
     (if gr_leftStart gap \<ge> gr_leftEnd gap
      then \<lparr>sa_pairs = [], sa_leftOnly = [], sa_rightOnly = [gr_rightStart gap..<gr_rightEnd gap]\<rparr>
      else if gr_rightStart gap \<ge> gr_rightEnd gap
      then \<lparr>sa_pairs = [], sa_leftOnly = [gr_leftStart gap..<gr_leftEnd gap], sa_rightOnly = []\<rparr>
      else pairGap scr ok gap)"

definition align_options :: "rat option \<Rightarrow> rat option \<Rightarrow> rat \<times> rat" where
  "align_options replaceThreshold crossTypeThreshold =
     (case replaceThreshold of None \<Rightarrow> REPLACE_THRESHOLD | Some t \<Rightarrow> t,
      case crossTypeThreshold of None \<Rightarrow> CROSS_TYPE_THRESHOLD | Some t \<Rightarrow> t)"

definition alignSequences :: "(string \<Rightarrow> string list) \<Rightarrow> alignable list \<Rightarrow> alignable list \<Rightarrow> rat option \<Rightarrow> rat option \<Rightarrow> sequence_alignment" where
  "alignSequences significantTokens left right replaceOption crossOption =
     (let (replaceThreshold, crossTypeThreshold) = align_options replaceOption crossOption;
          leftTokens = map (\<lambda>n. cachedTokens significantTokens (al_comparisonKey n)) left;
          rightTokens = map (\<lambda>n. cachedTokens significantTokens (al_comparisonKey n)) right;
          scr = align_score left right leftTokens rightTokens;
          ok = (\<lambda>l r s. \<not> s < replaceThreshold \<and> compatible left right crossTypeThreshold l r s);
          (anchors, gaps) = align_work (map keyOf left) (map keyOf right)
            [\<lparr>gr_leftStart = 0, gr_leftEnd = length left, gr_rightStart = 0, gr_rightEnd = length right\<rparr>];
          results = map (align_gap scr ok) gaps
      in \<lparr>sa_pairs = sort_key pr_left
            (map (\<lambda>(l, r). \<lparr>pr_left = l, pr_right = r, pr_similarity = 1\<rparr>) anchors @ concat (map sa_pairs results)),
          sa_leftOnly = sort (concat (map sa_leftOnly results)),
          sa_rightOnly = sort (concat (map sa_rightOnly results))\<rparr>)"

end
