(* ===== verification/DiffPairs.thy ===== *)
theory DiffPairs
  imports DiffAlign
begin

text \<open>
  What an alignment promises: every node is paired or left over exactly once, what is paired is
  the same text or alike enough, two nodes left over that no pair crosses are not alike, and a
  sequence aligned with itself pairs every node with itself.
\<close>

subsection \<open>Every node once\<close>

definition valid_range :: "gap_range \<Rightarrow> bool" where
  "valid_range g \<longleftrightarrow> gr_leftStart g \<le> gr_leftEnd g \<and> gr_rightStart g \<le> gr_rightEnd g"

abbreviation left_nodes :: "gap_range \<Rightarrow> nat list" where
  "left_nodes g \<equiv> [gr_leftStart g..<gr_leftEnd g]"

abbreviation right_nodes :: "gap_range \<Rightarrow> nat list" where
  "right_nodes g \<equiv> [gr_rightStart g..<gr_rightEnd g]"

lemma anchors_ok_Cons:
  "anchors_ok rng ((l, r) # anchors) \<longleftrightarrow>
     gr_leftStart rng \<le> l \<and> l < gr_leftEnd rng \<and> gr_rightStart rng \<le> r \<and> r < gr_rightEnd rng \<and>
     anchors_ok (rng\<lparr>gr_leftStart := l + 1, gr_rightStart := r + 1\<rparr>) anchors"
  by (fastforce simp: anchors_ok_def)

lemma upt_split_mset:
  assumes "a \<le> l" "l < b"
  shows "mset [a..<b] = mset [a..<l] + {#l#} + mset [l + 1..<b]"
proof -
  have "[a..<b] = [a..<l] @ [l..<b]" using upt_add_eq_append [of a l "b - l"] assms by simp
  also have "[l..<b] = l # [l + 1..<b]" using assms(2) by (simp add: upt_conv_Cons)
  finally show ?thesis by simp
qed

lemma split_range_nodes:
  "anchors_ok rng anchors \<Longrightarrow> valid_range rng \<Longrightarrow>
   (\<forall>g \<in> set (split_range rng anchors). valid_range g) \<and>
   mset (left_nodes rng) = mset (map fst anchors) + (\<Sum>g \<leftarrow> split_range rng anchors. mset (left_nodes g)) \<and>
   mset (right_nodes rng) = mset (map snd anchors) + (\<Sum>g \<leftarrow> split_range rng anchors. mset (right_nodes g))"
proof (induction rng anchors rule: split_range.induct)
  case (2 rng l r anchors)
  note ok = "2.prems"(1) [unfolded anchors_ok_Cons]
  have "valid_range (rng\<lparr>gr_leftStart := l + 1, gr_rightStart := r + 1\<rparr>)" using ok by (simp add: valid_range_def)
  from "2.IH" [OF _ this] ok show ?case
    using upt_split_mset [of "gr_leftStart rng" l "gr_leftEnd rng"] upt_split_mset [of "gr_rightStart rng" r "gr_rightEnd rng"]
    by (auto simp: valid_range_def)
qed simp

text \<open>Two nodes of a range are in one of its parts, or one is an anchor, or an anchor separates them.\<close>

definition separated :: "(nat \<times> nat) list \<Rightarrow> nat \<Rightarrow> nat \<Rightarrow> bool" where
  "separated anchors l r \<longleftrightarrow> (\<exists>(a, b) \<in> set anchors. a = l \<or> b = r \<or> a < l \<and> r < b \<or> l < a \<and> b < r)"

definition together :: "gap_range list \<Rightarrow> nat \<Rightarrow> nat \<Rightarrow> bool" where
  "together gaps l r \<longleftrightarrow> (\<exists>g \<in> set gaps. l \<in> set (left_nodes g) \<and> r \<in> set (right_nodes g))"

lemma separated_append: "separated (xs @ ys) l r \<longleftrightarrow> separated xs l r \<or> separated ys l r"
  by (auto simp: separated_def)

lemma together_simps:
  "together (gs @ hs) l r \<longleftrightarrow> together gs l r \<or> together hs l r"
  "together (rev gs) l r \<longleftrightarrow> together gs l r"
  by (auto simp: together_def)

lemma together_Cons: "together (g # gs) l r \<longleftrightarrow> together [g] l r \<or> together gs l r"
  using together_simps(1) [of "[g]" gs] by simp

lemma split_range_separates:
  "together [rng] l r \<Longrightarrow> separated anchors l r \<or> together (split_range rng anchors) l r"
proof (induction rng anchors rule: split_range.induct)
  case (2 rng a b anchors)
  have in_rng: "l \<in> set (left_nodes rng)" "r \<in> set (right_nodes rng)" using "2.prems" by (auto simp: together_def)
  have "separated ((a, b) # anchors) l r" if "a = l \<or> b = r \<or> a < l \<and> r < b \<or> l < a \<and> b < r"
    using that by (simp add: separated_def)
  then consider "a < l" "b < r" | "l < a" "r < b" | "separated ((a, b) # anchors) l r"
    by (metis linorder_neqE_nat)
  then show ?case
  proof cases
    case 1
    then have "together [rng\<lparr>gr_leftStart := a + 1, gr_rightStart := b + 1\<rparr>] l r" using in_rng by (simp add: together_def)
    from "2.IH" [OF this] show ?thesis
    proof
      assume "separated anchors l r"
      then have "separated ((a, b) # anchors) l r" unfolding separated_def by (meson list.set_intros(2))
      then show ?thesis ..
    qed (simp add: together_def)
  next
    case 2
    then show ?thesis using in_rng by (simp add: together_def)
  qed simp
qed simp

lemma align_work_spec:
  "align_work lk rk work = (pairs, gaps) \<Longrightarrow> \<forall>g \<in> set work. valid_range g \<Longrightarrow>
   (\<forall>g \<in> set gaps. valid_range g) \<and>
   (\<Sum>g \<leftarrow> work. mset (left_nodes g)) = mset (map fst pairs) + (\<Sum>g \<leftarrow> gaps. mset (left_nodes g)) \<and>
   (\<Sum>g \<leftarrow> work. mset (right_nodes g)) = mset (map snd pairs) + (\<Sum>g \<leftarrow> gaps. mset (right_nodes g)) \<and>
   (\<forall>(l, r) \<in> set pairs. lk ! l = rk ! r) \<and>
   (\<forall>l r. together work l r \<longrightarrow> separated pairs l r \<or> together gaps l r)"
proof (induction lk rk work arbitrary: pairs gaps rule: align_work.induct)
  case (2 lk rk rng work)
  show ?case
  proof (cases "gr_leftStart rng \<ge> gr_leftEnd rng \<or> gr_rightStart rng \<ge> gr_rightEnd rng \<or> patienceAnchors lk rk rng = []")
    case True
    obtain p g where r: "align_work lk rk work = (p, g)" by force
    have res: "pairs = p" "gaps = rng # g" using "2.prems"(1) True r by (auto simp: align_work.simps(2) Let_def split: if_splits)
    have "(\<forall>g' \<in> set g. valid_range g') \<and>
       (\<Sum>g \<leftarrow> work. mset (left_nodes g)) = mset (map fst p) + (\<Sum>g \<leftarrow> g. mset (left_nodes g)) \<and>
       (\<Sum>g \<leftarrow> work. mset (right_nodes g)) = mset (map snd p) + (\<Sum>g \<leftarrow> g. mset (right_nodes g)) \<and>
       (\<forall>(l, r) \<in> set p. lk ! l = rk ! r) \<and>
       (\<forall>l r. together work l r \<longrightarrow> separated p l r \<or> together g l r)"
    proof (cases "gr_leftStart rng \<ge> gr_leftEnd rng \<or> gr_rightStart rng \<ge> gr_rightEnd rng")
      case True
      show ?thesis by (rule "2.IH"(1) [OF True r]) (use "2.prems"(2) in simp)
    next
      case no: False
      show ?thesis by (rule "2.IH"(2) [OF no refl _ r]) (use "2.prems"(2) True no in simp_all)
    qed
    then show ?thesis using "2.prems"(2) unfolding res together_Cons [of _ work] together_Cons [of _ g] by auto
  next
    case False
    let ?as = "patienceAnchors lk rk rng" let ?w = "rev (split_range rng ?as) @ work"
    obtain p g where r: "align_work lk rk ?w = (p, g)" by force
    have res: "pairs = ?as @ p" "gaps = g" using "2.prems"(1) False r by (auto simp: align_work.simps(2) Let_def split: if_splits)
    have v: "valid_range rng" using "2.prems"(2) by simp
    note S = split_range_nodes [OF patience_ok v, of lk rk]
    have "\<forall>g' \<in> set ?w. valid_range g'" using S "2.prems"(2) by auto
    from "2.IH"(3) [OF _ refl _ r this] False
    have IH: "(\<forall>g' \<in> set g. valid_range g') \<and>
       (\<Sum>g \<leftarrow> ?w. mset (left_nodes g)) = mset (map fst p) + (\<Sum>g \<leftarrow> g. mset (left_nodes g)) \<and>
       (\<Sum>g \<leftarrow> ?w. mset (right_nodes g)) = mset (map snd p) + (\<Sum>g \<leftarrow> g. mset (right_nodes g)) \<and>
       (\<forall>(l, r) \<in> set p. lk ! l = rk ! r) \<and>
       (\<forall>l r. together ?w l r \<longrightarrow> separated p l r \<or> together g l r)" by blast
    have "lk ! l = rk ! r" if "(l, r) \<in> set ?as" for l r
    proof -
      have "(l, r) \<in> set (anchor_candidates lk rk rng)" using that patience_subset [of lk rk rng] by blast
      then obtain k where "filter (\<lambda>i. lk ! i = k) (left_nodes rng) = [l]" "filter (\<lambda>i. rk ! i = k) (right_nodes rng) = [r]"
        unfolding candidates_spec(2) by blast
      then have "l \<in> set (filter (\<lambda>i. lk ! i = k) (left_nodes rng))" "r \<in> set (filter (\<lambda>i. rk ! i = k) (right_nodes rng))" by simp_all
      then show ?thesis by simp
    qed
    moreover have "separated (?as @ p) l r \<or> together g l r" if "together (rng # work) l r" for l r
      using that split_range_separates [of rng l r ?as] IH
      unfolding together_Cons [of _ work] separated_append by (auto simp: together_simps)
    ultimately show ?thesis using IH S by (auto simp: res sum_list_rev rev_map [symmetric] ac_simps)
  qed
qed auto

text \<open>The loop started on whole documents.\<close>

abbreviation whole_range :: "nat \<Rightarrow> nat \<Rightarrow> gap_range" where
  "whole_range m n \<equiv> \<lparr>gr_leftStart = 0, gr_leftEnd = m, gr_rightStart = 0, gr_rightEnd = n\<rparr>"

lemma align_work_whole:
  assumes "align_work lk rk [whole_range m n] = (anchors, gaps)"
  shows "mset [0..<m] = mset (map fst anchors) + (\<Sum>g \<leftarrow> gaps. mset (left_nodes g))"
    and "mset [0..<n] = mset (map snd anchors) + (\<Sum>g \<leftarrow> gaps. mset (right_nodes g))"
    and "(l, r) \<in> set anchors \<Longrightarrow> lk ! l = rk ! r"
    and "l < m \<Longrightarrow> r < n \<Longrightarrow> separated anchors l r \<or> together gaps l r"
proof -
  have "\<forall>g \<in> set [whole_range m n]. valid_range g" by (simp add: valid_range_def)
  note S = align_work_spec [OF assms this]
  show "mset [0..<m] = mset (map fst anchors) + (\<Sum>g \<leftarrow> gaps. mset (left_nodes g))"
    "mset [0..<n] = mset (map snd anchors) + (\<Sum>g \<leftarrow> gaps. mset (right_nodes g))" using S by simp_all
  show "(l, r) \<in> set anchors \<Longrightarrow> lk ! l = rk ! r" using S by blast
  show "separated anchors l r \<or> together gaps l r" if "l < m" "r < n"
  proof -
    have "together [whole_range m n] l r" using that by (simp add: together_def)
    then show ?thesis using S by blast
  qed
qed

lemma size_sum_list: "size (\<Sum>x \<leftarrow> xs. f x) = (\<Sum>x \<leftarrow> xs. size (f x :: 'a multiset))"
  by (induction xs) auto

lemma take_best_spec:
  "set (take_best cs lu ru) \<subseteq> set cs"
  "distinct (map pr_left (take_best cs lu ru)) \<and> set (map pr_left (take_best cs lu ru)) \<inter> set lu = {}"
  "distinct (map pr_right (take_best cs lu ru)) \<and> set (map pr_right (take_best cs lu ru)) \<inter> set ru = {}"
  "c \<in> set cs \<Longrightarrow> pr_left c \<in> set lu \<union> pr_left ` set (take_best cs lu ru) \<or>
     pr_right c \<in> set ru \<union> pr_right ` set (take_best cs lu ru)"
proof -
  show "set (take_best cs lu ru) \<subseteq> set cs" by (induction cs lu ru rule: take_best.induct) auto
  show "distinct (map pr_left (take_best cs lu ru)) \<and> set (map pr_left (take_best cs lu ru)) \<inter> set lu = {}"
    by (induction cs lu ru rule: take_best.induct) auto
  show "distinct (map pr_right (take_best cs lu ru)) \<and> set (map pr_right (take_best cs lu ru)) \<inter> set ru = {}"
    by (induction cs lu ru rule: take_best.induct) auto
  show "c \<in> set cs \<Longrightarrow> pr_left c \<in> set lu \<union> pr_left ` set (take_best cs lu ru) \<or>
     pr_right c \<in> set ru \<union> pr_right ` set (take_best cs lu ru)"
    by (induction cs lu ru rule: take_best.induct) (auto split: if_splits)
qed

definition gap_ok :: "(nat \<Rightarrow> nat \<Rightarrow> rat) \<Rightarrow> (nat \<Rightarrow> nat \<Rightarrow> rat \<Rightarrow> bool) \<Rightarrow> gap_range \<Rightarrow> sequence_alignment \<Rightarrow> bool" where
  "gap_ok scr ok g a \<longleftrightarrow>
     mset (map pr_left (sa_pairs a) @ sa_leftOnly a) = mset (left_nodes g) \<and>
     mset (map pr_right (sa_pairs a) @ sa_rightOnly a) = mset (right_nodes g) \<and>
     (\<forall>c \<in> set (sa_pairs a). pr_similarity c = scr (pr_left c) (pr_right c) \<and> ok (pr_left c) (pr_right c) (pr_similarity c)) \<and>
     (length (left_nodes g) * length (right_nodes g) \<le> MAX_PAIR_WORK \<longrightarrow>
       (\<forall>l \<in> set (sa_leftOnly a). \<forall>r \<in> set (sa_rightOnly a). \<not> ok l r (scr l r)))"

lemma gap_okD:
  assumes "gap_ok scr ok g a" "c \<in> set (sa_pairs a)"
  shows "pr_similarity c = scr (pr_left c) (pr_right c)" "ok (pr_left c) (pr_right c) (pr_similarity c)"
  using assms unfolding gap_ok_def by blast+

lemma gap_candidates_set:
  "c \<in> set (gap_candidates scr ok places) \<longleftrightarrow>
     (pr_left c, pr_right c) \<in> set places \<and> pr_similarity c = scr (pr_left c) (pr_right c) \<and>
     ok (pr_left c) (pr_right c) (pr_similarity c)"
  by (cases c) (auto simp: gap_candidates_def image_iff)

lemma zip_distinct_sides:
  "distinct xs \<Longrightarrow> distinct (map fst (filter P (zip xs ys)))"
  "distinct ys \<Longrightarrow> distinct (map snd (filter P (zip xs ys)))"
proof -
  have "distinct (map f (filter P zs))" if "distinct (map f zs)" for f :: "'a \<times> 'b \<Rightarrow> 'c" and zs
    using that by (simp add: distinct_map_filter)
  moreover have "map fst (zip xs ys) = take (length ys) xs" "map snd (zip xs ys) = take (length xs) ys"
    by (simp_all add: map_fst_zip_take map_snd_zip_take min_def)
  ultimately show "distinct xs \<Longrightarrow> distinct (map fst (filter P (zip xs ys)))"
    "distinct ys \<Longrightarrow> distinct (map snd (filter P (zip xs ys)))"
    by (metis distinct_map_filter distinct_take)+
qed

lemma pairGap_ok: "gap_ok scr ok g (pairGap scr ok g)"
proof -
  let ?p = "sa_pairs (pairGap scr ok g)"
  let ?c = "sort_key (\<lambda>c. (- pr_similarity c, pr_left c, pr_right c)) (gap_candidates scr ok (List.product (left_nodes g) (right_nodes g)))"
  let ?z = "gap_candidates scr ok (zip (left_nodes g) (right_nodes g))"
  have p: "?p = gap_pairs scr ok (left_nodes g) (right_nodes g)" by (simp add: pairGap_def Let_def)
  consider (best) "length (left_nodes g) * length (right_nodes g) \<le> MAX_PAIR_WORK" "?p = take_best ?c [] []"
    | (positional) "length (left_nodes g) * length (right_nodes g) > MAX_PAIR_WORK" "?p = ?z"
    unfolding p gap_pairs_def Let_def by (meson not_le)
  note kinds = this
  have zip: "map pr_left ?z = map fst (filter (\<lambda>(l, r). ok l r (scr l r)) (zip (left_nodes g) (right_nodes g)))"
    "map pr_right ?z = map snd (filter (\<lambda>(l, r). ok l r (scr l r)) (zip (left_nodes g) (right_nodes g)))"
    by (simp_all add: gap_candidates_def comp_def case_prod_unfold)
  have d: "distinct (map pr_left ?p)" "distinct (map pr_right ?p)"
    by (rule kinds; simp only: take_best_spec(2,3) zip zip_distinct_sides distinct_upt)+
  have sub: "c \<in> set (gap_candidates scr ok (List.product (left_nodes g) (right_nodes g)))" if "c \<in> set ?p" for c
  proof (rule kinds)
    assume "?p = take_best ?c [] []"
    then show ?thesis using that take_best_spec(1) [of ?c "[]" "[]"] by auto
  next
    assume "?p = ?z"
    then have "c \<in> set ?z" using that by simp
    then show ?thesis unfolding gap_candidates_set by (auto dest: set_zip_leftD set_zip_rightD)
  qed
  have only: "sa_leftOnly (pairGap scr ok g) = filter (\<lambda>i. i \<notin> set (map pr_left ?p)) (left_nodes g)"
    "sa_rightOnly (pairGap scr ok g) = filter (\<lambda>i. i \<notin> set (map pr_right ?p)) (right_nodes g)"
    by (simp_all add: pairGap_def Let_def)
  have "mset (map pr_left ?p @ sa_leftOnly (pairGap scr ok g)) = mset (left_nodes g)"
    unfolding only by (rule mset_select [OF d(1)]) (use sub in \<open>auto simp: gap_candidates_set\<close>)
  moreover have "mset (map pr_right ?p @ sa_rightOnly (pairGap scr ok g)) = mset (right_nodes g)"
    unfolding only by (rule mset_select [OF d(2)]) (use sub in \<open>auto simp: gap_candidates_set\<close>)
  moreover have "\<not> ok l r (scr l r)"
    if "length (left_nodes g) * length (right_nodes g) \<le> MAX_PAIR_WORK"
      "l \<in> set (sa_leftOnly (pairGap scr ok g))" "r \<in> set (sa_rightOnly (pairGap scr ok g))" for l r
  proof
    assume "ok l r (scr l r)"
    then have "\<lparr>pr_left = l, pr_right = r, pr_similarity = scr l r\<rparr> \<in> set ?c"
      using that(2,3) by (simp add: gap_candidates_set only)
    moreover have "?p = take_best ?c [] []" by (rule kinds) (use that(1) in simp_all)
    ultimately have "l \<in> pr_left ` set ?p \<or> r \<in> pr_right ` set ?p"
      using take_best_spec(4) [of "\<lparr>pr_left = l, pr_right = r, pr_similarity = scr l r\<rparr>" ?c "[]" "[]"] by simp
    then show False using that(2,3) by (auto simp only: only set_filter set_map)
  qed
  ultimately show ?thesis using sub unfolding gap_ok_def gap_candidates_set by blast
qed

lemma align_gap_ok: "gap_ok scr ok g (align_gap scr ok g)"
  using pairGap_ok by (auto simp: align_gap_def) (auto simp: gap_ok_def)

lemma align_gap_nodes:
  "mset (map pr_left (sa_pairs (align_gap scr ok g))) + mset (sa_leftOnly (align_gap scr ok g)) = mset (left_nodes g)"
  "mset (map pr_right (sa_pairs (align_gap scr ok g))) + mset (sa_rightOnly (align_gap scr ok g)) = mset (right_nodes g)"
  using align_gap_ok [of scr ok g] by (simp_all add: gap_ok_def)

subsection \<open>What an alignment promises\<close>

definition node_score :: "(string \<Rightarrow> string list) \<Rightarrow> alignable \<Rightarrow> alignable \<Rightarrow> rat" where
  "node_score tok a b = similarityOf tok (al_comparisonKey a) (al_comparisonKey b)"

definition may_pair :: "(string \<Rightarrow> string list) \<Rightarrow> rat \<Rightarrow> rat \<Rightarrow> alignable \<Rightarrow> alignable \<Rightarrow> bool" where
  "may_pair tok replaceThreshold crossTypeThreshold a b \<longleftrightarrow>
     replaceThreshold \<le> node_score tok a b \<and>
     (al_type a = al_type b \<or>
      al_type a \<in> set INTERCHANGEABLE \<and> al_type b \<in> set INTERCHANGEABLE \<and> crossTypeThreshold \<le> node_score tok a b)"

lemma keyOf_inj:
  "CHR 0x00 \<notin> set (al_type a) \<Longrightarrow> CHR 0x00 \<notin> set (al_type b) \<Longrightarrow> keyOf a = keyOf b \<Longrightarrow>
   al_type a = al_type b \<and> al_comparisonKey a = al_comparisonKey b"
proof -
  have "CHR 0x00 \<notin> set t \<Longrightarrow> takeWhile (\<lambda>c. c \<noteq> CHR 0x00) (t @ CHR 0x00 # k) = t" for t k by (induction t) auto
  then show "CHR 0x00 \<notin> set (al_type a) \<Longrightarrow> CHR 0x00 \<notin> set (al_type b) \<Longrightarrow> keyOf a = keyOf b \<Longrightarrow>
   al_type a = al_type b \<and> al_comparisonKey a = al_comparisonKey b"
    unfolding keyOf_def by (metis append_eq_append_conv list.inject)
qed

text \<open>The parts of an alignment.\<close>

lemma align_parts:
  assumes a: "a = alignSequences tok left right ro co" and t: "align_options ro co = (rt, ct)"
  obtains anchors gaps results where
    "align_work (map keyOf left) (map keyOf right)
       [whole_range (length left) (length right)] = (anchors, gaps)"
    "results = map (align_gap (align_score left right (map (\<lambda>n. cachedTokens tok (al_comparisonKey n)) left)
         (map (\<lambda>n. cachedTokens tok (al_comparisonKey n)) right))
       (\<lambda>l r s. \<not> s < rt \<and> compatible left right ct l r s)) gaps"
    "sa_pairs a = sort_key pr_left
       (map (\<lambda>(l, r). \<lparr>pr_left = l, pr_right = r, pr_similarity = 1\<rparr>) anchors @ concat (map sa_pairs results))"
    "sa_leftOnly a = sort (concat (map sa_leftOnly results))"
    "sa_rightOnly a = sort (concat (map sa_rightOnly results))"
proof -
  obtain anchors gaps where w: "align_work (map keyOf left) (map keyOf right)
       [whole_range (length left) (length right)] = (anchors, gaps)"
    by force
  show thesis by (rule that [OF w refl]) (simp_all add: a alignSequences_def t w Let_def)
qed

lemma score_node:
  "l < length left \<Longrightarrow> r < length right \<Longrightarrow>
   align_score left right (map (\<lambda>n. cachedTokens tok (al_comparisonKey n)) left)
     (map (\<lambda>n. cachedTokens tok (al_comparisonKey n)) right) l r = node_score tok (left ! l) (right ! r)"
  by (simp add: align_score_def node_score_def similarityOf_def Let_def)

lemma mset_concat_map: "mset (concat (map f xs)) = (\<Sum>x \<leftarrow> xs. mset (f x))"
  by (induction xs) auto

lemma align_nodes:
  assumes a: "a = alignSequences tok left right ro co"
  shows "mset (map pr_left (sa_pairs a) @ sa_leftOnly a) = mset [0..<length left]"
    and "mset (map pr_right (sa_pairs a) @ sa_rightOnly a) = mset [0..<length right]"
    and "sorted (map pr_left (sa_pairs a))" "sorted (sa_leftOnly a)" "sorted (sa_rightOnly a)"
proof -
  obtain rt ct where t: "align_options ro co = (rt, ct)" by force
  obtain anchors gaps results where p:
    "align_work (map keyOf left) (map keyOf right)
       [whole_range (length left) (length right)] = (anchors, gaps)"
    "results = map (align_gap (align_score left right (map (\<lambda>n. cachedTokens tok (al_comparisonKey n)) left)
         (map (\<lambda>n. cachedTokens tok (al_comparisonKey n)) right))
       (\<lambda>l r s. \<not> s < rt \<and> compatible left right ct l r s)) gaps"
    "sa_pairs a = sort_key pr_left
       (map (\<lambda>(l, r). \<lparr>pr_left = l, pr_right = r, pr_similarity = 1\<rparr>) anchors @ concat (map sa_pairs results))"
    "sa_leftOnly a = sort (concat (map sa_leftOnly results))"
    "sa_rightOnly a = sort (concat (map sa_rightOnly results))"
    by (rule align_parts [OF a t])
  note W = align_work_whole(1,2) [OF p(1)]
  have L: "(\<Sum>x \<leftarrow> results. mset (map pr_left (sa_pairs x))) + (\<Sum>x \<leftarrow> results. mset (sa_leftOnly x)) = (\<Sum>g \<leftarrow> gaps. mset (left_nodes g))"
    and R: "(\<Sum>x \<leftarrow> results. mset (map pr_right (sa_pairs x))) + (\<Sum>x \<leftarrow> results. mset (sa_rightOnly x)) = (\<Sum>g \<leftarrow> gaps. mset (right_nodes g))"
    unfolding p(2) map_map comp_def sum_list_addf [symmetric] align_gap_nodes by (rule refl)+
  have m: "mset (map f (concat (map sa_pairs results))) = (\<Sum>x \<leftarrow> results. mset (map f (sa_pairs x)))" for f :: "alignment_pair \<Rightarrow> nat"
    by (simp add: map_concat mset_concat_map comp_def)
  have "mset (map pr_left (sa_pairs a) @ sa_leftOnly a) = mset (map fst anchors) +
      (mset (map pr_left (concat (map sa_pairs results))) + mset (concat (map sa_leftOnly results)))"
    "mset (map pr_right (sa_pairs a) @ sa_rightOnly a) = mset (map snd anchors) +
      (mset (map pr_right (concat (map sa_pairs results))) + mset (concat (map sa_rightOnly results)))"
    by (simp_all add: p(3,4,5) multiset.map_comp comp_def case_prod_unfold del: mset_concat)
  then show "mset (map pr_left (sa_pairs a) @ sa_leftOnly a) = mset [0..<length left]"
    "mset (map pr_right (sa_pairs a) @ sa_rightOnly a) = mset [0..<length right]"
    by (simp_all only: m mset_concat_map L R W)
  show "sorted (map pr_left (sa_pairs a))" "sorted (sa_leftOnly a)" "sorted (sa_rightOnly a)" by (simp_all add: p(3,4,5))
qed

text \<open>What is paired is the same text in the same type, or alike enough.\<close>

lemma align_sound:
  assumes a: "a = alignSequences tok left right ro co" and t: "align_options ro co = (rt, ct)" and c: "c \<in> set (sa_pairs a)"
  shows "pr_left c < length left" "pr_right c < length right"
    and "pr_similarity c = 1 \<and> keyOf (left ! pr_left c) = keyOf (right ! pr_right c) \<or>
      pr_similarity c = node_score tok (left ! pr_left c) (right ! pr_right c) \<and>
      may_pair tok rt ct (left ! pr_left c) (right ! pr_right c)"
proof -
  have "set (map pr_left (sa_pairs a) @ sa_leftOnly a) = set [0..<length left]"
    "set (map pr_right (sa_pairs a) @ sa_rightOnly a) = set [0..<length right]"
    using align_nodes(1,2) [OF a] by (metis set_mset_mset)+
  then show b: "pr_left c < length left" "pr_right c < length right" using c by auto
  obtain anchors gaps results where p:
    "align_work (map keyOf left) (map keyOf right)
       [whole_range (length left) (length right)] = (anchors, gaps)"
    "results = map (align_gap (align_score left right (map (\<lambda>n. cachedTokens tok (al_comparisonKey n)) left)
         (map (\<lambda>n. cachedTokens tok (al_comparisonKey n)) right))
       (\<lambda>l r s. \<not> s < rt \<and> compatible left right ct l r s)) gaps"
    "sa_pairs a = sort_key pr_left
       (map (\<lambda>(l, r). \<lparr>pr_left = l, pr_right = r, pr_similarity = 1\<rparr>) anchors @ concat (map sa_pairs results))"
    by (rule align_parts [OF a t])
  consider (anchor) "(pr_left c, pr_right c) \<in> set anchors" "pr_similarity c = 1"
    | (gap) x where "x \<in> set results" "c \<in> set (sa_pairs x)"
  proof -
    have "c \<in> set (map (\<lambda>(l, r). \<lparr>pr_left = l, pr_right = r, pr_similarity = 1\<rparr>) anchors) \<or> (\<exists>x \<in> set results. c \<in> set (sa_pairs x))"
      using c unfolding p(3) by simp
    then show thesis
    proof
      assume "c \<in> set (map (\<lambda>(l, r). \<lparr>pr_left = l, pr_right = r, pr_similarity = 1\<rparr>) anchors)"
      then show thesis by (intro anchor) auto
    qed (use gap in blast)
  qed
  then show "pr_similarity c = 1 \<and> keyOf (left ! pr_left c) = keyOf (right ! pr_right c) \<or>
      pr_similarity c = node_score tok (left ! pr_left c) (right ! pr_right c) \<and>
      may_pair tok rt ct (left ! pr_left c) (right ! pr_right c)"
  proof cases
    case anchor
    then have "map keyOf left ! pr_left c = map keyOf right ! pr_right c"
      using align_work_whole(3) [OF p(1)] by blast
    then show ?thesis using anchor b by simp
  next
    case gap
    let ?scr = "align_score left right (map (\<lambda>n. cachedTokens tok (al_comparisonKey n)) left)
         (map (\<lambda>n. cachedTokens tok (al_comparisonKey n)) right)"
    let ?ok = "\<lambda>l r s. \<not> s < rt \<and> compatible left right ct l r s"
    obtain g where "x = align_gap ?scr ?ok g" using gap(1) by (auto simp: p(2))
    then have "gap_ok ?scr ?ok g x" by (simp only: align_gap_ok)
    then have "pr_similarity c = ?scr (pr_left c) (pr_right c)" "\<not> pr_similarity c < rt"
      "compatible left right ct (pr_left c) (pr_right c) (pr_similarity c)"
      using gap_okD [OF _ gap(2)] by blast+
    then have "pr_similarity c = node_score tok (left ! pr_left c) (right ! pr_right c)" "\<not> pr_similarity c < rt"
      "compatible left right ct (pr_left c) (pr_right c) (pr_similarity c)" by (simp_all only: score_node [OF b] not_False_eq_True)
    then show ?thesis by (auto simp only: may_pair_def compatible_def Let_def not_less split: if_splits)
  qed
qed

text \<open>Two nodes left over that no pair crosses are not alike.\<close>

lemma align_complete:
  assumes a: "a = alignSequences tok left right ro co" and t: "align_options ro co = (rt, ct)"
    and small: "length left * length right \<le> MAX_PAIR_WORK"
    and l: "l \<in> set (sa_leftOnly a)" and r: "r \<in> set (sa_rightOnly a)"
    and free: "\<And>c. c \<in> set (sa_pairs a) \<Longrightarrow> pr_left c < l \<longleftrightarrow> pr_right c < r"
  shows "\<not> may_pair tok rt ct (left ! l) (right ! r)"
proof -
  let ?scr = "align_score left right (map (\<lambda>n. cachedTokens tok (al_comparisonKey n)) left)
         (map (\<lambda>n. cachedTokens tok (al_comparisonKey n)) right)"
  let ?ok = "\<lambda>l r s. \<not> s < rt \<and> compatible left right ct l r s"
  obtain anchors gaps results where p:
    "align_work (map keyOf left) (map keyOf right)
       [whole_range (length left) (length right)] = (anchors, gaps)"
    "results = map (align_gap ?scr ?ok) gaps"
    "sa_pairs a = sort_key pr_left
       (map (\<lambda>(l, r). \<lparr>pr_left = l, pr_right = r, pr_similarity = 1\<rparr>) anchors @ concat (map sa_pairs results))"
    by (rule align_parts [OF a t])
  have "distinct (map pr_left (sa_pairs a) @ sa_leftOnly a)" "distinct (map pr_right (sa_pairs a) @ sa_rightOnly a)"
    using align_nodes(1,2) [OF a] mset_eq_imp_distinct_iff by (metis distinct_upt)+
  then have notin: "\<And>c. c \<in> set (sa_pairs a) \<Longrightarrow> pr_left c \<noteq> l \<and> pr_right c \<noteq> r" using l r by auto
  have "set (map pr_left (sa_pairs a) @ sa_leftOnly a) = set [0..<length left]"
    "set (map pr_right (sa_pairs a) @ sa_rightOnly a) = set [0..<length right]"
    using align_nodes(1,2) [OF a] by (metis set_mset_mset)+
  then have b: "l < length left" "r < length right" using l r by auto
  have "\<not> separated anchors l r"
  proof
    assume "separated anchors l r"
    then obtain x y where xy: "(x, y) \<in> set anchors" "x = l \<or> y = r \<or> x < l \<and> r < y \<or> l < x \<and> y < r"
      by (auto simp: separated_def)
    then have "\<lparr>pr_left = x, pr_right = y, pr_similarity = 1\<rparr> \<in> set (sa_pairs a)" by (force simp: p(3))
    from notin [OF this] free [OF this] xy(2) show False by auto
  qed
  then have "together gaps l r" using align_work_whole(4) [OF p(1) b] by blast
  then obtain g where g: "g \<in> set gaps" "l \<in> set (left_nodes g)" "r \<in> set (right_nodes g)" by (auto simp: together_def)
  let ?x = "align_gap ?scr ?ok g"
  have "set (sa_pairs ?x) \<subseteq> set (sa_pairs a)" using g(1) by (auto simp: p(2,3))
  then have "l \<notin> set (map pr_left (sa_pairs ?x))" "r \<notin> set (map pr_right (sa_pairs ?x))" using notin by auto
  moreover have "set (map pr_left (sa_pairs ?x)) \<union> set (sa_leftOnly ?x) = set (left_nodes g)"
    "set (map pr_right (sa_pairs ?x)) \<union> set (sa_rightOnly ?x) = set (right_nodes g)"
    using align_gap_nodes [of ?scr ?ok g, THEN arg_cong [where f = set_mset]] by simp_all
  ultimately have only: "l \<in> set (sa_leftOnly ?x)" "r \<in> set (sa_rightOnly ?x)" using g(2,3) by blast+
  have part: "length (f g) \<le> (\<Sum>g \<leftarrow> gaps. length (f g))" for f :: "gap_range \<Rightarrow> nat list"
    using g(1) by (simp add: member_le_sum_list)
  have "size (mset [0..<length left]) = length anchors + (\<Sum>g \<leftarrow> gaps. length (left_nodes g))"
    "size (mset [0..<length right]) = length anchors + (\<Sum>g \<leftarrow> gaps. length (right_nodes g))"
    unfolding align_work_whole(1,2) [OF p(1)] size_union by (simp_all add: size_sum_list comp_def)
  then have "length (left_nodes g) \<le> length left" "length (right_nodes g) \<le> length right"
    using part [of left_nodes] part [of right_nodes] by simp_all
  then have "length (left_nodes g) * length (right_nodes g) \<le> MAX_PAIR_WORK"
    using small mult_le_mono le_trans by blast
  then have "\<not> ?ok l r (?scr l r)" using align_gap_ok [of ?scr ?ok g] only by (simp add: gap_ok_def)
  then show ?thesis
    unfolding score_node [OF b] by (auto simp only: may_pair_def compatible_def Let_def not_less split: if_splits)
qed

subsection \<open>A sequence aligned with itself\<close>

definition diagonal_range :: "gap_range \<Rightarrow> bool" where
  "diagonal_range g \<longleftrightarrow> gr_leftStart g = gr_rightStart g \<and> gr_leftEnd g = gr_rightEnd g"

lemma split_range_diagonal:
  "diagonal_range rng \<Longrightarrow> \<forall>(l, r) \<in> set anchors. l = r \<Longrightarrow> \<forall>g \<in> set (split_range rng anchors). diagonal_range g"
  by (induction rng anchors rule: split_range.induct) (auto simp: diagonal_range_def)

lemma anchors_diagonal:
  assumes "diagonal_range rng"
  shows "\<forall>(l, r) \<in> set (patienceAnchors k k rng). l = r"
proof safe
  fix l r assume "(l, r) \<in> set (patienceAnchors k k rng)"
  then have "(l, r) \<in> set (anchor_candidates k k rng)" using patience_subset [of k k rng] by blast
  then show "l = r" using assms unfolding candidates_spec(2) by (auto simp: diagonal_range_def)
qed

lemma align_work_diagonal:
  "align_work k k' work = (anchors, gaps) \<Longrightarrow> k = k' \<Longrightarrow> \<forall>g \<in> set work. diagonal_range g \<Longrightarrow>
   (\<forall>(l, r) \<in> set anchors. l = r) \<and> (\<forall>g \<in> set gaps. diagonal_range g)"
proof (induction k k' work arbitrary: anchors gaps rule: align_work.induct)
  case (2 lk rk rng work)
  let ?as = "patienceAnchors lk rk rng"
  obtain p g where r: "align_work lk rk work = (p, g)" by force
  obtain p' g' where r': "align_work lk rk (rev (split_range rng ?as) @ work) = (p', g')" by force
  have d: "\<forall>(l, r) \<in> set ?as. l = r" unfolding "2.prems"(2) by (rule anchors_diagonal) (use "2.prems"(3) in simp)
  have w: "\<forall>g \<in> set (rev (split_range rng ?as) @ work). diagonal_range g"
    using split_range_diagonal [OF _ d] "2.prems"(3) by auto
  show ?case
  proof (cases "gr_leftStart rng \<ge> gr_leftEnd rng \<or> gr_rightStart rng \<ge> gr_rightEnd rng")
    case True
    then show ?thesis using "2.IH"(1) [OF True r] "2.prems" r by (auto simp: align_work.simps(2))
  next
    case False
    show ?thesis
    proof (cases "?as = []")
      case True
      then show ?thesis using "2.IH"(2) [OF False refl True r] "2.prems" r False by (auto simp: align_work.simps(2) Let_def)
    next
      case ne: False
      have "anchors = ?as @ p'" "gaps = g'" using "2.prems"(1) r' False ne by (auto simp: align_work.simps(2) Let_def)
      then show ?thesis using "2.IH"(3) [OF False refl ne r' "2.prems"(2) w] d by auto
    qed
  qed
qed simp

lemma take_best_diagonal:
  assumes "sorted (map (\<lambda>c. (- pr_similarity c, pr_left c, pr_right c)) cs)" "set lu = set ru"
    and "\<forall>c \<in> set cs. pr_similarity c \<le> 1 \<and>
      (\<forall>i \<in> {pr_left c, pr_right c}. i \<notin> set lu \<longrightarrow> \<lparr>pr_left = i, pr_right = i, pr_similarity = 1\<rparr> \<in> set cs)"
  shows "\<forall>c \<in> set (take_best cs lu ru). pr_left c = pr_right c"
  using assms
proof (induction cs lu ru rule: take_best.induct)
  case (2 c cs lu ru)
  let ?one = "\<lambda>i. \<lparr>pr_left = i, pr_right = i, pr_similarity = 1 :: rat\<rparr>"
  have least: "(- pr_similarity c, pr_left c, pr_right c) \<le> (- pr_similarity d, pr_left d, pr_right d)" if "d \<in> set (c # cs)" for d
    using that "2.prems"(1) by auto
  show ?case
  proof (cases "pr_left c \<in> set lu \<or> pr_right c \<in> set ru")
    case True
    have "?one i \<in> set cs" if "d \<in> set cs" "i \<in> {pr_left d, pr_right d}" "i \<notin> set lu" for d i
      using that True "2.prems"(2,3) by auto
    then show ?thesis using "2.IH"(1) [OF True] "2.prems" True by simp
  next
    case False
    then have "?one (pr_left c) \<in> set (c # cs)" "?one (pr_right c) \<in> set (c # cs)" "pr_similarity c \<le> 1"
      using "2.prems"(2,3) by auto
    then have eq: "pr_left c = pr_right c" using least [of "?one (pr_left c)"] least [of "?one (pr_right c)"] by auto
    have "?one i \<in> set cs" if "d \<in> set cs" "i \<in> {pr_left d, pr_right d}" "i \<notin> set (pr_left c # lu)" for d i
      using that "2.prems"(3) by (cases c) auto
    then have "\<forall>d \<in> set (take_best cs (pr_left c # lu) (pr_right c # ru)). pr_left d = pr_right d"
      using "2.IH"(2) [OF False] "2.prems" eq by simp
    then show ?thesis using False eq by simp
  qed
qed simp

lemma align_gap_self:
  assumes g: "diagonal_range g"
    and self: "\<And>i. i \<in> set (left_nodes g) \<Longrightarrow> scr i i = 1 \<and> ok i i 1"
    and le: "\<And>i j. i \<in> set (left_nodes g) \<Longrightarrow> j \<in> set (left_nodes g) \<Longrightarrow> scr i j \<le> 1"
  shows "\<forall>c \<in> set (sa_pairs (align_gap scr ok g)). pr_left c = pr_right c \<and> pr_similarity c = 1"
    and "sa_leftOnly (align_gap scr ok g) = []" "sa_rightOnly (align_gap scr ok g) = []"
proof -
  let ?n = "left_nodes g" let ?a = "align_gap scr ok g"
  have rn: "right_nodes g = ?n" using g by (simp add: diagonal_range_def)
  show "\<forall>c \<in> set (sa_pairs ?a). pr_left c = pr_right c \<and> pr_similarity c = 1"
    and "sa_leftOnly ?a = []" "sa_rightOnly ?a = []"
  proof -
    let ?c = "sort_key (\<lambda>c. (- pr_similarity c, pr_left c, pr_right c)) (gap_candidates scr ok (List.product ?n ?n))"
    have p: "sa_pairs (pairGap scr ok g) = gap_pairs scr ok ?n ?n" by (simp add: pairGap_def Let_def rn)
    have zs: "(i, i) \<in> set (zip ?n ?n)" if "i \<in> set ?n" for i
      using that by (simp add: zip_same_conv_map)
    have diag: "pr_left c = pr_right c" if "c \<in> set (gap_pairs scr ok ?n ?n)" for c
    proof (cases "length ?n * length ?n > MAX_PAIR_WORK")
      case True
      then show ?thesis using that by (auto simp: gap_pairs_def Let_def gap_candidates_set zip_same_conv_map)
    next
      case False
      have "\<forall>c \<in> set (take_best ?c [] []). pr_left c = pr_right c"
      proof (rule take_best_diagonal)
        show "\<forall>c \<in> set ?c. pr_similarity c \<le> 1 \<and>
            (\<forall>i \<in> {pr_left c, pr_right c}. i \<notin> set [] \<longrightarrow> \<lparr>pr_left = i, pr_right = i, pr_similarity = 1\<rparr> \<in> set ?c)"
          using self le by (auto simp: gap_candidates_set)
      qed simp_all
      then show ?thesis using that False by (simp add: gap_pairs_def Let_def)
    qed
    note P = gap_okD [OF pairGap_ok [of scr ok g], unfolded p] 
    have N: "set (map pr_left (sa_pairs (pairGap scr ok g))) \<union> set (sa_leftOnly (pairGap scr ok g)) = set ?n"
      using pairGap_ok [of scr ok g] unfolding gap_ok_def by (metis set_append set_mset_mset)
    have "pr_left c \<in> set ?n" if "c \<in> set (gap_pairs scr ok ?n ?n)" for c using N that by (auto simp: p)
    then have one: "pr_left c = pr_right c \<and> pr_similarity c = 1" if "c \<in> set (gap_pairs scr ok ?n ?n)" for c
      using diag [OF that] P [OF that] self that by metis
    have all: "i \<in> pr_left ` set (gap_pairs scr ok ?n ?n)" if i: "i \<in> set ?n" for i
    proof (cases "length ?n * length ?n > MAX_PAIR_WORK")
      case True
      have "\<lparr>pr_left = i, pr_right = i, pr_similarity = 1\<rparr> \<in> set (gap_pairs scr ok ?n ?n)"
        using True zs [OF i] self [OF i] by (simp add: gap_pairs_def gap_candidates_set)
      then show ?thesis by force
    next
      case False
      have "\<lparr>pr_left = i, pr_right = i, pr_similarity = 1\<rparr> \<in> set ?c" using i self [OF i] by (simp add: gap_candidates_set)
      then have "i \<in> pr_left ` set (take_best ?c [] []) \<or> i \<in> pr_right ` set (take_best ?c [] [])"
        using take_best_spec(4) [of "\<lparr>pr_left = i, pr_right = i, pr_similarity = 1\<rparr>" ?c "[]" "[]"] by simp
      moreover have "gap_pairs scr ok ?n ?n = take_best ?c [] []" using False by (simp add: gap_pairs_def)
      ultimately show ?thesis using diag by auto
    qed
    have "pr_right ` set (gap_pairs scr ok ?n ?n) = pr_left ` set (gap_pairs scr ok ?n ?n)"
      using diag by (intro image_cong refl) simp
    then have "sa_leftOnly (pairGap scr ok g) = []" "sa_rightOnly (pairGap scr ok g) = []"
      using all by (simp_all add: pairGap_def Let_def rn filter_empty_conv)
    then show "\<forall>c \<in> set (sa_pairs ?a). pr_left c = pr_right c \<and> pr_similarity c = 1"
      "sa_leftOnly ?a = []" "sa_rightOnly ?a = []"
      using one g by (auto simp: align_gap_def p diagonal_range_def)
  qed
qed

lemma align_self:
  assumes t: "align_options ro co = (rt, ct)" "rt \<le> 1"
  shows "alignSequences tok xs xs ro co =
    \<lparr>sa_pairs = map (\<lambda>i. \<lparr>pr_left = i, pr_right = i, pr_similarity = 1\<rparr>) [0..<length xs], sa_leftOnly = [], sa_rightOnly = []\<rparr>"
proof -
  define a where "a = alignSequences tok xs xs ro co"
  let ?scr = "align_score xs xs (map (\<lambda>n. cachedTokens tok (al_comparisonKey n)) xs)
         (map (\<lambda>n. cachedTokens tok (al_comparisonKey n)) xs)"
  let ?ok = "\<lambda>l r s. \<not> s < rt \<and> compatible xs xs ct l r s"
  obtain anchors gaps results where p:
    "align_work (map keyOf xs) (map keyOf xs) [whole_range (length xs) (length xs)] = (anchors, gaps)"
    "results = map (align_gap ?scr ?ok) gaps"
    "sa_pairs a = sort_key pr_left
       (map (\<lambda>(l, r). \<lparr>pr_left = l, pr_right = r, pr_similarity = 1\<rparr>) anchors @ concat (map sa_pairs results))"
    "sa_leftOnly a = sort (concat (map sa_leftOnly results))"
    "sa_rightOnly a = sort (concat (map sa_rightOnly results))"
    by (rule align_parts [OF a_def t(1)])
  have d: "\<forall>(l, r) \<in> set anchors. l = r" "\<forall>g \<in> set gaps. diagonal_range g"
    using align_work_diagonal [OF p(1) refl] by (simp_all add: diagonal_range_def)
  have sub: "set (left_nodes g) \<subseteq> set [0..<length xs]" if "g \<in> set gaps" for g
  proof -
    have "set_mset (mset (left_nodes g)) \<subseteq> set_mset (mset [0..<length xs])"
      unfolding align_work_whole(1) [OF p(1)] using that by (auto simp: set_mset_sum_list)
    then show ?thesis by simp
  qed
  have G: "\<forall>c \<in> set (sa_pairs (align_gap ?scr ?ok g)). pr_left c = pr_right c \<and> pr_similarity c = 1"
    "sa_leftOnly (align_gap ?scr ?ok g) = []" "sa_rightOnly (align_gap ?scr ?ok g) = []" if "g \<in> set gaps" for g
  proof -
    have s: "?scr i i = 1 \<and> ?ok i i 1" "?scr i j \<le> 1"
      if "i \<in> set (left_nodes g)" "j \<in> set (left_nodes g)" for i j
    proof -
      have "i < length xs" "j < length xs" using sub [OF \<open>g \<in> set gaps\<close>] that by auto
      then show "?scr i i = 1 \<and> ?ok i i 1" "?scr i j \<le> 1"
        using t(2) similarity_range by (simp_all only: score_node node_score_def) (simp_all add: similarityOf_def compatible_def Let_def)
    qed
    show "\<forall>c \<in> set (sa_pairs (align_gap ?scr ?ok g)). pr_left c = pr_right c \<and> pr_similarity c = 1"
      "sa_leftOnly (align_gap ?scr ?ok g) = []" "sa_rightOnly (align_gap ?scr ?ok g) = []"
      using align_gap_self [of g ?scr ?ok] d(2) that s by blast+
  qed
  have "\<forall>c \<in> set (sa_pairs a). c = \<lparr>pr_left = pr_left c, pr_right = pr_left c, pr_similarity = 1\<rparr>"
    using G(1) d(1) by (auto simp: p(2,3))
  then have c: "sa_pairs a = map (\<lambda>i. \<lparr>pr_left = i, pr_right = i, pr_similarity = 1\<rparr>) (map pr_left (sa_pairs a))"
    by (simp add: map_idI)
  have "concat (map sa_leftOnly results) = []" "concat (map sa_rightOnly results) = []"
    unfolding concat_eq_Nil_conv p(2) using G(2,3) by simp_all
  then have lo: "sa_leftOnly a = []" "sa_rightOnly a = []" unfolding p(4,5) by (simp_all only: sort_key_simps)
  have "mset (map pr_left (sa_pairs a)) = mset [0..<length xs]" "sorted (map pr_left (sa_pairs a))"
    using align_nodes(1,3) [OF a_def] lo by simp_all
  then have "map pr_left (sa_pairs a) = [0..<length xs]"
    by (metis properties_for_sort sorted_upt)
  then show ?thesis using c lo unfolding a_def [symmetric] by (cases a) simp
qed

end
