(* ===== verification/DiffTokens.thy ===== *)
theory DiffTokens
  imports Prelude "HOL-Library.Sublist"
begin

text \<open>
  The token diff of the documents plugin
  (\<open>plugins/dsh-documents/src/documents/comparison/diff/token-diff.ts\<close>): trimming of the common
  ends, the table of longest common subsequences filled from the last row up, the
  walk over it with its merged runs, the offsets of both sides, and the spans. Then the lemmas:
  the operations tile both sides, and the equal tokens are a longest common subsequence.
\<close>

subsection \<open>Operations\<close>

datatype diff_kind = OpEqual | OpDelete | OpInsert

record diff_op =
  op_kind :: diff_kind
  op_start :: nat
  op_end :: nat

definition MAX_DIFF_CELLS :: nat where
  "MAX_DIFF_CELLS = 4000000"

fun commonPrefixLength :: "'a list \<Rightarrow> 'a list \<Rightarrow> nat" where
  "commonPrefixLength (x # xs) (y # ys) = (if x = y then Suc (commonPrefixLength xs ys) else 0)"
| "commonPrefixLength _ _ = 0"

text \<open>The suffix may not reach into the prefix: at most \<open>limit\<close> tokens are compared from the end.\<close>

definition commonSuffixLength :: "'a list \<Rightarrow> 'a list \<Rightarrow> nat \<Rightarrow> nat" where
  "commonSuffixLength left right pre =
     (let limit = min (length left) (length right) - pre
      in commonPrefixLength (take limit (rev left)) (take limit (rev right)))"

text \<open>One row of the table from the row below it; the last column is 0.\<close>

fun lcs_row :: "'a \<Rightarrow> 'a list \<Rightarrow> nat list \<Rightarrow> nat list" where
  "lcs_row x [] below = [0]"
| "lcs_row x (y # ys) below =
     (let row = lcs_row x ys (tl below)
      in (if x = y then hd (tl below) + 1 else max (hd below) (hd row)) # row)"

fun lcs_table :: "'a list \<Rightarrow> 'a list \<Rightarrow> nat list list" where
  "lcs_table [] right = [replicate (length right + 1) 0]"
| "lcs_table (x # xs) right = (let table = lcs_table xs right in lcs_row x right (hd table) # table)"

text \<open>An operation on one more token extends the last operation when it has the same kind and
  ends there.\<close>

definition push_op :: "diff_op list \<Rightarrow> diff_kind \<Rightarrow> nat \<Rightarrow> diff_op list" where
  "push_op ops kind index =
     (if ops \<noteq> [] \<and> op_kind (last ops) = kind \<and> op_end (last ops) = index
      then butlast ops @ [\<lparr>op_kind = kind, op_start = op_start (last ops), op_end = index + 1\<rparr>]
      else ops @ [\<lparr>op_kind = kind, op_start = index, op_end = index + 1\<rparr>])"

function lcs_walk :: "'a list \<Rightarrow> 'a list \<Rightarrow> nat list list \<Rightarrow> nat \<Rightarrow> nat \<Rightarrow> diff_op list \<Rightarrow> diff_op list" where
  "lcs_walk left right table row column ops =
     (if row < length left \<and> column < length right then
        if left ! row = right ! column
        then lcs_walk left right table (row + 1) (column + 1) (push_op ops OpEqual row)
        else if table ! (row + 1) ! column \<ge> table ! row ! (column + 1)
        then lcs_walk left right table (row + 1) column (push_op ops OpDelete row)
        else lcs_walk left right table row (column + 1) (push_op ops OpInsert row)
      else if row < length left then lcs_walk left right table (row + 1) column (push_op ops OpDelete row)
      else if column < length right
      then lcs_walk left right table row (column + 1) (push_op ops OpInsert (length left))
      else ops)"
  by pat_completeness auto
termination
  by (relation "measure (\<lambda>(left, right, table, row, column, ops). (length left - row) + (length right - column))") auto

declare lcs_walk.simps [simp del]

fun normalizeInsertOffsets :: "nat \<Rightarrow> nat \<Rightarrow> diff_op list \<Rightarrow> diff_op list" where
  "normalizeInsertOffsets leftCursor rightCursor [] = []"
| "normalizeInsertOffsets leftCursor rightCursor (oper # ops) =
     (let len = op_end oper - op_start oper in
      case op_kind oper of
        OpEqual \<Rightarrow> \<lparr>op_kind = OpEqual, op_start = leftCursor, op_end = leftCursor + len\<rparr>
                    # normalizeInsertOffsets (leftCursor + len) (rightCursor + len) ops
      | OpDelete \<Rightarrow> \<lparr>op_kind = OpDelete, op_start = leftCursor, op_end = leftCursor + len\<rparr>
                    # normalizeInsertOffsets (leftCursor + len) rightCursor ops
      | OpInsert \<Rightarrow> \<lparr>op_kind = OpInsert, op_start = rightCursor, op_end = rightCursor + len\<rparr>
                    # normalizeInsertOffsets leftCursor (rightCursor + len) ops)"

definition walkLcs :: "'a list \<Rightarrow> 'a list \<Rightarrow> diff_op list" where
  "walkLcs left right =
     normalizeInsertOffsets 0 0 (lcs_walk left right (lcs_table left right) 0 0 [])"

definition shift_op :: "nat \<Rightarrow> diff_op \<Rightarrow> diff_op" where
  "shift_op n oper = \<lparr>op_kind = op_kind oper, op_start = op_start oper + n, op_end = op_end oper + n\<rparr>"

definition diffTokens :: "'a list \<Rightarrow> 'a list \<Rightarrow> diff_op list" where
  "diffTokens left right =
     (let pre = commonPrefixLength left right;
          suf = commonSuffixLength left right pre;
          leftMid = drop pre (take (length left - suf) left);
          rightMid = drop pre (take (length right - suf) right);
          whole = \<lparr>op_kind = OpDelete, op_start = pre, op_end = pre + length leftMid\<rparr>;
          added = \<lparr>op_kind = OpInsert, op_start = pre, op_end = pre + length rightMid\<rparr>
      in (if pre > 0 then [\<lparr>op_kind = OpEqual, op_start = 0, op_end = pre\<rparr>] else [])
         @ (if length leftMid > 0 \<and> length rightMid > 0 then
              if length leftMid * length rightMid \<le> MAX_DIFF_CELLS
              then map (shift_op pre) (walkLcs leftMid rightMid)
              else [whole, added]
            else if length leftMid > 0 then [whole]
            else if length rightMid > 0 then [added] else [])
         @ (if suf > 0
            then [\<lparr>op_kind = OpEqual, op_start = length left - suf, op_end = length left\<rparr>] else []))"

record diff_span =
  sp_kind :: diff_kind
  sp_text :: string

definition slice :: "nat \<Rightarrow> nat \<Rightarrow> 'a list \<Rightarrow> 'a list" where
  "slice a b xs = drop a (take b xs)"

definition spansFromOps :: "diff_op list \<Rightarrow> string list \<Rightarrow> string list \<Rightarrow> diff_span list" where
  "spansFromOps ops left right =
     map (\<lambda>oper. \<lparr>sp_kind = op_kind oper,
                   sp_text = concat (slice (op_start oper) (op_end oper)
                               (if op_kind oper = OpInsert then right else left))\<rparr>) ops"

definition diffText :: "string list \<Rightarrow> string list \<Rightarrow> diff_span list" where
  "diffText left right = spansFromOps (diffTokens left right) left right"

subsection \<open>The script of one kind per token\<close>

definition op_len :: "diff_op \<Rightarrow> nat" where
  "op_len oper = op_end oper - op_start oper"

definition script :: "diff_op list \<Rightarrow> diff_kind list" where
  "script ops = concat (map (\<lambda>oper. replicate (op_len oper) (op_kind oper)) ops)"

lemma script_simps [simp]:
  "script [] = []" "script (oper # ops) = replicate (op_len oper) (op_kind oper) @ script ops"
  "script (ops @ ops') = script ops @ script ops'"
  by (simp_all add: script_def)

text \<open>A script turns the left list into the right one.\<close>

fun fits :: "diff_kind list \<Rightarrow> 'a list \<Rightarrow> 'a list \<Rightarrow> bool" where
  "fits [] xs ys \<longleftrightarrow> xs = [] \<and> ys = []"
| "fits (OpEqual # ks) xs ys \<longleftrightarrow> xs \<noteq> [] \<and> ys \<noteq> [] \<and> hd xs = hd ys \<and> fits ks (tl xs) (tl ys)"
| "fits (OpDelete # ks) xs ys \<longleftrightarrow> xs \<noteq> [] \<and> fits ks (tl xs) ys"
| "fits (OpInsert # ks) xs ys \<longleftrightarrow> ys \<noteq> [] \<and> fits ks xs (tl ys)"

definition ops_wf :: "diff_op list \<Rightarrow> bool" where
  "ops_wf ops \<longleftrightarrow> list_all (\<lambda>oper. op_start oper < op_end oper) ops"

lemma push_script: "ops_wf ops \<Longrightarrow> script (push_op ops k i) = script ops @ [k] \<and> ops_wf (push_op ops k i)"
  by (cases ops rule: rev_cases)
    (auto simp: push_op_def op_len_def ops_wf_def Suc_diff_le replicate_append_same)

fun lcs :: "'a list \<Rightarrow> 'a list \<Rightarrow> nat" where
  "lcs [] ys = 0"
| "lcs xs [] = 0"
| "lcs (x # xs) (y # ys) = (if x = y then Suc (lcs xs ys) else max (lcs xs (y # ys)) (lcs (x # xs) ys))"

lemma lcs_nil2 [simp]: "lcs xs [] = 0"
  by (cases xs) simp_all

lemma lcs_row_eq:
  "below = map (\<lambda>j. lcs xs (drop j ys)) [0..<Suc (length ys)] \<Longrightarrow>
   lcs_row x ys below = map (\<lambda>j. lcs (x # xs) (drop j ys)) [0..<Suc (length ys)]"
proof (induction ys arbitrary: below)
  case (Cons y ys)
  have e: "map (\<lambda>j. f (drop j (y # ys))) [0..<Suc (length (y # ys))] =
      f (y # ys) # map (\<lambda>j. f (drop j ys)) [0..<Suc (length ys)]" for f :: "'a list \<Rightarrow> nat"
    by (simp add: upt_conv_Cons map_Suc_upt [symmetric] del: upt_Suc)
  have b: "below = lcs xs (y # ys) # map (\<lambda>j. lcs xs (drop j ys)) [0..<Suc (length ys)]"
    using Cons.prems e [of "lcs xs"] by simp
  have h: "hd (map (\<lambda>j. f (drop j ys)) [0..<Suc (length ys)]) = f ys" for f :: "'a list \<Rightarrow> nat"
    by (simp add: upt_conv_Cons del: upt_Suc)
  show ?case
    unfolding lcs_row.simps Let_def e using Cons.IH [of "tl below"] b
    by (simp add: h del: upt_Suc)
qed simp

lemma lcs_table_eq:
  "lcs_table xs ys = map (\<lambda>i. map (\<lambda>j. lcs (drop i xs) (drop j ys)) [0..<Suc (length ys)]) [0..<Suc (length xs)]"
proof (induction xs)
  case Nil
  then show ?case by (simp add: map_replicate_const del: upt_Suc)
next
  case (Cons x xs)
  have h: "hd (lcs_table xs ys) = map (\<lambda>j. lcs xs (drop j ys)) [0..<Suc (length ys)]"
    unfolding Cons.IH by (simp add: upt_conv_Cons del: upt_Suc)
  let ?g = "\<lambda>zs. map (\<lambda>j. lcs zs (drop j ys)) [0..<Suc (length ys)]"
  have "map (\<lambda>i. ?g (drop i (x # xs))) [0..<Suc (length (x # xs))] = ?g (x # xs) # map (\<lambda>i. ?g (drop i xs)) [0..<Suc (length xs)]"
    by (simp add: upt_conv_Cons map_Suc_upt [symmetric] del: upt_Suc)
  then show ?case
    unfolding lcs_table.simps Let_def lcs_row_eq [OF h, of x] using Cons.IH by (simp del: upt_Suc)
qed

lemma lcs_table_nth:
  "i \<le> length xs \<Longrightarrow> j \<le> length ys \<Longrightarrow> lcs_table xs ys ! i ! j = lcs (drop i xs) (drop j ys)"
  by (simp add: lcs_table_eq nth_append del: upt_Suc)

subsection \<open>The walk writes a fitting script\<close>

lemma lcs_walk_script:
  assumes "table = lcs_table left right"
  shows "row \<le> length left \<Longrightarrow> column \<le> length right \<Longrightarrow> ops_wf ops \<Longrightarrow>
    ops_wf (lcs_walk left right table row column ops) \<and>
    (\<exists>ks. script (lcs_walk left right table row column ops) = script ops @ ks \<and>
       fits ks (drop row left) (drop column right) \<and>
       count_list ks OpEqual = lcs (drop row left) (drop column right))"
  using assms
proof (induction left right table row column ops rule: lcs_walk.induct)
  case (1 left right table row column ops)
  note unfold = lcs_walk.simps [of left right table row column ops]
  have dr: "row < length left \<Longrightarrow> drop row left = left ! row # drop (Suc row) left"
    and dc: "column < length right \<Longrightarrow> drop column right = right ! column # drop (Suc column) right"
    by (simp_all add: Cons_nth_drop_Suc)
  have step: "ops_wf (push_op ops k i) \<and> script (push_op ops k i) = script ops @ [k]" for k i
    using push_script [OF 1(8)] by blast
  consider (eq) "row < length left" "column < length right" "left ! row = right ! column"
    | (del) "row < length left" "column < length right" "left ! row \<noteq> right ! column"
        "table ! (row + 1) ! column \<ge> table ! row ! (column + 1)"
    | (ins) "row < length left" "column < length right" "left ! row \<noteq> right ! column"
        "\<not> table ! (row + 1) ! column \<ge> table ! row ! (column + 1)"
    | (dels) "row < length left" "\<not> column < length right"
    | (inss) "\<not> row < length left" "column < length right"
    | (over) "\<not> row < length left" "\<not> column < length right" by blast
  then show ?case
  proof cases
    case eq
    from 1(1) [OF _ eq(3)] eq step 1(9) obtain ks where
      ks: "ops_wf (lcs_walk left right table (row + 1) (column + 1) (push_op ops OpEqual row))"
      "script (lcs_walk left right table (row + 1) (column + 1) (push_op ops OpEqual row)) = (script ops @ [OpEqual]) @ ks"
      "fits ks (drop (row + 1) left) (drop (column + 1) right)"
      "count_list ks OpEqual = lcs (drop (row + 1) left) (drop (column + 1) right)"
      by auto
    show ?thesis unfolding unfold using eq ks by (auto simp: dr dc intro!: exI [of _ "OpEqual # ks"])
  next
    case del
    from 1(2) [OF _ del(3,4)] del step 1(7,9) obtain ks where
      ks: "ops_wf (lcs_walk left right table (row + 1) column (push_op ops OpDelete row))"
      "script (lcs_walk left right table (row + 1) column (push_op ops OpDelete row)) = (script ops @ [OpDelete]) @ ks"
      "fits ks (drop (row + 1) left) (drop column right)"
      "count_list ks OpEqual = lcs (drop (row + 1) left) (drop column right)"
      by auto
    have "lcs (drop (row + 1) left) (drop column right) \<ge> lcs (drop row left) (drop (column + 1) right)"
      using del 1(9) lcs_table_nth [of "row + 1" left column right] lcs_table_nth [of row left "column + 1" right] by simp
    then have "lcs (drop row left) (drop column right) = lcs (drop (row + 1) left) (drop column right)"
      using del by (simp add: dr dc)
    then show ?thesis unfolding unfold using del ks by (auto simp: dr intro!: exI [of _ "OpDelete # ks"])
  next
    case ins
    from 1(3) [OF _ ins(3,4)] ins step 1(6,9) obtain ks where
      ks: "ops_wf (lcs_walk left right table row (column + 1) (push_op ops OpInsert row))"
      "script (lcs_walk left right table row (column + 1) (push_op ops OpInsert row)) = (script ops @ [OpInsert]) @ ks"
      "fits ks (drop row left) (drop (column + 1) right)"
      "count_list ks OpEqual = lcs (drop row left) (drop (column + 1) right)"
      by auto
    have "lcs (drop (row + 1) left) (drop column right) \<le> lcs (drop row left) (drop (column + 1) right)"
      using ins 1(9) lcs_table_nth [of "row + 1" left column right] lcs_table_nth [of row left "column + 1" right] by simp
    then have "lcs (drop row left) (drop column right) = lcs (drop row left) (drop (column + 1) right)"
      using ins by (simp add: dr dc)
    then show ?thesis unfolding unfold using ins ks by (auto simp: dc intro!: exI [of _ "OpInsert # ks"])
  next
    case dels
    from 1(4) [OF _ dels(1)] dels step 1(7,9) obtain ks where
      ks: "ops_wf (lcs_walk left right table (row + 1) column (push_op ops OpDelete row))"
      "script (lcs_walk left right table (row + 1) column (push_op ops OpDelete row)) = (script ops @ [OpDelete]) @ ks"
      "fits ks (drop (row + 1) left) (drop column right)"
      "count_list ks OpEqual = lcs (drop (row + 1) left) (drop column right)"
      by auto
    show ?thesis unfolding unfold using dels ks by (auto simp: dr intro!: exI [of _ "OpDelete # ks"])
  next
    case inss
    from 1(5) [OF _ _ inss(2)] inss step 1(6,9) obtain ks where
      ks: "ops_wf (lcs_walk left right table row (column + 1) (push_op ops OpInsert (length left)))"
      "script (lcs_walk left right table row (column + 1) (push_op ops OpInsert (length left))) = (script ops @ [OpInsert]) @ ks"
      "fits ks (drop row left) (drop (column + 1) right)"
      "count_list ks OpEqual = lcs (drop row left) (drop (column + 1) right)"
      by auto
    show ?thesis unfolding unfold using inss ks by (auto simp: dc intro!: exI [of _ "OpInsert # ks"])
  next
    case over
    then show ?thesis unfolding unfold using 1(8) by auto
  qed
qed

subsection \<open>Offsets into both sides\<close>

fun tiles :: "nat \<Rightarrow> nat \<Rightarrow> diff_op list \<Rightarrow> bool" where
  "tiles l r [] \<longleftrightarrow> True"
| "tiles l r (oper # ops) \<longleftrightarrow> op_start oper < op_end oper \<and>
     (case op_kind oper of
        OpEqual \<Rightarrow> op_start oper = l \<and> tiles (op_end oper) (r + op_len oper) ops
      | OpDelete \<Rightarrow> op_start oper = l \<and> tiles (op_end oper) r ops
      | OpInsert \<Rightarrow> op_start oper = r \<and> tiles l (op_end oper) ops)"

definition left_count :: "diff_op list \<Rightarrow> nat" where
  "left_count ops = sum_list (map (\<lambda>oper. if op_kind oper = OpInsert then 0 else op_len oper) ops)"

definition right_count :: "diff_op list \<Rightarrow> nat" where
  "right_count ops = sum_list (map (\<lambda>oper. if op_kind oper = OpDelete then 0 else op_len oper) ops)"

lemma tiles_append:
  "tiles l r (ops @ ops') \<longleftrightarrow> tiles l r ops \<and> tiles (l + left_count ops) (r + right_count ops) ops'"
  by (induction ops arbitrary: l r)
    (auto simp: left_count_def right_count_def op_len_def add.assoc split: diff_kind.splits)

lemma normalize_tiles:
  "ops_wf ops \<Longrightarrow> tiles l r (normalizeInsertOffsets l r ops) \<and> script (normalizeInsertOffsets l r ops) = script ops"
  by (induction ops arbitrary: l r) (auto simp: Let_def ops_wf_def op_len_def split: diff_kind.splits)

lemma shift_op_simps [simp]:
  "op_kind (shift_op n oper) = op_kind oper" "op_start (shift_op n oper) = op_start oper + n"
  "op_end (shift_op n oper) = op_end oper + n" "op_len (shift_op n oper) = op_len oper"
  by (simp_all add: shift_op_def op_len_def)

lemma shift_tiles: "tiles l r ops \<Longrightarrow> tiles (l + n) (r + n) (map (shift_op n) ops)"
proof (induction ops arbitrary: l r)
  case (Cons oper ops)
  show ?case
    using Cons.prems Cons.IH [of "op_end oper" "r + op_len oper"] Cons.IH [of "op_end oper" r] Cons.IH [of l "op_end oper"]
    by (cases "op_kind oper") (simp_all add: ac_simps)
qed simp

lemma shift_script [simp]: "script (map (shift_op n) ops) = script ops"
  by (induction ops) simp_all

lemma fits_counts:
  "fits ks xs ys \<Longrightarrow> length xs = count_list ks OpEqual + count_list ks OpDelete \<and>
     length ys = count_list ks OpEqual + count_list ks OpInsert"
  by (induction ks xs ys rule: fits.induct) (auto simp: neq_Nil_conv)

lemma count_replicate [simp]: "count_list (replicate n k) k' = (if k = k' then n else 0)"
  by (induction n) auto

lemma count_append [simp]: "count_list (xs @ ys) k = count_list xs k + count_list ys k"
  by (induction xs) auto

lemma script_counts:
  "left_count ops = count_list (script ops) OpEqual + count_list (script ops) OpDelete"
  "right_count ops = count_list (script ops) OpEqual + count_list (script ops) OpInsert"
proof -
  have "left_count ops = count_list (script ops) OpEqual + count_list (script ops) OpDelete \<and>
    right_count ops = count_list (script ops) OpEqual + count_list (script ops) OpInsert"
  proof (induction ops)
    case (Cons oper ops)
    then show ?case by (cases "op_kind oper") (simp_all add: left_count_def right_count_def)
  qed (simp add: left_count_def right_count_def)
  then show "left_count ops = count_list (script ops) OpEqual + count_list (script ops) OpDelete"
    "right_count ops = count_list (script ops) OpEqual + count_list (script ops) OpInsert" by simp_all
qed

lemma fits_append:
  "fits ks xs ys \<Longrightarrow> fits ks' xs' ys' \<Longrightarrow> fits (ks @ ks') (xs @ xs') (ys @ ys')"
  by (induction ks xs ys rule: fits.induct) auto

lemma fits_equal: "fits (replicate (length xs) OpEqual) xs xs"
  by (induction xs) auto

lemma fits_delete: "fits (replicate (length xs) OpDelete) xs []"
  by (induction xs) auto

lemma fits_insert: "fits (replicate (length ys) OpInsert) [] ys"
  by (induction ys) auto

lemma walkLcs_fits:
  "tiles 0 0 (walkLcs xs ys) \<and> fits (script (walkLcs xs ys)) xs ys \<and> count_list (script (walkLcs xs ys)) OpEqual = lcs xs ys"
proof -
  have "ops_wf []" by (simp add: ops_wf_def)
  from lcs_walk_script [OF refl, of 0 xs 0 ys "[]", OF _ _ this] show ?thesis
    using normalize_tiles [of "lcs_walk xs ys (lcs_table xs ys) 0 0 []" 0 0] by (auto simp: walkLcs_def)
qed

subsection \<open>Common subsequences\<close>

lemma fits_common:
  "fits ks xs ys \<Longrightarrow> \<exists>zs. subseq zs xs \<and> subseq zs ys \<and> length zs = count_list ks OpEqual"
proof (induction ks xs ys rule: fits.induct)
  case (2 ks xs ys)
  then obtain zs where "subseq zs (tl xs)" "subseq zs (tl ys)" "length zs = count_list ks OpEqual" by auto
  then show ?case using 2 by (cases xs; cases ys) (auto intro!: exI [of _ "hd xs # zs"])
next
  case (3 ks xs ys)
  then show ?case by (cases xs) (auto dest: list_emb_Cons)
next
  case (4 ks xs ys)
  then show ?case by (cases ys) (auto dest: list_emb_Cons)
qed simp

lemma lcs_upper: "subseq zs xs \<Longrightarrow> subseq zs ys \<Longrightarrow> length zs \<le> lcs xs ys"
proof (induction xs ys arbitrary: zs rule: lcs.induct)
  case (3 x xs y ys)
  show ?case
  proof (cases zs)
    case (Cons z zs')
    show ?thesis
    proof (cases "x = y")
      case True
      have "subseq zs' xs" "subseq zs' ys"
        using 3(4,5) Cons by (auto simp: subseq_Cons2_iff dest: subseq_Cons' split: if_splits)
      then show ?thesis using 3(1) True Cons by simp
    next
      case False
      then have "subseq zs xs \<or> subseq zs ys"
        using 3(4,5) Cons by (auto simp: subseq_Cons2_iff split: if_splits)
      then show ?thesis using 3(2,3) False 3(4,5) by fastforce
    qed
  qed simp
qed auto

lemma lcs_common: "\<exists>zs. subseq zs xs \<and> subseq zs ys \<and> length zs = lcs xs ys"
  using walkLcs_fits [of xs ys] fits_common by metis

lemma lcs_unique:
  assumes "\<exists>zs. subseq zs xs \<and> subseq zs ys \<and> length zs = n" "\<And>zs. subseq zs xs \<Longrightarrow> subseq zs ys \<Longrightarrow> length zs \<le> n"
  shows "lcs xs ys = n"
  using assms lcs_common [of xs ys] lcs_upper [of _ xs ys] by (metis le_antisym)

lemma subseq_rev_iff: "subseq (rev xs) (rev ys) \<longleftrightarrow> subseq xs ys"
proof -
  have "subseq xs ys \<Longrightarrow> subseq (rev xs) (rev ys)" for xs ys :: "'a list"
    by (induction rule: list_emb.induct) (auto intro: subseq_rev_drop_many list_emb_append_mono)
  from this [of xs ys] this [of "rev xs" "rev ys"] show ?thesis by auto
qed

lemma lcs_rev: "lcs (rev xs) (rev ys) = lcs xs ys"
proof (rule lcs_unique)
  obtain zs where "subseq zs xs" "subseq zs ys" "length zs = lcs xs ys" using lcs_common by blast
  then show "\<exists>zs. subseq zs (rev xs) \<and> subseq zs (rev ys) \<and> length zs = lcs xs ys"
    by (intro exI [of _ "rev zs"]) (simp add: subseq_rev_iff)
  fix zs
  assume "subseq zs (rev xs)" "subseq zs (rev ys)"
  then have "subseq (rev zs) xs" "subseq (rev zs) ys" using subseq_rev_iff [of "rev zs" xs] subseq_rev_iff [of "rev zs" ys] by auto
  from lcs_upper [OF this] show "length zs \<le> lcs xs ys" by simp
qed

lemma lcs_prepend: "lcs (ps @ xs) (ps @ ys) = length ps + lcs xs ys"
  by (induction ps) auto

lemma lcs_append: "lcs (xs @ ss) (ys @ ss) = lcs xs ys + length ss"
  using lcs_prepend [of "rev ss" "rev xs" "rev ys"] lcs_rev [of "xs @ ss" "ys @ ss"] lcs_rev [of xs ys] by simp

subsection \<open>The whole diff\<close>

lemma prefix_split: "take (commonPrefixLength xs ys) xs = take (commonPrefixLength xs ys) ys"
  by (induction xs ys rule: commonPrefixLength.induct) auto

lemma prefix_le: "commonPrefixLength xs ys \<le> length xs" "commonPrefixLength xs ys \<le> length ys"
  by (induction xs ys rule: commonPrefixLength.induct) auto

lemma suffix_split:
  fixes xs ys :: "'a list"
  assumes "s = commonSuffixLength xs ys p" "p = commonPrefixLength xs ys"
  shows "drop (length xs - s) xs = drop (length ys - s) ys" "p + s \<le> length xs" "p + s \<le> length ys"
proof -
  let ?l = "min (length xs) (length ys) - p"
  let ?a = "take ?l (rev xs)" and ?b = "take ?l (rev ys)"
  have s: "s = commonPrefixLength ?a ?b" using assms by (simp add: commonSuffixLength_def Let_def)
  have le: "s \<le> ?l" using prefix_le(1) [of ?a ?b] s by simp
  have pl: "p \<le> length xs" "p \<le> length ys" using assms(2) prefix_le by auto
  show "p + s \<le> length xs" "p + s \<le> length ys" using le pl by auto
  have "take s ?a = take s ?b" unfolding s by (rule prefix_split)
  then have "take s (rev xs) = take s (rev ys)" using le by (simp add: take_take min_def)
  then have "rev (drop (length xs - s) xs) = rev (drop (length ys - s) ys)"
    using le by (simp add: take_rev)
  then show "drop (length xs - s) xs = drop (length ys - s) ys" by simp
qed

text \<open>Both lists are the common prefix, their middles and the common suffix.\<close>

lemma diff_parts:
  fixes xs ys :: "'a list"
  defines "p \<equiv> commonPrefixLength xs ys"
  defines "s \<equiv> commonSuffixLength xs ys p"
  obtains ps ss where "xs = ps @ drop p (take (length xs - s) xs) @ ss" "ys = ps @ drop p (take (length ys - s) ys) @ ss"
    "length ps = p" "length ss = s"
proof (rule that)
  note sp = suffix_split [OF s_def [THEN meta_eq_to_obj_eq] p_def [THEN meta_eq_to_obj_eq]]
  have cut: "zs = take p zs @ drop p (take (length zs - s) zs) @ drop (length zs - s) zs" if "p + s \<le> length zs" for zs :: "'a list"
  proof -
    have "take (length zs - s) zs = take p zs @ drop p (take (length zs - s) zs)"
      using that append_take_drop_id [of p "take (length zs - s) zs"] by (simp add: min_absorb1 le_diff_conv2)
    then show ?thesis by (metis append.assoc append_take_drop_id)
  qed
  show "xs = take p xs @ drop p (take (length xs - s) xs) @ drop (length xs - s) xs" by (rule cut [OF sp(2)])
  show "ys = take p xs @ drop p (take (length ys - s) ys) @ drop (length xs - s) xs"
    using cut [OF sp(3)] prefix_split [of xs ys] sp(1) by (simp add: p_def)
  show "length (take p xs) = p" "length (drop (length xs - s) xs) = s" using sp(2) by auto
qed

definition middle_ops :: "'a list \<Rightarrow> 'a list \<Rightarrow> nat \<Rightarrow> diff_op list" where
  "middle_ops as bs p =
     (let whole = \<lparr>op_kind = OpDelete, op_start = p, op_end = p + length as\<rparr>;
          added = \<lparr>op_kind = OpInsert, op_start = p, op_end = p + length bs\<rparr>
      in if length as > 0 \<and> length bs > 0 then
           if length as * length bs \<le> MAX_DIFF_CELLS then map (shift_op p) (walkLcs as bs) else [whole, added]
         else if length as > 0 then [whole] else if length bs > 0 then [added] else [])"

lemma middle_ok:
  "tiles p p (middle_ops as bs p) \<and> fits (script (middle_ops as bs p)) as bs \<and>
   (length as * length bs \<le> MAX_DIFF_CELLS \<longrightarrow> count_list (script (middle_ops as bs p)) OpEqual = lcs as bs)"
proof (cases "length as > 0 \<and> length bs > 0 \<and> length as * length bs \<le> MAX_DIFF_CELLS")
  case True
  then show ?thesis
    using walkLcs_fits [of as bs] shift_tiles [of 0 0 "walkLcs as bs" p] by (simp add: middle_ops_def Let_def)
next
  case False
  have "fits (replicate (length as) OpDelete @ replicate (length bs) OpInsert) as bs"
    using fits_append [OF fits_delete [of as] fits_insert [of bs]] by simp
  then show ?thesis using False fits_delete [of as] fits_insert [of bs]
    by (auto simp: middle_ops_def Let_def op_len_def)
qed

lemma diffTokens_ok:
  fixes xs ys :: "'a list"
  defines "p \<equiv> commonPrefixLength xs ys"
  defines "s \<equiv> commonSuffixLength xs ys p"
  shows "tiles 0 0 (diffTokens xs ys) \<and> fits (script (diffTokens xs ys)) xs ys \<and>
    ((length xs - p - s) * (length ys - p - s) \<le> MAX_DIFF_CELLS \<longrightarrow>
       count_list (script (diffTokens xs ys)) OpEqual = lcs xs ys)"
proof -
  let ?as = "drop p (take (length xs - s) xs)" and ?bs = "drop p (take (length ys - s) ys)"
  obtain ps ss where x: "xs = ps @ ?as @ ss" and y: "ys = ps @ ?bs @ ss" and l: "length ps = p" "length ss = s"
    using diff_parts [of xs ys] unfolding p_def s_def by blast
  let ?pre = "if p > 0 then [\<lparr>op_kind = OpEqual, op_start = 0, op_end = p\<rparr>] else []"
  let ?mid = "middle_ops ?as ?bs p"
  let ?suf = "if s > 0 then [\<lparr>op_kind = OpEqual, op_start = length xs - s, op_end = length xs\<rparr>] else []"
  have d: "diffTokens xs ys = ?pre @ ?mid @ ?suf"
    unfolding diffTokens_def middle_ops_def Let_def p_def [symmetric] s_def [symmetric] by simp
  have m: "tiles p p ?mid" "fits (script ?mid) ?as ?bs"
    "length ?as * length ?bs \<le> MAX_DIFF_CELLS \<longrightarrow> count_list (script ?mid) OpEqual = lcs ?as ?bs"
    using middle_ok [of p ?as ?bs] by auto
  have suf_le: "s \<le> length xs" using arg_cong [OF x, of length] l by simp
  have scr: "script (diffTokens xs ys) = replicate (length ps) OpEqual @ script ?mid @ replicate (length ss) OpEqual"
    using l suf_le unfolding d by (auto simp: op_len_def)
  have f: "fits (script (diffTokens xs ys)) xs ys"
    unfolding scr using fits_append [OF fits_equal fits_append [OF m(2) fits_equal]] x y by metis
  have lc: "left_count ?mid = length ?as" using fits_counts [OF m(2)] script_counts(1) by simp
  have "length xs = p + length ?as + s" using arg_cong [OF x, of length] l by simp
  then have t: "tiles 0 0 (diffTokens xs ys)"
    unfolding d tiles_append using m(1) lc by (auto simp: left_count_def right_count_def op_len_def)
  have "length ?as = length xs - p - s" "length ?bs = length ys - p - s" by simp_all
  moreover have "lcs xs ys = lcs (ps @ ?as @ ss) (ps @ ?bs @ ss)" by (rule arg_cong2 [OF x y])
  then have "lcs xs ys = p + lcs ?as ?bs + s" by (simp only: lcs_prepend lcs_append l add.assoc)
  ultimately show ?thesis using f t m(3) by (simp add: scr l)
qed

subsection \<open>The spans reassemble both sides\<close>

definition side_text :: "diff_kind \<Rightarrow> diff_span list \<Rightarrow> string" where
  "side_text other spans = concat (map sp_text (filter (\<lambda>sp. sp_kind sp \<noteq> other) spans))"

lemma slice_split: "a \<le> b \<Longrightarrow> drop a xs = slice a b xs @ drop b xs"
  unfolding slice_def by (metis append_take_drop_id drop_take le_add_diff_inverse take_drop add.commute drop_drop)

lemma fits_run:
  "fits (replicate n OpEqual @ ks) xs ys \<longleftrightarrow> n \<le> length xs \<and> n \<le> length ys \<and> take n xs = take n ys \<and> fits ks (drop n xs) (drop n ys)"
  "fits (replicate n OpDelete @ ks) xs ys \<longleftrightarrow> n \<le> length xs \<and> fits ks (drop n xs) ys"
  "fits (replicate n OpInsert @ ks) xs ys \<longleftrightarrow> n \<le> length ys \<and> fits ks xs (drop n ys)"
proof -
  show "fits (replicate n OpEqual @ ks) xs ys \<longleftrightarrow> n \<le> length xs \<and> n \<le> length ys \<and> take n xs = take n ys \<and> fits ks (drop n xs) (drop n ys)"
  proof (induction n arbitrary: xs ys)
    case (Suc n)
    then show ?case by (cases xs; cases ys) auto
  qed simp
  show "fits (replicate n OpDelete @ ks) xs ys \<longleftrightarrow> n \<le> length xs \<and> fits ks (drop n xs) ys"
  proof (induction n arbitrary: xs)
    case (Suc n)
    then show ?case by (cases xs) auto
  qed simp
  show "fits (replicate n OpInsert @ ks) xs ys \<longleftrightarrow> n \<le> length ys \<and> fits ks xs (drop n ys)"
  proof (induction n arbitrary: ys)
    case (Suc n)
    then show ?case by (cases ys) auto
  qed simp
qed

lemma spans_sides:
  "tiles l r ops \<Longrightarrow> fits (script ops) (drop l left) (drop r right) \<Longrightarrow>
   side_text OpInsert (spansFromOps ops left right) = concat (drop l left) \<and>
   side_text OpDelete (spansFromOps ops left right) = concat (drop r right)"
proof (induction ops arbitrary: l r)
  case Nil
  then show ?case by (simp add: side_text_def spansFromOps_def)
next
  case (Cons oper ops)
  let ?n = "op_len oper"
  have e: "op_end oper = op_start oper + ?n" using Cons.prems(1) by (simp add: op_len_def)
  have st: "side_text k (spansFromOps (oper # ops) left right) =
      (if op_kind oper = k then '''' else concat (slice (op_start oper) (op_end oper) (if op_kind oper = OpInsert then right else left)))
      @ side_text k (spansFromOps ops left right)" for k
    by (simp add: side_text_def spansFromOps_def)
  show ?case
  proof (cases "op_kind oper")
    case OpEqual
    then have s: "op_start oper = l" "op_end oper = l + ?n" using Cons.prems(1) e by simp_all
    note q = Cons.prems(2) [unfolded script_simps OpEqual fits_run drop_drop add.commute [of ?n l] add.commute [of ?n r]]
    note f1 = q [THEN conjunct2, THEN conjunct2, THEN conjunct1] and f2 = q [THEN conjunct2, THEN conjunct2, THEN conjunct2]
    have f3: "tiles (l + ?n) (r + ?n) ops" using Cons.prems(1) OpEqual unfolding s(2) [symmetric] by simp
    have "slice r (r + ?n) right = slice l (l + ?n) left" using f1 by (simp add: slice_def drop_take)
    then have "drop l left = slice l (l + ?n) left @ drop (l + ?n) left" "drop r right = slice l (l + ?n) left @ drop (r + ?n) right"
      using slice_split [of l "l + ?n" left] slice_split [of r "r + ?n" right] by (simp_all only: le_add1 simp_thms)
    then show ?thesis using Cons.IH [OF f3 f2] OpEqual s by (simp add: st)
  next
    case OpDelete
    then have s: "op_start oper = l" "op_end oper = l + ?n" using Cons.prems(1) e by simp_all
    note q = Cons.prems(2) [unfolded script_simps OpDelete fits_run drop_drop add.commute [of ?n l] add.commute [of ?n r]]
    have f: "tiles (l + ?n) r ops" using Cons.prems(1) OpDelete unfolding s(2) [symmetric] by simp
    show ?thesis using Cons.IH [OF f q [THEN conjunct2]] OpDelete s slice_split [of l "l + ?n" left] by (simp add: st)
  next
    case OpInsert
    then have s: "op_start oper = r" "op_end oper = r + ?n" using Cons.prems(1) e by simp_all
    note q = Cons.prems(2) [unfolded script_simps OpInsert fits_run drop_drop add.commute [of ?n l] add.commute [of ?n r]]
    have f: "tiles l (r + ?n) ops" using Cons.prems(1) OpInsert unfolding s(2) [symmetric] by simp
    show ?thesis using Cons.IH [OF f q [THEN conjunct2]] OpInsert s slice_split [of r "r + ?n" right] by (simp add: st)
  qed
qed

end
