(* ===== verification/DiffText.thy ===== *)
theory DiffText
  imports DiffTokens
begin

text \<open>
  The text layer of the comparison
  (\<open>plugins/dsh-documents/src/documents/comparison/canonical/tokenizer.ts\<close> and
  \<open>canonical/normalize.ts\<close>): the tokenizer, whose one regular expression is read alternative by
  alternative with greedy runs, and the keys used for alignment. The Unicode classes are those of
  the characters below 256, where there is no combining mark; Unicode composition is an argument.
\<close>

subsection \<open>Character classes\<close>

definition code :: "char \<Rightarrow> nat" where
  "code c = of_char c"

definition uni_number :: "char \<Rightarrow> bool" where
  "uni_number c \<longleftrightarrow> 48 \<le> code c \<and> code c \<le> 57 \<or> code c \<in> {178, 179, 185, 188, 189, 190}"

definition uni_letter :: "char \<Rightarrow> bool" where
  "uni_letter c \<longleftrightarrow> 65 \<le> code c \<and> code c \<le> 90 \<or> 97 \<le> code c \<and> code c \<le> 122 \<or> code c \<in> {170, 181, 186} \<or>
     192 \<le> code c \<and> code c \<noteq> 215 \<and> code c \<noteq> 247"

definition js_lower :: "char \<Rightarrow> char" where
  "js_lower c = (if 65 \<le> code c \<and> code c \<le> 90 \<or> 192 \<le> code c \<and> code c \<le> 222 \<and> code c \<noteq> 215
     then char_of (code c + 32) else c)"

subsection \<open>Tokens\<close>

datatype token_kind = WordToken | NumberToken | SpaceToken | PunctToken

record text_token =
  tt_text :: string
  tt_start :: nat
  tt_end :: nat
  tt_kind :: token_kind

text \<open>The repeated group of a number or a word: a joiner with a run of the class behind it.\<close>

function joined :: "(char \<Rightarrow> bool) \<Rightarrow> (char \<Rightarrow> bool) \<Rightarrow> string \<Rightarrow> string" where
  "joined join cls [] = []"
| "joined join cls [c] = []"
| "joined join cls (c # d # cs) =
     (if join c \<and> cls d then c # takeWhile cls (d # cs) @ joined join cls (dropWhile cls (d # cs)) else [])"
  by pat_completeness auto

termination
  by (relation "measure (\<lambda>(_, _, cs). length cs)") (auto intro: le_imp_less_Suc length_dropWhile_le le_SucI)

definition run_match :: "(char \<Rightarrow> bool) \<Rightarrow> (char \<Rightarrow> bool) \<Rightarrow> (char \<Rightarrow> bool) \<Rightarrow> string \<Rightarrow> string" where
  "run_match cls join cls' tx = takeWhile cls tx @ joined join cls' (dropWhile cls tx)"

definition number_join :: "char \<Rightarrow> bool" where
  "number_join c \<longleftrightarrow> c \<in> set ''.,-/''"

definition word_join :: "char \<Rightarrow> bool" where
  "word_join c \<longleftrightarrow> c = CHR ''-'' \<or> c = CHR 0x27 \<or> c = CHR ''_''"

text \<open>The first alternative of the pattern that matches at the head of a non-empty text.\<close>

definition match_token :: "string \<Rightarrow> token_kind \<times> string" where
  "match_token tx =
     (if js_space (hd tx) then (SpaceToken, takeWhile js_space tx)
      else if uni_number (hd tx) then (NumberToken, run_match uni_number number_join uni_number tx)
      else if uni_letter (hd tx)
      then (WordToken, run_match uni_letter word_join (\<lambda>c. uni_letter c \<or> uni_number c) tx)
      else (PunctToken, [hd tx]))"

lemma match_nonempty: "tx \<noteq> [] \<Longrightarrow> snd (match_token tx) \<noteq> []"
  by (cases tx) (auto simp: match_token_def run_match_def)

function tokenize_from :: "nat \<Rightarrow> string \<Rightarrow> text_token list" where
  "tokenize_from pos tx =
     (if tx = [] then []
      else let (kind, v) = match_token tx
           in \<lparr>tt_text = v, tt_start = pos, tt_end = pos + length v, tt_kind = kind\<rparr>
              # tokenize_from (pos + length v) (drop (length v) tx))"
  by pat_completeness auto

termination
proof (relation "measure (\<lambda>(_, tx). length tx)", goal_cases)
  case (2 pos tx x kind v)
  then have "v \<noteq> []" using match_nonempty [of tx] by (metis snd_conv)
  then show ?case using 2(1) by simp
qed simp

declare tokenize_from.simps [simp del]

definition tokenize :: "string \<Rightarrow> text_token list" where
  "tokenize tx = tokenize_from 0 tx"

definition isSignificantToken :: "text_token \<Rightarrow> bool" where
  "isSignificantToken t \<longleftrightarrow> tt_kind t \<noteq> SpaceToken"

definition significantTokens :: "string \<Rightarrow> string list" where
  "significantTokens tx = map (\<lambda>t. map js_lower (tt_text t)) (filter isSignificantToken (tokenize tx))"

definition isWhitespaceOnly :: "string \<Rightarrow> bool" where
  "isWhitespaceOnly tx \<longleftrightarrow> js_trim tx = []"

subsection \<open>Keys\<close>

text \<open>\<open>replace(/\s+/gu, " ")\<close>.\<close>

function squeeze :: "string \<Rightarrow> string" where
  "squeeze [] = []"
| "squeeze (c # cs) = (if js_space c then CHR '' '' # squeeze (dropWhile js_space cs) else c # squeeze cs)"
  by pat_completeness auto

termination
  by (relation "measure length") (auto intro: le_imp_less_Suc length_dropWhile_le)

definition normalizeForComparison :: "(string \<Rightarrow> string) \<Rightarrow> string \<Rightarrow> string" where
  "normalizeForComparison nfc tx =
     js_trim (squeeze (map (\<lambda>c. if c = CHR 0xA0 then CHR '' '' else c) (filter (\<lambda>c. c \<noteq> CHR 0xAD) (nfc tx))))"

definition collapseWhitespace :: "string \<Rightarrow> string" where
  "collapseWhitespace tx = js_trim (squeeze tx)"

definition differsByWhitespaceOnly :: "string \<Rightarrow> string \<Rightarrow> bool" where
  "differsByWhitespaceOnly left right \<longleftrightarrow> left \<noteq> right \<and> collapseWhitespace left = collapseWhitespace right"

definition comparisonKeyOf :: "(string \<Rightarrow> string) \<Rightarrow> string \<Rightarrow> string" where
  "comparisonKeyOf nfc tx = normalizeForComparison nfc tx"

subsection \<open>The tokens are the text\<close>

lemma joined_split: "\<exists>rest. tx = joined join cls tx @ rest"
proof (induction join cls tx rule: joined.induct)
  case (3 join cls c d cs)
  show ?case
  proof (cases "join c \<and> cls d")
    case True
    then obtain rest where "dropWhile cls (d # cs) = joined join cls (dropWhile cls (d # cs)) @ rest" using 3 by blast
    then have "d # cs = takeWhile cls (d # cs) @ joined join cls (dropWhile cls (d # cs)) @ rest"
      using takeWhile_dropWhile_id [of cls "d # cs"] by simp
    then show ?thesis using True by auto
  qed auto
qed simp_all

lemma match_split: "\<exists>rest. tx \<noteq> [] \<longrightarrow> tx = snd (match_token tx) @ rest"
proof -
  have r: "\<exists>rest. tx = run_match cls join cls' tx @ rest" for cls join cls'
    using joined_split [of "dropWhile cls tx" join cls'] takeWhile_dropWhile_id [of cls tx]
    unfolding run_match_def by (metis append_assoc)
  have s: "\<exists>rest. tx = takeWhile js_space tx @ rest" using takeWhile_dropWhile_id by metis
  show ?thesis
    using r s by (cases tx) (auto simp: match_token_def)
qed

text \<open>Consecutive tokens from a position on, each non-empty, that spell the text.\<close>

fun tokens_cover :: "nat \<Rightarrow> text_token list \<Rightarrow> string \<Rightarrow> bool" where
  "tokens_cover pos [] tx \<longleftrightarrow> tx = []"
| "tokens_cover pos (t # ts) tx \<longleftrightarrow>
     tt_start t = pos \<and> tt_end t = pos + length (tt_text t) \<and> tt_text t \<noteq> [] \<and>
     tt_text t = take (length (tt_text t)) tx \<and> tokens_cover (tt_end t) ts (drop (length (tt_text t)) tx)"

lemma tokenize_from_cover: "tokens_cover pos (tokenize_from pos tx) tx"
proof (induction pos tx rule: tokenize_from.induct)
  case (1 pos tx)
  show ?case
  proof (cases "tx = []")
    case False
    obtain kind v where m: "match_token tx = (kind, v)" by force
    obtain rest where "tx = v @ rest" using match_split [of tx] False m by auto
    moreover have "v \<noteq> []" using match_nonempty [OF False] m by simp
    ultimately show ?thesis using "1.IH" [OF False m [symmetric] refl] m False by (subst tokenize_from.simps) (simp add: Let_def)
  qed (simp add: tokenize_from.simps)
qed

lemma cover_text: "tokens_cover pos ts tx \<Longrightarrow> concat (map tt_text ts) = tx"
proof (induction pos ts tx rule: tokens_cover.induct)
  case (2 pos t ts tx)
  from "2.prems" have "tt_text t = take (length (tt_text t)) tx" by simp
  moreover from "2.prems" have "concat (map tt_text ts) = drop (length (tt_text t)) tx" using "2.IH" by (metis tokens_cover.simps(2))
  ultimately show ?case by (metis append_take_drop_id concat.simps(2) list.simps(9))
qed simp

lemma tokenize_text: "concat (map tt_text (tokenize tx)) = tx"
  unfolding tokenize_def by (rule cover_text [OF tokenize_from_cover])

text \<open>The spans of two tokenized texts reassemble both of them.\<close>

lemma text_spans:
  "side_text OpInsert (diffText (map tt_text (tokenize before)) (map tt_text (tokenize later))) = before"
  "side_text OpDelete (diffText (map tt_text (tokenize before)) (map tt_text (tokenize later))) = later"
  using spans_sides [of 0 0 "diffTokens (map tt_text (tokenize before)) (map tt_text (tokenize later))"
      "map tt_text (tokenize before)" "map tt_text (tokenize later)"]
    diffTokens_ok [of "map tt_text (tokenize before)" "map tt_text (tokenize later)"]
  by (simp_all add: diffText_def tokenize_text)

end
