(* ===== verification/DiffBlocks.thy ===== *)
theory DiffBlocks
  imports DiffPairs DiffText
begin

text \<open>
  The change generator of the comparison
  (\<open>plugins/dsh-documents/src/documents/comparison/diff/block-diff.ts\<close>) with the document model it
  reads (\<open>canonical/document-ir.ts\<close>), the change shapes (\<open>types.ts\<close>) and the change identifiers
  (\<open>diff/change-id.ts\<close>). The lexical signals of a change and SHA-256 are arguments, as is the time
  budget, which is asked once per document part. Confidences are exact fractions where the code
  has doubles.
\<close>

subsection \<open>Documents\<close>

datatype document_part = BodyPart | HeaderPart | FooterPart | FootnotePart | CommentPart

datatype node_type =
  HeadingNode | ParagraphNode | ListItemNode | TableNode | TableRowNode | TableCellNode | FootnoteNode | CommentNode

definition DOCUMENT_PART_ORDER :: "document_part list" where
  "DOCUMENT_PART_ORDER = [BodyPart, HeaderPart, FooterPart, FootnotePart, CommentPart]"

fun part_name :: "document_part \<Rightarrow> string" where
  "part_name BodyPart = ''body''"
| "part_name HeaderPart = ''header''"
| "part_name FooterPart = ''footer''"
| "part_name FootnotePart = ''footnote''"
| "part_name CommentPart = ''comment''"

fun type_name :: "node_type \<Rightarrow> string" where
  "type_name HeadingNode = ''heading''"
| "type_name ParagraphNode = ''paragraph''"
| "type_name ListItemNode = ''list-item''"
| "type_name TableNode = ''table''"
| "type_name TableRowNode = ''table-row''"
| "type_name TableCellNode = ''table-cell''"
| "type_name FootnoteNode = ''footnote''"
| "type_name CommentNode = ''comment''"

record node_source =
  ns_page :: "nat option"
  ns_paragraph :: "nat option"
  ns_table :: "nat option"
  ns_row :: "nat option"
  ns_column :: "nat option"
  ns_xmlPath :: "string option"

record table_cell =
  tc_column :: nat
  tc_rawText :: string
  tc_comparisonKey :: string
  tc_source :: node_source

record table_row =
  tr_row :: nat
  tr_cells :: "table_cell list"
  tr_rawText :: string
  tr_comparisonKey :: string

record canonical_node =
  cn_type :: node_type
  cn_part :: document_part
  cn_path :: "string list"
  cn_rawText :: string
  cn_comparisonKey :: string
  cn_source :: node_source
  cn_formatting :: "string option"
  cn_table :: "table_row list option"

definition nodesOfPart :: "canonical_node list \<Rightarrow> document_part \<Rightarrow> canonical_node list" where
  "nodesOfPart nodes part = filter (\<lambda>n. cn_part n = part) nodes"

subsection \<open>Changes\<close>

datatype change_kind = InsertChange | DeleteChange | ReplaceChange | MoveChange

fun kind_name :: "change_kind \<Rightarrow> string" where
  "kind_name InsertChange = ''insert''"
| "kind_name DeleteChange = ''delete''"
| "kind_name ReplaceChange = ''replace''"
| "kind_name MoveChange = ''move''"

datatype change_signal =
  MONEY_CHANGED | NUMBER_CHANGED | PERCENTAGE_CHANGED | DATE_CHANGED | DURATION_CHANGED | NEGATION_CHANGED
| PARTY_REFERENCE_CHANGED | URL_CHANGED | EMAIL_CHANGED | OBLIGATION_TERM_CHANGED | PERMISSION_TERM_CHANGED
| PROHIBITION_TERM_CHANGED | LIABILITY_TERM_CHANGED | FORMATTING_CHANGED

record change_location =
  lo_part :: document_part
  lo_nodeIndex :: nat
  lo_headingPath :: "string list"
  lo_source :: node_source

record draft =
  dr_kind :: change_kind
  dr_nodeType :: node_type
  dr_part :: document_part
  dr_position :: int
  dr_order :: int
  dr_left :: "(nat \<times> change_location) option"
  dr_right :: "(nat \<times> change_location) option"
  dr_before :: "string option"
  dr_after :: "string option"
  dr_spans :: "diff_span list option"
  dr_signals :: "change_signal list"
  dr_confidence :: rat

record document_change =
  dc_id :: string
  dc_kind :: change_kind
  dc_nodeType :: node_type
  dc_left :: "change_location option"
  dc_right :: "change_location option"
  dc_before :: "string option"
  dc_after :: "string option"
  dc_spans :: "diff_span list option"
  dc_headingPath :: "string list"
  dc_signals :: "change_signal list"
  dc_confidence :: rat

record diff_context =
  dx_leftSha :: string
  dx_rightSha :: string
  dx_detectMoves :: bool
  dx_ignoreWhitespace :: bool
  dx_ignoreFormatting :: bool
  dx_confidence :: rat
  dx_inTime :: "document_part \<Rightarrow> bool"
  dx_detectSignals :: "string option \<Rightarrow> string option \<Rightarrow> change_signal list"
  dx_sha256 :: "string \<Rightarrow> string"

subsection \<open>Locations\<close>

text \<open>\<open>sourceFields\<close> copies the fields that are there, so a source is its own copy.\<close>

definition locationOf :: "canonical_node \<Rightarrow> nat \<Rightarrow> change_location" where
  "locationOf node partIndex =
     \<lparr>lo_part = cn_part node, lo_nodeIndex = partIndex, lo_headingPath = cn_path node, lo_source = cn_source node\<rparr>"

definition cellLocation :: "canonical_node \<Rightarrow> nat \<Rightarrow> node_source \<Rightarrow> change_location" where
  "cellLocation table tableIndex source =
     \<lparr>lo_part = cn_part table, lo_nodeIndex = tableIndex, lo_headingPath = cn_path table, lo_source = source\<rparr>"

definition rowSource :: "canonical_node \<Rightarrow> table_row \<Rightarrow> node_source" where
  "rowSource table row =
     \<lparr>ns_page = None, ns_paragraph = ns_paragraph (cn_source table), ns_table = ns_table (cn_source table),
      ns_row = Some (tr_row row), ns_column = None, ns_xmlPath = ns_xmlPath (cn_source table)\<rparr>"

definition alignableOf :: "canonical_node \<Rightarrow> alignable" where
  "alignableOf node = \<lparr>al_type = type_name (cn_type node), al_comparisonKey = cn_comparisonKey node\<rparr>"

definition rowAlignable :: "table_row \<Rightarrow> alignable" where
  "rowAlignable row = \<lparr>al_type = ''table-row'', al_comparisonKey = tr_comparisonKey row\<rparr>"

definition cellAlignable :: "table_cell \<Rightarrow> alignable" where
  "cellAlignable cell = \<lparr>al_type = ''table-cell'', al_comparisonKey = tc_comparisonKey cell\<rparr>"

definition moveHash :: "document_part \<Rightarrow> node_type \<Rightarrow> string \<Rightarrow> string" where
  "moveHash part type rawText = part_name part @ CHR 0x00 # type_name type @ CHR 0x00 # rawText"

subsection \<open>Confidence and replacements\<close>

definition SURE_PAIRING :: rat where
  "SURE_PAIRING = 85 / 100"

definition MIN_PAIRING_FACTOR :: rat where
  "MIN_PAIRING_FACTOR = 75 / 100"

definition pairing_factor :: "rat \<Rightarrow> rat" where
  "pairing_factor similarity =
     (if similarity \<ge> SURE_PAIRING then 1
      else MIN_PAIRING_FACTOR + (1 - MIN_PAIRING_FACTOR) *
             (max 0 (similarity - REPLACE_THRESHOLD) / (SURE_PAIRING - REPLACE_THRESHOLD)))"

text \<open>\<open>Math.round\<close> is the floor of one half more.\<close>

definition scaled :: "rat \<Rightarrow> rat \<Rightarrow> rat" where
  "scaled confidence similarity =
     of_int \<lfloor>(confidence * pairing_factor similarity + 1 / 2 ^ 52) * 100 + 1 / 2\<rfloor> / 100"

abbreviation spans_of :: "string \<Rightarrow> string \<Rightarrow> diff_span list" where
  "spans_of before later \<equiv> diffText (map tt_text (tokenize before)) (map tt_text (tokenize later))"

definition replaceDraft ::
    "diff_context \<Rightarrow> document_part \<Rightarrow> string \<Rightarrow> string \<Rightarrow> (nat \<times> change_location) option \<Rightarrow>
     (nat \<times> change_location) option \<Rightarrow> node_type \<Rightarrow> rat \<Rightarrow> draft" where
  "replaceDraft ctx part before later left right nodeType similarity =
     \<lparr>dr_kind = ReplaceChange, dr_nodeType = nodeType, dr_part = part,
      dr_position = (case right of None \<Rightarrow> 0 | Some r \<Rightarrow> int (fst r)), dr_order = 0,
      dr_left = left, dr_right = right, dr_before = Some before, dr_after = Some later,
      dr_spans = Some (spans_of before later), dr_signals = dx_detectSignals ctx (Some before) (Some later),
      dr_confidence = scaled (dx_confidence ctx) similarity\<rparr>"

definition insert_draft :: "diff_context \<Rightarrow> document_part \<Rightarrow> node_type \<Rightarrow> int \<Rightarrow> int \<Rightarrow> nat \<times> change_location \<Rightarrow> string \<Rightarrow> draft" where
  "insert_draft ctx part nodeType position order right raw =
     \<lparr>dr_kind = InsertChange, dr_nodeType = nodeType, dr_part = part, dr_position = position, dr_order = order,
      dr_left = None, dr_right = Some right, dr_before = None, dr_after = Some raw, dr_spans = None,
      dr_signals = dx_detectSignals ctx None (Some raw), dr_confidence = dx_confidence ctx\<rparr>"

definition delete_draft :: "diff_context \<Rightarrow> document_part \<Rightarrow> node_type \<Rightarrow> int \<Rightarrow> int \<Rightarrow> nat \<times> change_location \<Rightarrow> string \<Rightarrow> draft" where
  "delete_draft ctx part nodeType position order left raw =
     \<lparr>dr_kind = DeleteChange, dr_nodeType = nodeType, dr_part = part, dr_position = position, dr_order = order,
      dr_left = Some left, dr_right = None, dr_before = Some raw, dr_after = None, dr_spans = None,
      dr_signals = dx_detectSignals ctx (Some raw) None, dr_confidence = dx_confidence ctx\<rparr>"

subsection \<open>Tables\<close>

text \<open>
  The walk that \<open>diffTables\<close> and \<open>diffRowCells\<close> share: before each pair the insertions and the
  deletions in front of it, each counting the order up, and what is left at the end.
\<close>

definition numbered :: "(int \<Rightarrow> nat \<Rightarrow> draft) \<Rightarrow> int \<Rightarrow> nat list \<Rightarrow> draft list" where
  "numbered mk order is = map (\<lambda>(k, i). mk (order + 1 + int k) i) (List.enumerate 0 is)"

fun grid_walk ::
    "(int \<Rightarrow> nat \<Rightarrow> draft) \<Rightarrow> (int \<Rightarrow> nat \<Rightarrow> draft) \<Rightarrow> (int \<Rightarrow> alignment_pair \<Rightarrow> draft list \<times> int) \<Rightarrow> nat \<Rightarrow>
     alignment_pair list \<Rightarrow> int \<Rightarrow> nat list \<Rightarrow> nat list \<Rightarrow> draft list" where
  "grid_walk ins del both rights [] order rightOnly leftOnly =
     (let new = takeWhile (\<lambda>i. i < rights) rightOnly
      in numbered ins order new @ numbered del (order + int (length new)) leftOnly)"
| "grid_walk ins del both rights (p # ps) order rightOnly leftOnly =
     (let new = takeWhile (\<lambda>i. i < pr_right p) rightOnly;
          old = takeWhile (\<lambda>i. i < pr_left p) leftOnly;
          (drafts, order') = both (order + int (length new) + int (length old)) p
      in numbered ins order new @ numbered del (order + int (length new)) old @ drafts
         @ grid_walk ins del both rights ps order' (dropWhile (\<lambda>i. i < pr_right p) rightOnly)
             (dropWhile (\<lambda>i. i < pr_left p) leftOnly))"

definition diffRowCells ::
    "diff_context \<Rightarrow> document_part \<Rightarrow> canonical_node \<Rightarrow> nat \<Rightarrow> canonical_node \<Rightarrow> nat \<Rightarrow> table_row \<Rightarrow> table_row \<Rightarrow> int \<Rightarrow> draft list" where
  "diffRowCells ctx part leftTable leftTableIndex rightTable rightTableIndex leftRow rightRow order =
     (let alignment = alignSequences significantTokens (map cellAlignable (tr_cells leftRow))
                        (map cellAlignable (tr_cells rightRow)) None None;
          ins = (\<lambda>order i. let cell = tr_cells rightRow ! i in
            insert_draft ctx part TableCellNode (int rightTableIndex) order
              (rightTableIndex, cellLocation rightTable rightTableIndex (tc_source cell)) (tc_rawText cell));
          del = (\<lambda>order i. let cell = tr_cells leftRow ! i in
            delete_draft ctx part TableCellNode (int rightTableIndex) order
              (leftTableIndex, cellLocation leftTable leftTableIndex (tc_source cell)) (tc_rawText cell));
          both = (\<lambda>order p.
            let leftCell = tr_cells leftRow ! pr_left p; rightCell = tr_cells rightRow ! pr_right p;
                whitespaceOnly = (tc_comparisonKey leftCell = tc_comparisonKey rightCell \<and>
                  (dx_ignoreWhitespace ctx \<or> tc_rawText leftCell = tc_rawText rightCell))
            in if whitespaceOnly then ([], order)
               else ([(replaceDraft ctx part (tc_rawText leftCell) (tc_rawText rightCell)
                        (Some (leftTableIndex, cellLocation leftTable leftTableIndex (tc_source leftCell)))
                        (Some (rightTableIndex, cellLocation rightTable rightTableIndex (tc_source rightCell)))
                        TableCellNode (pr_similarity p))
                      \<lparr>dr_position := int rightTableIndex, dr_order := order + 1\<rparr>], order + 1))
      in grid_walk ins del both (length (tr_cells rightRow)) (sa_pairs alignment) order
           (sa_rightOnly alignment) (sa_leftOnly alignment))"

definition table_rows :: "canonical_node \<Rightarrow> table_row list" where
  "table_rows node = (case cn_table node of None \<Rightarrow> [] | Some rows \<Rightarrow> rows)"

definition diffTables ::
    "diff_context \<Rightarrow> document_part \<Rightarrow> canonical_node \<Rightarrow> nat \<Rightarrow> canonical_node \<Rightarrow> nat \<Rightarrow> draft list" where
  "diffTables ctx part leftTable leftTableIndex rightTable rightTableIndex =
     (let leftRows = table_rows leftTable; rightRows = table_rows rightTable;
          alignment = alignSequences significantTokens (map rowAlignable leftRows) (map rowAlignable rightRows) None None;
          ins = (\<lambda>order i. let row = rightRows ! i in
            insert_draft ctx part TableRowNode (int rightTableIndex) order
              (rightTableIndex, cellLocation rightTable rightTableIndex (rowSource rightTable row)) (tr_rawText row));
          del = (\<lambda>order i. let row = leftRows ! i in
            delete_draft ctx part TableRowNode (int rightTableIndex) order
              (leftTableIndex, cellLocation leftTable leftTableIndex (rowSource leftTable row)) (tr_rawText row));
          both = (\<lambda>order p. (diffRowCells ctx part leftTable leftTableIndex rightTable rightTableIndex
            (leftRows ! pr_left p) (rightRows ! pr_right p) (order + 1), order + 1))
      in grid_walk ins del both (length rightRows) (sa_pairs alignment) 0 (sa_rightOnly alignment) (sa_leftOnly alignment))"

subsection \<open>Pairs\<close>

definition diffPair ::
    "diff_context \<Rightarrow> document_part \<Rightarrow> canonical_node \<Rightarrow> nat \<Rightarrow> canonical_node \<Rightarrow> nat \<Rightarrow> rat \<Rightarrow> draft list" where
  "diffPair ctx part leftNode leftIndex rightNode rightIndex similarity =
     (let left = Some (leftIndex, locationOf leftNode leftIndex);
          right = Some (rightIndex, locationOf rightNode rightIndex);
          replacement = replaceDraft ctx part (cn_rawText leftNode) (cn_rawText rightNode) left right
                          (cn_type rightNode) similarity
      in if cn_type leftNode = TableNode \<and> cn_type rightNode = TableNode
         then diffTables ctx part leftNode leftIndex rightNode rightIndex
         else if cn_comparisonKey leftNode = cn_comparisonKey rightNode then
           if cn_rawText leftNode \<noteq> cn_rawText rightNode \<and> \<not> dx_ignoreWhitespace ctx then [replacement]
           else if \<not> dx_ignoreFormatting ctx \<and> cn_formatting leftNode \<noteq> None \<and> cn_formatting rightNode \<noteq> None \<and>
                   cn_formatting leftNode \<noteq> cn_formatting rightNode
           then [\<lparr>dr_kind = ReplaceChange, dr_nodeType = cn_type rightNode, dr_part = part,
                  dr_position = int rightIndex, dr_order = 0, dr_left = left, dr_right = right,
                  dr_before = Some (cn_rawText leftNode), dr_after = Some (cn_rawText rightNode),
                  dr_spans = Some (spans_of (cn_rawText leftNode) (cn_rawText rightNode)),
                  dr_signals = [FORMATTING_CHANGED], dr_confidence = scaled (dx_confidence ctx) similarity\<rparr>]
           else []
         else [replacement])"

subsection \<open>The walk over one part\<close>

datatype step =
  PairStep (st_left: nat) (st_right: nat) (st_similarity: rat)
| DeleteStep (st_left: nat) (st_position: int)
| InsertStep (st_right: nat)

definition UNSET_POSITION :: int where
  "UNSET_POSITION = - 1"

text \<open>The deletions at the end of the steps that have no position yet get one; the list is reversed.\<close>

fun fill_back :: "int \<Rightarrow> step list \<Rightarrow> step list" where
  "fill_back position (DeleteStep l p # steps) =
     (if p = UNSET_POSITION then DeleteStep l position # fill_back position steps else DeleteStep l p # steps)"
| "fill_back position steps = steps"

fun pair_steps :: "alignment_pair list \<Rightarrow> step list \<Rightarrow> nat list \<Rightarrow> nat list \<Rightarrow> step list \<times> nat list \<times> nat list" where
  "pair_steps [] steps rightOnly leftOnly = (steps, rightOnly, leftOnly)"
| "pair_steps (p # ps) steps rightOnly leftOnly =
     (let steps1 = steps @ map InsertStep (takeWhile (\<lambda>i. i < pr_right p) rightOnly);
          steps2 = steps1 @ map (\<lambda>i. DeleteStep i UNSET_POSITION) (takeWhile (\<lambda>i. i < pr_left p) leftOnly);
          steps3 = rev (fill_back (int (pr_right p)) (rev steps2))
      in pair_steps ps (steps3 @ [PairStep (pr_left p) (pr_right p) (pr_similarity p)])
           (dropWhile (\<lambda>i. i < pr_right p) rightOnly) (dropWhile (\<lambda>i. i < pr_left p) leftOnly))"

definition place_step :: "int \<Rightarrow> step \<Rightarrow> step" where
  "place_step position s =
     (case s of DeleteStep l p \<Rightarrow> if p = UNSET_POSITION then DeleteStep l position else s | _ \<Rightarrow> s)"

definition part_steps :: "sequence_alignment \<Rightarrow> nat \<Rightarrow> nat \<Rightarrow> step list" where
  "part_steps alignment lefts rights =
     (let (steps, rightOnly, leftOnly) = pair_steps (sa_pairs alignment) [] (sa_rightOnly alignment) (sa_leftOnly alignment)
      in map (place_step (int rights))
           (steps @ map InsertStep (takeWhile (\<lambda>i. i < rights) rightOnly)
            @ map (\<lambda>i. DeleteStep i UNSET_POSITION) (takeWhile (\<lambda>i. i < lefts) leftOnly)))"

definition deleted_nodes :: "step list \<Rightarrow> nat list" where
  "deleted_nodes steps = List.map_filter (\<lambda>s. case s of DeleteStep l _ \<Rightarrow> Some l | _ \<Rightarrow> None) steps"

definition inserted_nodes :: "step list \<Rightarrow> nat list" where
  "inserted_nodes steps = List.map_filter (\<lambda>s. case s of InsertStep r \<Rightarrow> Some r | _ \<Rightarrow> None) steps"

definition part_moves ::
    "diff_context \<Rightarrow> document_part \<Rightarrow> canonical_node list \<Rightarrow> canonical_node list \<Rightarrow> nat list \<Rightarrow> nat list \<Rightarrow>
     detected_move list \<times> nat list \<times> nat list" where
  "part_moves ctx part leftNodes rightNodes deletes inserts =
     (if dx_detectMoves ctx
      then detectMoves (map (\<lambda>i. moveHash part (cn_type (leftNodes ! i)) (cn_rawText (leftNodes ! i))) deletes)
             (map (\<lambda>i. moveHash part (cn_type (rightNodes ! i)) (cn_rawText (rightNodes ! i))) inserts)
      else ([], [0..<length deletes], [0..<length inserts]))"

text \<open>The drafts of the steps; \<open>d\<close> and \<open>i\<close> count the deletions and the insertions met so far.\<close>

fun step_drafts ::
    "diff_context \<Rightarrow> document_part \<Rightarrow> canonical_node list \<Rightarrow> canonical_node list \<Rightarrow> nat list \<Rightarrow>
     detected_move list \<times> nat list \<times> nat list \<Rightarrow> nat \<Rightarrow> nat \<Rightarrow> step list \<Rightarrow> draft list" where
  "step_drafts ctx part leftNodes rightNodes inserts mv d i [] = []"
| "step_drafts ctx part leftNodes rightNodes inserts mv d i (DeleteStep l position # steps) =
     (let (moves, deleted, inserted) = mv; from = leftNodes ! l in
      case map_of (rev (map (\<lambda>m. (mv_deleteIndex m, mv_insertIndex m)) moves)) d of
        Some moveTarget \<Rightarrow>
          (let rightIndex = inserts ! moveTarget; to = rightNodes ! rightIndex
           in [\<lparr>dr_kind = MoveChange, dr_nodeType = cn_type to, dr_part = part, dr_position = int rightIndex,
                dr_order = 0, dr_left = Some (l, locationOf from l),
                dr_right = Some (rightIndex, locationOf to rightIndex), dr_before = Some (cn_rawText from),
                dr_after = Some (cn_rawText to), dr_spans = None, dr_signals = [], dr_confidence = dx_confidence ctx\<rparr>])
      | None \<Rightarrow> if d \<notin> set deleted then []
                else [delete_draft ctx part (cn_type from) position (- 1) (l, locationOf from l) (cn_rawText from)])
     @ step_drafts ctx part leftNodes rightNodes inserts mv (d + 1) i steps"
| "step_drafts ctx part leftNodes rightNodes inserts mv d i (InsertStep r # steps) =
     (let (moves, deleted, inserted) = mv; node = rightNodes ! r in
      if i \<in> mv_insertIndex ` set moves \<or> i \<notin> set inserted then []
      else [insert_draft ctx part (cn_type node) (int r) 0 (r, locationOf node r) (cn_rawText node)])
     @ step_drafts ctx part leftNodes rightNodes inserts mv d (i + 1) steps"
| "step_drafts ctx part leftNodes rightNodes inserts mv d i (PairStep l r similarity # steps) =
     diffPair ctx part (leftNodes ! l) l (rightNodes ! r) r similarity
     @ step_drafts ctx part leftNodes rightNodes inserts mv d i steps"

definition diffPart :: "diff_context \<Rightarrow> document_part \<Rightarrow> canonical_node list \<Rightarrow> canonical_node list \<Rightarrow> draft list" where
  "diffPart ctx part leftNodes rightNodes =
     (let alignment = alignSequences significantTokens (map alignableOf leftNodes) (map alignableOf rightNodes) None None;
          steps = part_steps alignment (length leftNodes) (length rightNodes);
          deletes = deleted_nodes steps; inserts = inserted_nodes steps;
          mv = part_moves ctx part leftNodes rightNodes deletes inserts
      in sort_key (\<lambda>d. (dr_position d, dr_order d)) (step_drafts ctx part leftNodes rightNodes inserts mv 0 0 steps))"

subsection \<open>Identifiers and the whole document\<close>

definition opt_text :: "('a \<Rightarrow> string) \<Rightarrow> 'a option \<Rightarrow> string" where
  "opt_text f x = (case x of None \<Rightarrow> [] | Some a \<Rightarrow> f a)"

definition ID_LENGTH :: nat where
  "ID_LENGTH = 12"

definition change_shape :: "diff_context \<Rightarrow> draft \<Rightarrow> (nat \<times> nat \<times> nat) option \<Rightarrow> string" where
  "change_shape ctx d cell = join_with [CHR 0x00]
     [dx_leftSha ctx, dx_rightSha ctx, part_name (dr_part d), kind_name (dr_kind d),
      opt_text (nat_text \<circ> fst) (dr_left d), opt_text (nat_text \<circ> fst) (dr_right d),
      opt_text (\<lambda>(t, r, c). nat_text t @ '':'' @ nat_text r @ '':'' @ nat_text c) cell,
      opt_text id (dr_before d), opt_text id (dr_after d)]"

definition createChangeId :: "diff_context \<Rightarrow> draft \<Rightarrow> (nat \<times> nat \<times> nat) option \<Rightarrow> string" where
  "createChangeId ctx d cell = ''chg_'' @ take ID_LENGTH (dx_sha256 ctx (change_shape ctx d cell))"

definition change_cell :: "draft \<Rightarrow> (nat \<times> nat \<times> nat) option" where
  "change_cell d =
     (case dr_right d of
        None \<Rightarrow> None
      | Some (_, l) \<Rightarrow>
          (case (ns_table (lo_source l), ns_row (lo_source l), ns_column (lo_source l)) of
             (Some t, Some r, Some c) \<Rightarrow> Some (t, r, c) | _ \<Rightarrow> None))"

definition finalize :: "diff_context \<Rightarrow> draft \<Rightarrow> document_change" where
  "finalize ctx d =
     \<lparr>dc_id = createChangeId ctx d (change_cell d), dc_kind = dr_kind d, dc_nodeType = dr_nodeType d,
      dc_left = map_option snd (dr_left d), dc_right = map_option snd (dr_right d),
      dc_before = dr_before d, dc_after = dr_after d, dc_spans = dr_spans d,
      dc_headingPath = (case dr_right d of Some (_, l) \<Rightarrow> lo_headingPath l
        | None \<Rightarrow> (case dr_left d of Some (_, l) \<Rightarrow> lo_headingPath l | None \<Rightarrow> [])),
      dc_signals = dr_signals d, dc_confidence = dr_confidence d\<rparr>"

datatype compare_error = CompareTimeout

text \<open>The parts in order; the budget is checked before each of them, and running out of it ends the
  comparison.\<close>

fun diff_parts_of ::
    "diff_context \<Rightarrow> canonical_node list \<Rightarrow> canonical_node list \<Rightarrow> document_part list \<Rightarrow> compare_error + draft list" where
  "diff_parts_of ctx left right [] = Inr []"
| "diff_parts_of ctx left right (part # parts) =
     (if \<not> dx_inTime ctx part then Inl CompareTimeout
      else let leftNodes = nodesOfPart left part; rightNodes = nodesOfPart right part;
               drafts = (if leftNodes = [] \<and> rightNodes = [] then [] else diffPart ctx part leftNodes rightNodes)
           in case diff_parts_of ctx left right parts of Inl e \<Rightarrow> Inl e | Inr rest \<Rightarrow> Inr (drafts @ rest))"

definition diffDocuments :: "diff_context \<Rightarrow> canonical_node list \<Rightarrow> canonical_node list \<Rightarrow> compare_error + document_change list" where
  "diffDocuments ctx left right =
     (case diff_parts_of ctx left right DOCUMENT_PART_ORDER of Inl e \<Rightarrow> Inl e | Inr drafts \<Rightarrow> Inr (map (finalize ctx) drafts))"

end
