(* ===== verification/DiffFacts.thy ===== *)
theory DiffFacts
  imports DiffBlocks
begin

text \<open>
  Lemmas on the change generator: every draft with spans spells both of its texts, every node
  that is not paired is reported once, no draft means equal texts when the pairs do not cross, and
  a part compared with itself has no draft.
\<close>

subsection \<open>Drafts with spans\<close>

definition draft_spelled :: "draft \<Rightarrow> bool" where
  "draft_spelled d \<longleftrightarrow>
     (\<forall>spans. dr_spans d = Some spans \<longrightarrow>
        dr_before d = Some (side_text OpInsert spans) \<and> dr_after d = Some (side_text OpDelete spans))"

lemma grid_walk_all:
  assumes "\<And>o' i. P (ins o' i)" "\<And>o' i. P (del o' i)" "\<And>o' p d. p \<in> set ps \<Longrightarrow> d \<in> set (fst (both o' p)) \<Longrightarrow> P d"
    and "d \<in> set (grid_walk ins del both n ps order ro lo)"
  shows "P d"
  using assms
proof (induction ins del both n ps order ro lo rule: grid_walk.induct)
  case (1 ins del both n order ro lo)
  then show ?case by (auto simp: numbered_def Let_def)
next
  case (2 ins del both n p ps order ro lo)
  obtain drafts o' where b: "both (order + int (length (takeWhile (\<lambda>i. i < pr_right p) ro)) +
      int (length (takeWhile (\<lambda>i. i < pr_left p) lo))) p = (drafts, o')" by force
  have "P d" if "d \<in> set (grid_walk ins del both n ps o' (dropWhile (\<lambda>i. i < pr_right p) ro) (dropWhile (\<lambda>i. i < pr_left p) lo))"
    by (rule "2.IH" [OF refl refl b [symmetric] refl "2.prems"(1,2) _ that]) (use "2.prems"(3) in auto)
  moreover have "P d" if "d \<in> set drafts" using "2.prems"(3) [of p] b that by (metis fst_conv list.set_intros(1))
  ultimately show ?case using "2.prems"(1,2,4) b by (auto simp: numbered_def Let_def)
qed

lemma spelled_simps [simp]:
  "draft_spelled (replaceDraft ctx part before later left right nodeType similarity)"
  "draft_spelled ((replaceDraft ctx part before later left right nodeType similarity)\<lparr>dr_position := p, dr_order := q\<rparr>)"
  "draft_spelled (insert_draft ctx part nodeType position order r raw)"
  "draft_spelled (delete_draft ctx part nodeType position order l raw)"
  by (simp_all add: draft_spelled_def replaceDraft_def insert_draft_def delete_draft_def text_spans)

lemma row_cells_spelled: "d \<in> set (diffRowCells ctx part lt li rt ri lr rr order) \<Longrightarrow> draft_spelled d"
  unfolding diffRowCells_def Let_def by (erule grid_walk_all [rotated -1]) (auto split: if_splits)

lemma tables_spelled: "d \<in> set (diffTables ctx part lt li rt ri) \<Longrightarrow> draft_spelled d"
  unfolding diffTables_def Let_def by (erule grid_walk_all [rotated -1]) (auto intro: row_cells_spelled)

lemma pair_spelled: "d \<in> set (diffPair ctx part nl li nr ri s) \<Longrightarrow> draft_spelled d"
  by (auto simp: diffPair_def Let_def tables_spelled split: if_splits) (simp_all add: draft_spelled_def text_spans)

lemma steps_spelled:
  "d \<in> set (step_drafts ctx part nl nr inserts mv x y steps) \<Longrightarrow> draft_spelled d"
proof (induction ctx part nl nr inserts mv x y steps rule: step_drafts.induct)
  case (2 ctx part nl nr inserts mv x y l position steps)
  then show ?case by (auto simp: Let_def split: prod.splits option.splits if_splits) (simp_all add: draft_spelled_def)
next
  case (3 ctx part nl nr inserts mv x y r steps)
  then show ?case by (auto simp: Let_def split: prod.splits if_splits)
next
  case (4 ctx part nl nr inserts mv x y l r similarity steps)
  then show ?case using pair_spelled by auto
qed simp

lemma part_spelled: "d \<in> set (diffPart ctx part nl nr) \<Longrightarrow> draft_spelled d"
  using steps_spelled by (auto simp: diffPart_def Let_def)

subsection \<open>The steps\<close>

lemma nodes_simps [simp]:
  "deleted_nodes [] = []" "deleted_nodes (DeleteStep l p # steps) = l # deleted_nodes steps"
  "deleted_nodes (InsertStep r # steps) = deleted_nodes steps"
  "deleted_nodes (PairStep l r s # steps) = deleted_nodes steps"
  "deleted_nodes (steps @ steps') = deleted_nodes steps @ deleted_nodes steps'"
  "inserted_nodes [] = []" "inserted_nodes (DeleteStep l p # steps) = inserted_nodes steps"
  "inserted_nodes (InsertStep r # steps) = r # inserted_nodes steps"
  "inserted_nodes (PairStep l r s # steps) = inserted_nodes steps"
  "inserted_nodes (steps @ steps') = inserted_nodes steps @ inserted_nodes steps'"
  by (simp_all add: deleted_nodes_def inserted_nodes_def List.map_filter_def)

definition paired_nodes :: "step list \<Rightarrow> (nat \<times> nat \<times> rat) list" where
  "paired_nodes steps = List.map_filter (\<lambda>s. case s of PairStep l r q \<Rightarrow> Some (l, r, q) | _ \<Rightarrow> None) steps"

lemma paired_simps [simp]:
  "paired_nodes [] = []" "paired_nodes (DeleteStep l p # steps) = paired_nodes steps"
  "paired_nodes (InsertStep r # steps) = paired_nodes steps"
  "paired_nodes (PairStep l r s # steps) = (l, r, s) # paired_nodes steps"
  "paired_nodes (steps @ steps') = paired_nodes steps @ paired_nodes steps'"
  by (simp_all add: paired_nodes_def List.map_filter_def)

lemma fill_back_nodes [simp]:
  "deleted_nodes (rev (fill_back p steps)) = deleted_nodes (rev steps)"
  "inserted_nodes (rev (fill_back p steps)) = inserted_nodes (rev steps)"
  "paired_nodes (rev (fill_back p steps)) = paired_nodes (rev steps)"
  by (induction p steps rule: fill_back.induct) auto

lemma map_steps_nodes [simp]:
  "deleted_nodes (map InsertStep rs) = []" "inserted_nodes (map InsertStep rs) = rs" "paired_nodes (map InsertStep rs) = []"
  "deleted_nodes (map (\<lambda>i. DeleteStep i p) ls) = ls" "inserted_nodes (map (\<lambda>i. DeleteStep i p) ls) = []"
  "paired_nodes (map (\<lambda>i. DeleteStep i p) ls) = []"
proof -
  show "deleted_nodes (map InsertStep rs) = []" "inserted_nodes (map InsertStep rs) = rs" "paired_nodes (map InsertStep rs) = []"
    by (induction rs) auto
  show "deleted_nodes (map (\<lambda>i. DeleteStep i p) ls) = ls" "inserted_nodes (map (\<lambda>i. DeleteStep i p) ls) = []"
    "paired_nodes (map (\<lambda>i. DeleteStep i p) ls) = []" by (induction ls) auto
qed

lemma place_nodes [simp]:
  "deleted_nodes (map (place_step p) steps) = deleted_nodes steps"
  "inserted_nodes (map (place_step p) steps) = inserted_nodes steps"
  "paired_nodes (map (place_step p) steps) = paired_nodes steps"
proof -
  have "deleted_nodes (map (place_step p) steps) = deleted_nodes steps \<and>
    inserted_nodes (map (place_step p) steps) = inserted_nodes steps \<and>
    paired_nodes (map (place_step p) steps) = paired_nodes steps"
  proof (induction steps)
    case (Cons s steps)
    then show ?case by (cases s) (auto simp: place_step_def)
  qed simp
  then show "deleted_nodes (map (place_step p) steps) = deleted_nodes steps"
    "inserted_nodes (map (place_step p) steps) = inserted_nodes steps"
    "paired_nodes (map (place_step p) steps) = paired_nodes steps" by simp_all
qed

lemma pair_steps_nodes:
  "pair_steps ps steps ro lo = (steps', ro', lo') \<Longrightarrow>
   deleted_nodes steps' @ lo' = deleted_nodes steps @ lo \<and>
   inserted_nodes steps' @ ro' = inserted_nodes steps @ ro \<and>
   paired_nodes steps' = paired_nodes steps @ map (\<lambda>p. (pr_left p, pr_right p, pr_similarity p)) ps"
proof (induction ps steps ro lo rule: pair_steps.induct)
  case (2 p ps steps ro lo)
  show ?case
    using "2.IH" [OF refl refl refl] "2.prems" takeWhile_dropWhile_id [of "\<lambda>i. i < pr_right p" ro]
      takeWhile_dropWhile_id [of "\<lambda>i. i < pr_left p" lo]
    by (auto simp: Let_def)
qed simp

lemma part_steps_nodes:
  assumes "\<And>l. l \<in> set (sa_leftOnly a) \<Longrightarrow> l < m" "\<And>r. r \<in> set (sa_rightOnly a) \<Longrightarrow> r < n"
  shows "deleted_nodes (part_steps a m n) = sa_leftOnly a" "inserted_nodes (part_steps a m n) = sa_rightOnly a"
    "paired_nodes (part_steps a m n) = map (\<lambda>p. (pr_left p, pr_right p, pr_similarity p)) (sa_pairs a)"
proof -
  obtain steps ro lo where r: "pair_steps (sa_pairs a) [] (sa_rightOnly a) (sa_leftOnly a) = (steps, ro, lo)"
    by (metis prod_cases3)
  note S = pair_steps_nodes [OF r]
  have D: "deleted_nodes steps @ lo = sa_leftOnly a" and I: "inserted_nodes steps @ ro = sa_rightOnly a" using S by simp_all
  have "\<forall>i \<in> set lo. i < m" "\<forall>i \<in> set ro. i < n" using assms unfolding D [symmetric] I [symmetric] by auto
  then have tw: "takeWhile (\<lambda>i. i < n) ro = ro" "takeWhile (\<lambda>i. i < m) lo = lo" by simp_all
  show "deleted_nodes (part_steps a m n) = sa_leftOnly a" "inserted_nodes (part_steps a m n) = sa_rightOnly a"
    "paired_nodes (part_steps a m n) = map (\<lambda>p. (pr_left p, pr_right p, pr_similarity p)) (sa_pairs a)"
    using S by (simp_all only: part_steps_def r Let_def split_conv place_nodes nodes_simps paired_simps map_steps_nodes tw append_Nil append_Nil2)
qed

subsection \<open>Every unpaired node is reported once\<close>

text \<open>The drafts on whole nodes: those of rows and cells come from inside a pair of tables.\<close>

definition node_draft :: "draft \<Rightarrow> bool" where
  "node_draft d \<longleftrightarrow> dr_nodeType d \<noteq> TableRowNode \<and> dr_nodeType d \<noteq> TableCellNode"

definition removed_of :: "draft list \<Rightarrow> nat list" where
  "removed_of ds = map (\<lambda>d. fst (the (dr_left d))) (filter (\<lambda>d. node_draft d \<and> dr_kind d \<in> {DeleteChange, MoveChange}) ds)"

definition added_of :: "draft list \<Rightarrow> nat list" where
  "added_of ds = map (\<lambda>d. fst (the (dr_right d))) (filter (\<lambda>d. node_draft d \<and> dr_kind d \<in> {InsertChange, MoveChange}) ds)"

lemma of_simps [simp]:
  "removed_of [] = []" "removed_of (ds @ es) = removed_of ds @ removed_of es"
  "added_of [] = []" "added_of (ds @ es) = added_of ds @ added_of es"
  by (simp_all add: removed_of_def added_of_def)

lemma of_sort: "mset (removed_of (sort_key f ds)) = mset (removed_of ds)" "mset (added_of (sort_key f ds)) = mset (added_of ds)"
  by (simp_all add: removed_of_def added_of_def mset_filter)

definition inner_draft :: "draft \<Rightarrow> bool" where
  "inner_draft d \<longleftrightarrow> dr_kind d = ReplaceChange \<or> \<not> node_draft d"

lemma row_cells_inner: "d \<in> set (diffRowCells ctx part lt li rt ri lr rr order) \<Longrightarrow> inner_draft d"
  unfolding diffRowCells_def Let_def
  by (erule grid_walk_all [rotated -1]) (auto simp: inner_draft_def node_draft_def insert_draft_def delete_draft_def replaceDraft_def split: if_splits)

lemma tables_inner: "d \<in> set (diffTables ctx part lt li rt ri) \<Longrightarrow> inner_draft d"
  unfolding diffTables_def Let_def
  by (erule grid_walk_all [rotated -1]) (auto simp: insert_draft_def delete_draft_def inner_draft_def [of "\<lparr>dr_kind = _, dr_nodeType = _, dr_part = _, dr_position = _, dr_order = _, dr_left = _, dr_right = _, dr_before = _, dr_after = _, dr_spans = _, dr_signals = _, dr_confidence = _\<rparr>"] node_draft_def intro: row_cells_inner)

lemma pair_inner: "d \<in> set (diffPair ctx part nl li nr ri s) \<Longrightarrow> inner_draft d"
  by (auto simp: diffPair_def Let_def tables_inner split: if_splits) (simp_all add: inner_draft_def replaceDraft_def)

lemma inner_none:
  assumes "\<And>d. d \<in> set ds \<Longrightarrow> inner_draft d"
  shows "removed_of ds = [] \<and> added_of ds = []"
proof -
  have "filter (\<lambda>d. node_draft d \<and> dr_kind d \<in> K) ds = []" if "ReplaceChange \<notin> K" for K
    unfolding filter_empty_conv using assms that unfolding inner_draft_def by metis
  from this [of "{DeleteChange, MoveChange}"] this [of "{InsertChange, MoveChange}"] show ?thesis
    by (simp add: removed_of_def added_of_def)
qed

definition whole_nodes :: "canonical_node list \<Rightarrow> bool" where
  "whole_nodes ns \<longleftrightarrow> (\<forall>n \<in> set ns. cn_type n \<noteq> TableRowNode \<and> cn_type n \<noteq> TableCellNode)"

text \<open>The target of each moved deletion.\<close>

definition move_target :: "detected_move list \<Rightarrow> nat \<Rightarrow> nat option" where
  "move_target moves = map_of (rev (map (\<lambda>m. (mv_deleteIndex m, mv_insertIndex m)) moves))"

lemma steps_removed:
  assumes "whole_nodes nl" "whole_nodes nr" "\<And>l. l \<in> set (deleted_nodes steps) \<Longrightarrow> l < length nl"
    and "\<And>k j. move_target moves k = Some j \<Longrightarrow> inserts ! j < length nr"
    and "\<And>k. d \<le> k \<Longrightarrow> k < d + length (deleted_nodes steps) \<Longrightarrow> move_target moves k \<noteq> None \<or> k \<in> set deleted"
  shows "removed_of (step_drafts ctx part nl nr inserts (moves, deleted, inserted) d i steps) = deleted_nodes steps"
  using assms(3,5)
proof (induction steps arbitrary: d i)
  case (Cons s steps)
  show ?case
  proof (cases s)
    case (PairStep l r q)
    have "removed_of (diffPair ctx part (nl ! l) l (nr ! r) r q) = []" using inner_none pair_inner by blast
    moreover have "removed_of (step_drafts ctx part nl nr inserts (moves, deleted, inserted) d i steps) = deleted_nodes steps"
      using Cons.prems by (intro Cons.IH) (simp_all add: PairStep)
    ultimately show ?thesis by (simp add: PairStep)
  next
    case (DeleteStep l p)
    have IH: "removed_of (step_drafts ctx part nl nr inserts (moves, deleted, inserted) (d + 1) i steps) = deleted_nodes steps"
      using Cons.prems by (intro Cons.IH) (simp_all add: DeleteStep)
    have t: "node_draft (x\<lparr>dr_nodeType := cn_type (nl ! l)\<rparr>)" for x
      using assms(1) Cons.prems(1) [of l] by (auto simp: node_draft_def whole_nodes_def DeleteStep)
    show ?thesis
    proof (cases "move_target moves d")
      case (Some j)
      have "nr ! (inserts ! j) \<in> set nr" using assms(4) [OF Some] by simp
      then show ?thesis using IH Some assms(2)
        by (auto simp: DeleteStep move_target_def removed_of_def node_draft_def whole_nodes_def Let_def)
    next
      case None
      then have "d \<in> set deleted" using Cons.prems(2) [of d] by (simp add: DeleteStep)
      then show ?thesis using IH None t [of undefined]
        by (simp add: DeleteStep move_target_def removed_of_def node_draft_def Let_def delete_draft_def)
    qed
  next
    case (InsertStep r)
    have "removed_of (step_drafts ctx part nl nr inserts (moves, deleted, inserted) d (i + 1) steps) = deleted_nodes steps"
      using Cons.prems by (intro Cons.IH) (simp_all add: InsertStep)
    then show ?thesis by (simp add: InsertStep Let_def) (simp add: removed_of_def insert_draft_def)
  qed
qed simp

lemma steps_added:
  assumes "whole_nodes nr" "\<And>r. r \<in> set (inserted_nodes steps) \<Longrightarrow> r < length nr"
    and "\<And>k j. move_target moves k = Some j \<Longrightarrow> inserts ! j < length nr"
  shows "mset (added_of (step_drafts ctx part nl nr inserts (moves, deleted, inserted) d i steps)) =
    mset (map (\<lambda>j. inserts ! j) (List.map_filter (move_target moves) [d..<d + length (deleted_nodes steps)])) +
    mset (map snd (filter (\<lambda>(k, r). k \<notin> mv_insertIndex ` set moves \<and> k \<in> set inserted) (List.enumerate i (inserted_nodes steps))))"
  using assms(2)
proof (induction steps arbitrary: d i)
  case Nil
  then show ?case by (simp add: List.map_filter_def)
next
  case (Cons s steps)
  show ?case
  proof (cases s)
    case (PairStep l r q)
    have "added_of (diffPair ctx part (nl ! l) l (nr ! r) r q) = []" using inner_none pair_inner by blast
    then show ?thesis using Cons.IH [of d i] Cons.prems by (simp add: PairStep)
  next
    case (DeleteStep l p)
    have IH: "mset (added_of (step_drafts ctx part nl nr inserts (moves, deleted, inserted) (d + 1) i steps)) =
      mset (map (\<lambda>j. inserts ! j) (List.map_filter (move_target moves) [Suc d..<Suc d + length (deleted_nodes steps)])) +
      mset (map snd (filter (\<lambda>(k, r). k \<notin> mv_insertIndex ` set moves \<and> k \<in> set inserted) (List.enumerate i (inserted_nodes steps))))"
      using Cons.IH [of "d + 1" i] Cons.prems by (simp add: DeleteStep)
    have u: "[d..<d + length (deleted_nodes (s # steps))] = d # [Suc d..<Suc d + length (deleted_nodes steps)]"
      by (simp add: DeleteStep upt_conv_Cons del: upt_Suc)
    show ?thesis
    proof (cases "move_target moves d")
      case (Some j)
      have "nr ! (inserts ! j) \<in> set nr" using assms(3) [OF Some] by simp
      then have "cn_type (nr ! (inserts ! j)) \<noteq> TableRowNode \<and> cn_type (nr ! (inserts ! j)) \<noteq> TableCellNode"
        using assms(1) by (auto simp: whole_nodes_def)
      then show ?thesis using IH Some unfolding u
        by (simp add: DeleteStep move_target_def Let_def List.map_filter_simps) (simp add: added_of_def node_draft_def)
    next
      case None
      then show ?thesis using IH unfolding u
        by (simp add: DeleteStep move_target_def Let_def List.map_filter_simps) (simp add: added_of_def delete_draft_def)
    qed
  next
    case (InsertStep r)
    have "nr ! r \<in> set nr" using Cons.prems [of r] by (simp add: InsertStep)
    then have "cn_type (nr ! r) \<noteq> TableRowNode \<and> cn_type (nr ! r) \<noteq> TableCellNode"
      using assms(1) by (auto simp: whole_nodes_def)
    then show ?thesis using Cons.IH [of d "i + 1"] Cons.prems
      by (simp add: InsertStep Let_def) (simp add: added_of_def insert_draft_def node_draft_def)
  qed
qed

lemma part_moves_spec:
  assumes "part_moves ctx part nl nr deletes inserts = (moves, deleted, inserted)"
  shows "mset (map mv_deleteIndex moves @ deleted) = mset [0..<length deletes]"
    and "mset (map mv_insertIndex moves @ inserted) = mset [0..<length inserts]"
  using assms detect_moves_spec(1,2) [of "map (\<lambda>i. moveHash part (cn_type (nl ! i)) (cn_rawText (nl ! i))) deletes"
      "map (\<lambda>i. moveHash part (cn_type (nr ! i)) (cn_rawText (nr ! i))) inserts" moves deleted inserted]
  by (auto simp: part_moves_def split: if_splits)

lemma map_filter_map_of:
  assumes "distinct (map fst kvs)" "set (map fst kvs) \<subseteq> set ks" "distinct ks"
  shows "mset (List.map_filter (map_of kvs) ks) = mset (map snd kvs)"
proof -
  have "set (filter (\<lambda>k. map_of kvs k \<noteq> None) ks) = set (map fst kvs)"
    using assms(2) by (auto simp: map_of_eq_None_iff)
  then have "mset (filter (\<lambda>k. map_of kvs k \<noteq> None) ks) = mset (map fst kvs)"
    using assms by (metis distinct_filter set_eq_iff_mset_eq_distinct)
  then have "mset (List.map_filter (map_of kvs) ks) = mset (map (\<lambda>k. the (map_of kvs k)) (map fst kvs))"
    unfolding List.map_filter_def comp_def mset_map by simp
  also have "map (\<lambda>k. the (map_of kvs k)) (map fst kvs) = map snd kvs"
    using assms(1) by (auto simp: map_of_is_SomeI)
  finally show ?thesis .
qed

lemma enumerate_map: "List.enumerate 0 xs = map (\<lambda>k. (k, xs ! k)) [0..<length xs]"
  by (rule nth_equalityI) (simp_all add: nth_enumerate_eq)

abbreviation part_alignment :: "canonical_node list \<Rightarrow> canonical_node list \<Rightarrow> sequence_alignment" where
  "part_alignment nl nr \<equiv> alignSequences significantTokens (map alignableOf nl) (map alignableOf nr) None None"

lemma part_nodes:
  shows "l \<in> set (sa_leftOnly (part_alignment nl nr)) \<Longrightarrow> l < length nl"
    and "r \<in> set (sa_rightOnly (part_alignment nl nr)) \<Longrightarrow> r < length nr"
proof -
  have "set (map pr_left (sa_pairs (part_alignment nl nr)) @ sa_leftOnly (part_alignment nl nr)) = set [0..<length nl]"
    "set (map pr_right (sa_pairs (part_alignment nl nr)) @ sa_rightOnly (part_alignment nl nr)) = set [0..<length nr]"
    using align_nodes(1,2) [OF refl, of significantTokens "map alignableOf nl" "map alignableOf nr" None None]
    by (metis length_map set_mset_mset)+
  then show "l \<in> set (sa_leftOnly (part_alignment nl nr)) \<Longrightarrow> l < length nl"
    "r \<in> set (sa_rightOnly (part_alignment nl nr)) \<Longrightarrow> r < length nr" by auto
qed

lemma part_accounts:
  assumes w: "whole_nodes nl" "whole_nodes nr"
  shows "mset (removed_of (diffPart ctx part nl nr)) = mset (sa_leftOnly (part_alignment nl nr))"
    and "mset (added_of (diffPart ctx part nl nr)) = mset (sa_rightOnly (part_alignment nl nr))"
proof -
  let ?a = "part_alignment nl nr"
  let ?steps = "part_steps ?a (length nl) (length nr)"
  let ?dels = "sa_leftOnly ?a" let ?inserts = "sa_rightOnly ?a"
  have n: "deleted_nodes ?steps = ?dels" "inserted_nodes ?steps = ?inserts"
    using part_steps_nodes [of ?a "length nl" "length nr"] part_nodes by simp_all
  obtain moves deleted inserted where m: "part_moves ctx part nl nr ?dels ?inserts = (moves, deleted, inserted)"
    by (metis prod_cases3)
  note M = part_moves_spec [OF m]
  have dp: "diffPart ctx part nl nr = sort_key (\<lambda>d. (dr_position d, dr_order d))
      (step_drafts ctx part nl nr ?inserts (moves, deleted, inserted) 0 0 ?steps)"
    by (simp add: diffPart_def Let_def n m)
  have dist: "distinct (map mv_deleteIndex moves @ deleted)" "distinct (map mv_insertIndex moves @ inserted)"
    and sets: "set (map mv_deleteIndex moves @ deleted) = {0..<length ?dels}"
      "set (map mv_insertIndex moves @ inserted) = {0..<length ?inserts}"
    using M mset_eq_imp_distinct_iff by (metis distinct_upt, metis distinct_upt, metis atLeastLessThan_upt set_mset_mset, metis atLeastLessThan_upt set_mset_mset)
  let ?kvs = "rev (map (\<lambda>m. (mv_deleteIndex m, mv_insertIndex m)) moves)"
  have kv: "distinct (map fst ?kvs)" "set (map fst ?kvs) \<subseteq> set [0..<length ?dels]"
    using dist(1) sets(1) by (auto simp: rev_map [symmetric] comp_def)
  have inr: "?inserts ! j < length nr" if "move_target moves k = Some j" for k j
  proof -
    have "j \<in> set (map mv_insertIndex moves)" using map_of_SomeD [OF that [unfolded move_target_def]] by auto
    then have "j < length ?inserts" using sets(2) by auto
    then show ?thesis by (intro part_nodes(2) [OF nth_mem])
  qed
  have cov: "move_target moves k \<noteq> None \<or> k \<in> set deleted" if "k < length ?dels" for k
    using sets(1) that unfolding move_target_def by (auto simp: map_of_eq_None_iff image_iff)
  show "mset (removed_of (diffPart ctx part nl nr)) = mset ?dels"
    unfolding dp of_sort by (subst steps_removed [OF w]) (use part_nodes(1) inr cov n in auto)
  have "mset (added_of (diffPart ctx part nl nr)) =
      mset (map (\<lambda>j. ?inserts ! j) (List.map_filter (move_target moves) [0..<length ?dels])) +
      mset (map snd (filter (\<lambda>(k, r). k \<notin> mv_insertIndex ` set moves \<and> k \<in> set inserted) (List.enumerate 0 ?inserts)))"
    unfolding dp of_sort using steps_added [OF w(2), of ?steps moves ?inserts ctx part nl deleted inserted 0 0] part_nodes(2) inr n
    by simp
  also have "mset (map (\<lambda>j. ?inserts ! j) (List.map_filter (move_target moves) [0..<length ?dels])) =
      mset (map (\<lambda>j. ?inserts ! j) (map mv_insertIndex moves))"
    using map_filter_map_of [OF kv distinct_upt] unfolding move_target_def mset_map by (simp add: comp_def rev_map [symmetric] multiset.map_comp)
  also have "map snd (filter (\<lambda>(k, r). k \<notin> mv_insertIndex ` set moves \<and> k \<in> set inserted) (List.enumerate 0 ?inserts)) =
      map (\<lambda>j. ?inserts ! j) (filter (\<lambda>k. k \<notin> mv_insertIndex ` set moves \<and> k \<in> set inserted) [0..<length ?inserts])"
    unfolding enumerate_map filter_map map_map comp_def by simp
  also have "mset (map (\<lambda>j. ?inserts ! j) (filter (\<lambda>k. k \<notin> mv_insertIndex ` set moves \<and> k \<in> set inserted) [0..<length ?inserts])) =
      mset (map (\<lambda>j. ?inserts ! j) inserted)"
  proof -
    have "set (filter (\<lambda>k. k \<notin> mv_insertIndex ` set moves \<and> k \<in> set inserted) [0..<length ?inserts]) = set inserted"
      using dist(2) sets(2) by auto
    then have "mset (filter (\<lambda>k. k \<notin> mv_insertIndex ` set moves \<and> k \<in> set inserted) [0..<length ?inserts]) = mset inserted"
      using dist(2) by (metis distinct_append distinct_filter distinct_upt set_eq_iff_mset_eq_distinct)
    then show ?thesis unfolding mset_map by simp
  qed
  also have "mset (map (\<lambda>j. ?inserts ! j) (map mv_insertIndex moves)) + mset (map (\<lambda>j. ?inserts ! j) inserted) =
      mset (map (\<lambda>j. ?inserts ! j) [0..<length ?inserts])"
    using M(2) unfolding mset_map by (metis image_mset_union mset_append mset_map)
  also have "map (\<lambda>j. ?inserts ! j) [0..<length ?inserts] = ?inserts" by (rule map_nth)
  finally show "mset (added_of (diffPart ctx part nl nr)) = mset ?inserts" .
qed

subsection \<open>No draft means equal texts\<close>

lemma pair_silent:
  assumes "diffPair ctx part a i b j s = []" "cn_type a \<noteq> TableNode"
  shows "cn_comparisonKey a = cn_comparisonKey b" "dx_ignoreWhitespace ctx \<or> cn_rawText a = cn_rawText b"
  using assms by (auto simp: diffPair_def Let_def split: if_splits)

lemma steps_silent:
  "step_drafts ctx part nl nr inserts mv d i steps = [] \<Longrightarrow> (l, r, s) \<in> set (paired_nodes steps) \<Longrightarrow>
   diffPair ctx part (nl ! l) l (nr ! r) r s = []"
proof (induction steps arbitrary: d i)
  case (Cons x steps)
  then show ?case by (cases x) auto
qed simp

lemma part_silent:
  assumes w: "whole_nodes nl" "whole_nodes nr" and nt: "\<And>n. n \<in> set nl \<Longrightarrow> cn_type n \<noteq> TableNode"
    and silent: "diffPart ctx part nl nr = []"
    and straight: "sorted (map pr_right (sa_pairs (part_alignment nl nr)))"
  shows "map cn_comparisonKey nl = map cn_comparisonKey nr"
    and "dx_ignoreWhitespace ctx \<or> map cn_rawText nl = map cn_rawText nr"
proof -
  let ?a = "part_alignment nl nr"
  have none: "sa_leftOnly ?a = []" "sa_rightOnly ?a = []"
    using part_accounts [OF w, of ctx part] unfolding silent by simp_all
  have "map pr_left (sa_pairs ?a) = [0..<length nl]"
    using align_nodes(1,3) [OF refl, of significantTokens "map alignableOf nl" "map alignableOf nr" None None] none
    by (metis append_Nil2 length_map properties_for_sort sorted_upt)
  moreover have "map pr_right (sa_pairs ?a) = [0..<length nr]"
    using align_nodes(2) [OF refl, of significantTokens "map alignableOf nl" "map alignableOf nr" None None] none straight
    by (metis append_Nil2 length_map properties_for_sort sorted_upt)
  ultimately have L: "map pr_left (sa_pairs ?a) = [0..<length nl]" and R: "map pr_right (sa_pairs ?a) = [0..<length nl]"
    and len: "length nl = length nr" by (metis length_map length_upt diff_zero)+
  obtain mv inserts where "step_drafts ctx part nl nr inserts mv 0 0 (part_steps ?a (length nl) (length nr)) = []"
  proof -
    have "sort_key f ds = [] \<Longrightarrow> ds = []" for f :: "draft \<Rightarrow> int \<times> int" and ds by (metis length_0_conv length_sort)
    then show thesis using silent that unfolding diffPart_def Let_def by blast
  qed
  moreover have "paired_nodes (part_steps ?a (length nl) (length nr)) = map (\<lambda>p. (pr_left p, pr_right p, pr_similarity p)) (sa_pairs ?a)"
    using part_nodes by (intro part_steps_nodes(3)) simp_all
  ultimately have quiet: "diffPair ctx part (nl ! pr_left p) (pr_left p) (nr ! pr_right p) (pr_right p) (pr_similarity p) = []"
    if "p \<in> set (sa_pairs ?a)" for p using steps_silent that by fastforce
  have same: "cn_comparisonKey (nl ! i) = cn_comparisonKey (nr ! i) \<and> (dx_ignoreWhitespace ctx \<or> cn_rawText (nl ! i) = cn_rawText (nr ! i))"
    if i: "i < length nl" for i
  proof -
    have n: "length (sa_pairs ?a) = length nl" using arg_cong [OF L, of length] by simp
    let ?p = "sa_pairs ?a ! i"
    have "pr_left ?p = i" "pr_right ?p = i"
      using arg_cong [OF L, of "\<lambda>xs. xs ! i"] arg_cong [OF R, of "\<lambda>xs. xs ! i"] i n by simp_all
    then show ?thesis using quiet [of ?p] pair_silent nt i n by (metis nth_mem)
  qed
  show "map cn_comparisonKey nl = map cn_comparisonKey nr"
    by (rule nth_equalityI) (use len same in simp_all)
  show "dx_ignoreWhitespace ctx \<or> map cn_rawText nl = map cn_rawText nr"
  proof (cases "dx_ignoreWhitespace ctx")
    case False
    then have "map cn_rawText nl = map cn_rawText nr" by (intro nth_equalityI) (use len same in simp_all)
    then show ?thesis ..
  qed simp
qed

subsection \<open>A document compared with itself\<close>

lemma default_options: "align_options None None = (REPLACE_THRESHOLD, CROSS_TYPE_THRESHOLD)" "REPLACE_THRESHOLD \<le> 1"
  by (simp_all add: align_options_def REPLACE_THRESHOLD_def)

lemmas self_alignment = align_self [OF default_options]

lemma grid_walk_silent:
  "(\<And>o' p. p \<in> set ps \<Longrightarrow> fst (both o' p) = []) \<Longrightarrow> grid_walk ins del both n ps order [] [] = []"
proof (induction ps arbitrary: order)
  case (Cons p ps)
  obtain ds o' where b: "both order p = (ds, o')" by force
  then have "ds = []" using Cons.prems [of p order] by simp
  then show ?case using Cons b by (simp add: numbered_def Let_def)
qed (simp add: numbered_def Let_def)

lemma row_cells_self: "diffRowCells ctx part lt li rt ri row row order = []"
proof -
  have s: "alignSequences significantTokens (map cellAlignable (tr_cells row)) (map cellAlignable (tr_cells row)) None None =
     \<lparr>sa_pairs = map (\<lambda>i. \<lparr>pr_left = i, pr_right = i, pr_similarity = 1\<rparr>) [0..<length (tr_cells row)], sa_leftOnly = [], sa_rightOnly = []\<rparr>"
    using self_alignment [of significantTokens "map cellAlignable (tr_cells row)"] by simp
  show ?thesis unfolding diffRowCells_def Let_def s sequence_alignment.simps
    by (rule grid_walk_silent) auto
qed

lemma tables_self: "diffTables ctx part t i t j = []"
proof -
  have s: "alignSequences significantTokens (map rowAlignable (table_rows t)) (map rowAlignable (table_rows t)) None None =
     \<lparr>sa_pairs = map (\<lambda>i. \<lparr>pr_left = i, pr_right = i, pr_similarity = 1\<rparr>) [0..<length (table_rows t)], sa_leftOnly = [], sa_rightOnly = []\<rparr>"
    using self_alignment [of significantTokens "map rowAlignable (table_rows t)"] by simp
  show ?thesis unfolding diffTables_def Let_def s sequence_alignment.simps
    by (rule grid_walk_silent) (auto simp: row_cells_self)
qed

lemma pair_self: "diffPair ctx part n i n j s = []"
  by (auto simp: diffPair_def Let_def tables_self)

lemma steps_diagonal:
  "deleted_nodes steps = [] \<Longrightarrow> inserted_nodes steps = [] \<Longrightarrow> \<forall>(l, r, s) \<in> set (paired_nodes steps). l = r \<Longrightarrow>
   step_drafts ctx part ns ns inserts mv d i steps = []"
proof (induction steps arbitrary: d i)
  case (Cons x steps)
  then show ?case by (cases x) (auto simp: pair_self)
qed simp

lemma part_self: "diffPart ctx part ns ns = []"
proof -
  have s: "part_alignment ns ns =
     \<lparr>sa_pairs = map (\<lambda>i. \<lparr>pr_left = i, pr_right = i, pr_similarity = 1\<rparr>) [0..<length ns], sa_leftOnly = [], sa_rightOnly = []\<rparr>"
    using self_alignment [of significantTokens "map alignableOf ns"] by simp
  have "step_drafts ctx part ns ns x mv 0 0 (part_steps (part_alignment ns ns) (length ns) (length ns)) = []" for x mv
    by (rule steps_diagonal) (use part_nodes in \<open>subst part_steps_nodes; simp add: s\<close>)+
  then show ?thesis by (simp add: diffPart_def Let_def)
qed

lemma parts_self: "(\<And>p. p \<in> set parts \<Longrightarrow> dx_inTime ctx p) \<Longrightarrow> diff_parts_of ctx ns ns parts = Inr []"
  by (induction parts) (simp_all add: part_self Let_def)

end
