(* ===== verification/DiffProperties.thy ===== *)
theory DiffProperties
  imports DiffFacts "HOL-Library.Code_Target_Nat"
begin

text \<open>
  The properties of the document comparison: what the diff of two texts and the alignment of two
  node sequences promise, and what a change set says about two documents. The samples are
  paragraphs of the body and small tables; \<open>Code_Target_Nat\<close> lets the simplifier compare with the
  work limits of the code.
\<close>

definition no_source :: node_source where
  "no_source = \<lparr>ns_page = None, ns_paragraph = None, ns_table = None, ns_row = None, ns_column = None, ns_xmlPath = None\<rparr>"

definition sample_para :: "string \<Rightarrow> canonical_node" where
  "sample_para tx = \<lparr>cn_type = ParagraphNode, cn_part = BodyPart, cn_path = [], cn_rawText = tx, cn_comparisonKey = tx,
     cn_source = no_source, cn_formatting = None, cn_table = None\<rparr>"

definition sample_context :: diff_context where
  "sample_context = \<lparr>dx_leftSha = ''l'', dx_rightSha = ''r'', dx_detectMoves = True, dx_ignoreWhitespace = False,
     dx_ignoreFormatting = False, dx_confidence = 1, dx_inTime = (\<lambda>_. True), dx_detectSignals = (\<lambda>_ _. []), dx_sha256 = id\<rparr>"

definition sample_row :: "string list \<Rightarrow> table_row" where
  "sample_row cs = \<lparr>tr_row = 0,
     tr_cells = map (\<lambda>c. \<lparr>tc_column = 0, tc_rawText = c, tc_comparisonKey = c, tc_source = no_source\<rparr>) cs,
     tr_rawText = concat cs, tr_comparisonKey = concat cs\<rparr>"

definition sample_table :: "string list list \<Rightarrow> canonical_node" where
  "sample_table rows = (sample_para [])\<lparr>cn_type := TableNode, cn_table := Some (map sample_row rows)\<rparr>"

text \<open>C24: the spans of a reported change spell both of its texts: read without its insertions
  they are the text before, read without its deletions the text after.\<close>

theorem spans_reassemble:
  assumes "d \<in> set (diffPart ctx part left right)" "dr_spans d = Some spans"
  shows "dr_before d = Some (side_text OpInsert spans) \<and> dr_after d = Some (side_text OpDelete spans)"
  using part_spelled [OF assms(1)] assms(2) by (simp_all add: draft_spelled_def)

definition sample_edit :: draft where
  "sample_edit = hd (diffPart sample_context BodyPart [sample_para ''one two ten''] [sample_para ''one six ten''])"

theorem spans_reassemble_witness:
  "dr_before sample_edit = Some (side_text OpInsert (the (dr_spans sample_edit)))
   \<and> dr_before sample_edit = Some ''one two ten''"
proof -
  have e: "diffPart sample_context BodyPart [sample_para ''one two ten''] [sample_para ''one six ten''] = [sample_edit]"
    "dr_spans sample_edit \<noteq> None" by code_simp+
  have "dr_before sample_edit = Some (side_text OpInsert (the (dr_spans sample_edit)))"
    by (rule spans_reassemble [THEN conjunct1, of _ sample_context BodyPart "[sample_para ''one two ten'']" "[sample_para ''one six ten'']"])
      (use e in auto)
  moreover have "dr_before sample_edit = Some ''one two ten''" by code_simp
  ultimately show ?thesis by simp
qed

text \<open>C25: the token diff is minimal: unless the changed middle is larger than the table may be, it
  keeps as many tokens as a longest common subsequence of the two token lists has.\<close>

theorem diff_keeps_most:
  assumes "subseq zs xs" "subseq zs ys"
    and "(length xs - commonPrefixLength xs ys - commonSuffixLength xs ys (commonPrefixLength xs ys)) *
      (length ys - commonPrefixLength xs ys - commonSuffixLength xs ys (commonPrefixLength xs ys)) \<le> MAX_DIFF_CELLS"
  shows "fits (script (diffTokens xs ys)) xs ys \<and> length zs \<le> count_list (script (diffTokens xs ys)) OpEqual"
  using diffTokens_ok [of xs ys] lcs_upper [OF assms(1,2)] assms(3) by simp_all

theorem diff_keeps_most_witness: "2 \<le> count_list (script (diffTokens [1, 2, 3, 4] [2, 9, 4 :: nat])) OpEqual"
proof -
  have "subseq [2, 4] [1, 2, 3, 4 :: nat]" "subseq [2, 4] [2, 9, 4 :: nat]" by simp_all
  from diff_keeps_most [OF this, THEN conjunct2] have "length [2, 4 :: nat] \<le> count_list (script (diffTokens [1, 2, 3, 4] [2, 9, 4 :: nat])) OpEqual"
    by (simp add: commonSuffixLength_def MAX_DIFF_CELLS_def)
  then show ?thesis by simp
qed

text \<open>C26: the two-row table of the edit distance computes the least number of insertions, deletions
  and substitutions that turn one text into the other.\<close>

theorem edit_distance_least:
  "edits (editDistance xs ys) xs ys \<and> (edits n xs ys \<longrightarrow> editDistance xs ys \<le> n)"
  using lev_edits [of xs ys] lev_least [of n xs ys] by (simp_all add: editDistance_lev)

theorem edit_distance_least_witness: "editDistance ''kit'' ''kin'' \<le> 1"
proof -
  have "edits 0 [] ([] :: string)" by (rule edits.nothing)
  then have "edits (Suc 0) ''t'' ''n''" by (rule edits.change)
  then have "edits (Suc 0) ''it'' ''in''" by (rule edits.keep)
  then have "edits (Suc 0) ''kit'' ''kin''" by (rule edits.keep)
  with edit_distance_least [of "''kit''" "''kin''" 1] show ?thesis by simp
qed

text \<open>The run of anchors is strictly increasing on both sides, and no increasing run is longer.\<close>

theorem anchor_run_longest:
  "increasing_run values (longestIncreasingRun values) \<and>
   (increasing_run values ps \<longrightarrow> length ps \<le> length (longestIncreasingRun values))"
  using longest_run by blast

theorem anchor_run_longest_witness: "3 \<le> length (longestIncreasingRun [3, 1, 2, 5, 4])"
  using anchor_run_longest [of "[3, 1, 2, 5, 4]" "[1, 2, 4]"] by (simp add: increasing_run_def)

text \<open>C27: an alignment is a partition: every node of either side is in exactly one pair or left over
  exactly once, and the lists come out in document order.\<close>

theorem alignment_partition:
  "mset (map pr_left (sa_pairs (alignSequences tok left right ro co)) @ sa_leftOnly (alignSequences tok left right ro co))
     = mset [0..<length left] \<and>
   mset (map pr_right (sa_pairs (alignSequences tok left right ro co)) @ sa_rightOnly (alignSequences tok left right ro co))
     = mset [0..<length right] \<and>
   sorted (map pr_left (sa_pairs (alignSequences tok left right ro co))) \<and>
   sorted (sa_leftOnly (alignSequences tok left right ro co)) \<and> sorted (sa_rightOnly (alignSequences tok left right ro co))"
  by (intro conjI align_nodes [OF refl])

text \<open>What an alignment pairs is alike: the pair is the same text in the same type, or its score
  is at least the replacement threshold, and at least the cross-type threshold when the types differ.\<close>

theorem pairs_alike:
  assumes "align_options ro co = (rt, ct)" "c \<in> set (sa_pairs (alignSequences tok left right ro co))"
  shows "pr_similarity c = 1 \<and> keyOf (left ! pr_left c) = keyOf (right ! pr_right c) \<or>
    pr_similarity c = node_score tok (left ! pr_left c) (right ! pr_right c) \<and>
    may_pair tok rt ct (left ! pr_left c) (right ! pr_right c)"
  by (rule align_sound(3) [OF refl assms])

definition sample_nodes :: "string list \<Rightarrow> alignable list" where
  "sample_nodes = map (\<lambda>k. \<lparr>al_type = ''paragraph'', al_comparisonKey = k\<rparr>)"

theorem pairs_alike_witness:
  "may_pair significantTokens REPLACE_THRESHOLD CROSS_TYPE_THRESHOLD (sample_nodes [''a b c''] ! 0) (sample_nodes [''a b d''] ! 0)"
proof -
  let ?a = "alignSequences significantTokens (sample_nodes [''a b c'']) (sample_nodes [''a b d'']) None None"
  have e: "sa_pairs ?a \<noteq> []" "pr_left (hd (sa_pairs ?a)) = 0" "pr_right (hd (sa_pairs ?a)) = 0" by code_simp+
  have "keyOf (sample_nodes [''a b c''] ! 0) \<noteq> keyOf (sample_nodes [''a b d''] ! 0)" by code_simp
  then show ?thesis using pairs_alike [OF default_options(1) list.set_sel(1) [OF e(1)]] e(2,3) by simp
qed

text \<open>An alignment leaves nothing over that it could have paired: when the work limit admits the
  two lists, two left-over nodes that no pair crosses are not alike.\<close>

theorem leftovers_differ:
  assumes "align_options ro co = (rt, ct)" "length left * length right \<le> MAX_PAIR_WORK"
    and "l \<in> set (sa_leftOnly (alignSequences tok left right ro co))"
    and "r \<in> set (sa_rightOnly (alignSequences tok left right ro co))"
    and "\<forall>c \<in> set (sa_pairs (alignSequences tok left right ro co)). pr_left c < l \<longleftrightarrow> pr_right c < r"
  shows "\<not> may_pair tok rt ct (left ! l) (right ! r)"
  using align_complete [OF refl assms(1-4)] assms(5) by blast

theorem leftovers_differ_witness:
  "\<not> may_pair significantTokens REPLACE_THRESHOLD CROSS_TYPE_THRESHOLD
     (sample_nodes [''same'', ''a b c''] ! 1) (sample_nodes [''same'', ''x y z''] ! 1)"
proof -
  let ?a = "alignSequences significantTokens (sample_nodes [''same'', ''a b c'']) (sample_nodes [''same'', ''x y z'']) None None"
  have e: "sa_leftOnly ?a = [1]" "sa_rightOnly ?a = [1]" "map pr_left (sa_pairs ?a) = [0]" "map pr_right (sa_pairs ?a) = [0]"
    by code_simp+
  have le: "length (sample_nodes [''same'', ''a b c'']) * length (sample_nodes [''same'', ''x y z'']) \<le> MAX_PAIR_WORK" by code_simp
  have "1 \<in> set (sa_leftOnly ?a)" "1 \<in> set (sa_rightOnly ?a)" unfolding e by simp_all
  moreover have "\<forall>c \<in> set (sa_pairs ?a). pr_left c < 1 \<longleftrightarrow> pr_right c < 1"
    using e(3,4) by (cases "sa_pairs ?a") auto
  ultimately show ?thesis by (rule leftovers_differ [OF default_options(1) le])
qed

text \<open>C28: the moves pair deletions with insertions of the same text, each node in at most one move, and
  leave no deletion beside an insertion of the same text.\<close>

theorem moves_exact:
  assumes "detectMoves ds ins = (moves, deleted, inserted)"
  shows "mset (map mv_deleteIndex moves @ deleted) = mset [0..<length ds] \<and>
    mset (map mv_insertIndex moves @ inserted) = mset [0..<length ins] \<and>
    (\<forall>mv \<in> set moves. ds ! mv_deleteIndex mv = ins ! mv_insertIndex mv) \<and>
    (\<forall>d \<in> set deleted. \<forall>i \<in> set inserted. ds ! d \<noteq> ins ! i)"
  using detect_moves_spec [OF assms] by blast

theorem moves_exact_witness:
  "snd (snd (detectMoves [''a'', ''b'', ''a''] [''a'', ''c''])) = [1] \<and>
   ([''a'', ''b'', ''a''] ! 2 \<noteq> [''a'', ''c''] ! 1)"
proof -
  have e: "detectMoves [''a'', ''b'', ''a''] [''a'', ''c''] = ([\<lparr>mv_deleteIndex = 0, mv_insertIndex = 0\<rparr>], [1, 2], [1])"
    by code_simp
  show ?thesis using moves_exact [OF e] by (simp add: e)
qed

text \<open>Every node of a part is accounted for exactly once: it is in one pair, or one change
  removes it (deletes or moves it), or, on the other side, one change adds it (inserts or moves it).\<close>

theorem nodes_accounted:
  assumes "whole_nodes left" "whole_nodes right"
  shows "mset (map pr_left (sa_pairs (part_alignment left right)) @ removed_of (diffPart ctx part left right)) = mset [0..<length left] \<and>
    mset (map pr_right (sa_pairs (part_alignment left right)) @ added_of (diffPart ctx part left right)) = mset [0..<length right]"
  using part_accounts [OF assms, of ctx part]
    align_nodes(1,2) [OF refl, of significantTokens "map alignableOf left" "map alignableOf right" None None] by simp

theorem nodes_accounted_witness:
  "mset (map pr_left (sa_pairs (part_alignment [sample_para ''A'', sample_para ''B''] [sample_para ''B''])) @
     removed_of (diffPart sample_context BodyPart [sample_para ''A'', sample_para ''B''] [sample_para ''B''])) = mset [0, 1]"
proof -
  have "whole_nodes [sample_para ''A'', sample_para ''B'']" "whole_nodes [sample_para ''B'']"
    by (simp_all add: whole_nodes_def sample_para_def)
  from nodes_accounted [OF this, of sample_context BodyPart] show ?thesis by (simp add: numeral_2_eq_2)
qed

text \<open>C29: a document compared with itself has no change, whatever it contains, tables and repeated
  paragraphs included.\<close>

theorem self_comparison_empty:
  assumes "\<forall>p \<in> set DOCUMENT_PART_ORDER. dx_inTime ctx p"
  shows "diffDocuments ctx doc doc = Inr []"
  using parts_self [of DOCUMENT_PART_ORDER ctx doc] assms by (simp add: diffDocuments_def)

theorem self_comparison_empty_witness:
  "diffDocuments sample_context [sample_para ''A'', sample_para ''A''] [sample_para ''A'', sample_para ''A''] = Inr []"
  by (rule self_comparison_empty) (simp add: sample_context_def)



text \<open>Without that proviso it does not hold: two repeated paragraphs swapped as blocks are paired
  across each other with similarity 1, and the comparison reports no change.\<close>

theorem reorder_missed:
  "diffPart sample_context BodyPart (map sample_para [''A'', ''A'', ''B'', ''B'']) (map sample_para [''B'', ''B'', ''A'', ''A'']) = [] \<and>
   map cn_rawText (map sample_para [''A'', ''A'', ''B'', ''B'']) \<noteq> map cn_rawText (map sample_para [''B'', ''B'', ''A'', ''A''])"
  by code_simp

text \<open>The changed cells of a table are not reported row by row: the order of a row's cells counts
  on from the row's number, so the first cell of the second row comes before the third of the first.\<close>

theorem cells_interleave:
  "map dr_before (diffPart sample_context BodyPart [sample_table [[''aaa'', ''bbb'', ''ccc''], [''ddd'']]]
     [sample_table [[''aax'', ''bbx'', ''ccx''], [''ddx'']]]) =
   map Some [''aaa'', ''bbb'', ''ddd'', ''ccc'']"
  by code_simp

end
