(* ===== verification/PendText.thy ===== *)
theory PendText
  imports Json "HOL-Library.Char_ord" "HOL-Library.List_Lexorder"
begin

text \<open>
  The texts of the offline write queue
  (\<open>plugins/dsh-openviking-memory/src/openviking/pending-queue.ts\<close>): the key-sorted
  rendering of a payload, the digest key built over it, the request bodies, and the file names
  that carry the key, the retry count and the claim. The digest and the text of a finite number
  are parameters; a number that is not finite is written \<open>null\<close>, as
  \<open>JSON.stringify\<close> does.
\<close>

subsection \<open>Language primitives\<close>

definition endsWith :: "string \<Rightarrow> string \<Rightarrow> bool" where
  "endsWith s suf \<longleftrightarrow> length suf \<le> length s \<and> drop (length s - length suf) s = suf"

definition startsWith :: "string \<Rightarrow> string \<Rightarrow> bool" where
  "startsWith s pre \<longleftrightarrow> take (length pre) s = pre"

text \<open>\<open>s.replace(/suf$/, by)\<close> for a literal \<open>suf\<close>\<close>

definition replace_end :: "string \<Rightarrow> string \<Rightarrow> string \<Rightarrow> string" where
  "replace_end suf by s = (if endsWith s suf then take (length s - length suf) s @ by else s)"

definition ascii_digit :: "char \<Rightarrow> bool" where
  "ascii_digit c \<longleftrightarrow> (of_char c :: nat) \<in> {48..57}"

definition int_text :: "int \<Rightarrow> string" where
  "int_text i = (if i < 0 then CHR ''-'' # nat_text (nat (- i)) else nat_text (nat i))"

definition decimal_value :: "string \<Rightarrow> int" where
  "decimal_value s = foldl (\<lambda>a c. a * 10 + (int (of_char c) - 48)) 0 s"

text \<open>\<open>parseInt(s, 10)\<close>, \<open>None\<close> for \<open>NaN\<close>\<close>

definition parse_digits :: "string \<Rightarrow> int option" where
  "parse_digits s = (let d = takeWhile ascii_digit s in if d = [] then None else Some (decimal_value d))"

fun parse_signed :: "string \<Rightarrow> int option" where
  "parse_signed [] = None"
| "parse_signed (c # s) =
     (if c = CHR ''-'' then map_option uminus (parse_digits s)
      else if c = CHR ''+'' then parse_digits s
      else parse_digits (c # s))"

definition js_parseInt :: "string \<Rightarrow> int option" where
  "js_parseInt s = parse_signed (dropWhile js_space s)"

text \<open>\<open>encodeURIComponent\<close> on characters below U+0100: the unreserved ones stand, the
  others are the percent-encoded bytes of their UTF-8 form.\<close>

definition uri_unreserved :: "char \<Rightarrow> bool" where
  "uri_unreserved c \<longleftrightarrow>
     (let n = of_char c :: nat in
      n \<in> {48..57} \<or> n \<in> {65..90} \<or> n \<in> {97..122} \<or> c \<in> set ''-_.!~*'' \<or> n \<in> {39, 40, 41})"

definition percent_byte :: "nat \<Rightarrow> string" where
  "percent_byte n = [CHR ''%'', ''0123456789ABCDEF'' ! (n div 16), ''0123456789ABCDEF'' ! (n mod 16)]"

definition encodeURIComponent :: "string \<Rightarrow> string" where
  "encodeURIComponent s =
     concat (map (\<lambda>c. let n = of_char c :: nat in
       if uri_unreserved c then [c]
       else if n < 128 then percent_byte n
       else percent_byte (192 + n div 64) @ percent_byte (128 + n mod 64)) s)"

subsection \<open>Payload texts\<close>

text \<open>\<open>JSON.stringify\<close>, and the rendering with sorted keys.\<close>

fun json_text :: "(jsnum \<Rightarrow> string) \<Rightarrow> json \<Rightarrow> string" where
  "json_text nt JNull = ''null''"
| "json_text nt (JBool b) = (if b then ''true'' else ''false'')"
| "json_text nt (JNum n) = (if num_is_finite n then nt n else ''null'')"
| "json_text nt (JStr s) = json_quote s"
| "json_text nt (JArr xs) = ''['' @ join_with '','' (map (json_text nt) xs) @ '']''"
| "json_text nt (JObj kvs) =
     ''{'' @ join_with '','' (map (\<lambda>kv. json_quote (fst kv) @ '':'' @ json_text nt (snd kv)) kvs) @ ''}''"

fun stableStringify :: "(jsnum \<Rightarrow> string) \<Rightarrow> json \<Rightarrow> string" where
  "stableStringify nt JNull = ''null''"
| "stableStringify nt (JBool b) = (if b then ''true'' else ''false'')"
| "stableStringify nt (JNum n) = (if num_is_finite n then nt n else ''null'')"
| "stableStringify nt (JStr s) = json_quote s"
| "stableStringify nt (JArr xs) = ''['' @ join_with '','' (map (stableStringify nt) xs) @ '']''"
| "stableStringify nt (JObj kvs) =
     ''{'' @ join_with '','' (map (\<lambda>kt. json_quote (fst kt) @ '':'' @ snd kt)
       (sort_key fst (map (\<lambda>kv. (fst kv, stableStringify nt (snd kv))) kvs))) @ ''}''"

definition key_text :: "(jsnum \<Rightarrow> string) \<Rightarrow> string \<Rightarrow> string \<Rightarrow> json \<Rightarrow> string" where
  "key_text nt kind sessionId payload =
     kind @ [CHR 0x0A] @ sessionId @ [CHR 0x0A] @ stableStringify nt payload"

definition makeDedupKey :: "(string \<Rightarrow> string) \<Rightarrow> (jsnum \<Rightarrow> string) \<Rightarrow> string \<Rightarrow> string \<Rightarrow> json \<Rightarrow> string" where
  "makeDedupKey sha256 nt kind sessionId payload = sha256 (key_text nt kind sessionId payload)"

subsection \<open>File names\<close>

definition pendingFilename :: "string \<Rightarrow> int \<Rightarrow> string" where
  "pendingFilename dedupKey retries = dedupKey @ ''_'' @ int_text (max 0 retries) @ ''.json''"

definition bare_name :: "string \<Rightarrow> string" where
  "bare_name f = (if endsWith f ''.json'' then replace_end ''.json'' [] f else replace_end ''.processing'' [] f)"

text \<open>The test \<open>/_\d+$/\<close> and what stands before the match.\<close>

definition count_stem :: "string \<Rightarrow> string option" where
  "count_stem bare =
     (let stem = rev (dropWhile ascii_digit (rev bare)) in
      if stem \<noteq> bare \<and> stem \<noteq> [] \<and> last stem = CHR ''_'' then Some (butlast stem) else None)"

definition retryFilename :: "string \<Rightarrow> int \<Rightarrow> string" where
  "retryFilename filename retries =
     (let bare = bare_name filename in
      (case count_stem bare of
         Some stem \<Rightarrow> stem @ ''_'' @ int_text retries
       | None \<Rightarrow> bare @ ''_'' @ int_text retries) @ ''.json'')"

definition processingFilename :: "string \<Rightarrow> string" where
  "processingFilename f = replace_end ''.json'' ''.processing'' f"

definition pendingFromProcessingFilename :: "string \<Rightarrow> string" where
  "pendingFromProcessingFilename f = replace_end ''.processing'' ''.json'' f"


subsection \<open>What the digest key identifies\<close>

text \<open>
  The reference for the key-sorted rendering: a payload up to the order of its keys, as it
  reads on disk. The rendering is the plain one of that normal form, and it can be read back
  whatever follows it, as long as the text of a number can.
\<close>

fun canonical :: "json \<Rightarrow> json" where
  "canonical (JNum n) = (if num_is_finite n then JNum n else JNull)"
| "canonical (JArr xs) = JArr (map canonical xs)"
| "canonical (JObj kvs) = JObj (sort_key fst (map (\<lambda>kv. (fst kv, canonical (snd kv))) kvs))"
| "canonical p = p"

fun finite_numbers :: "json \<Rightarrow> bool" where
  "finite_numbers (JNum n) = num_is_finite n"
| "finite_numbers (JArr xs) = list_all finite_numbers xs"
| "finite_numbers (JObj kvs) = list_all (\<lambda>kv. finite_numbers (snd kv)) kvs"
| "finite_numbers p = True"

definition numeral_char :: "char \<Rightarrow> bool" where
  "numeral_char c \<longleftrightarrow> ascii_digit c \<or> c \<in> set ''-+.e''"

text \<open>What is relied on of the text of a finite number: it is made of numeral characters, not
  empty, and tells the number.\<close>

definition number_texts :: "(jsnum \<Rightarrow> string) \<Rightarrow> bool" where
  "number_texts nt \<longleftrightarrow>
     (\<forall>q. nt (Fin q) \<noteq> [] \<and> list_all numeral_char (nt (Fin q))) \<and> inj (\<lambda>q. nt (Fin q))"

definition delimited :: "string \<Rightarrow> bool" where
  "delimited r \<longleftrightarrow> (case r of [] \<Rightarrow> True | c # _ \<Rightarrow> \<not> numeral_char c)"

lemma map_sort_key:
  assumes "\<And>x. k' (h x) = k x"
  shows "map h (sort_key k xs) = sort_key k' (map h xs)"
proof -
  have "map h (insort_key k x ys) = insort_key k' (h x) (map h ys)" for x ys
    by (induction ys) (simp_all add: assms)
  then show ?thesis by (induction xs) simp_all
qed

lemma sort_key_snd: "sort_key fst (map (\<lambda>kv. (fst kv, f (g (snd kv)))) kvs) =
   map (\<lambda>kv. (fst kv, f (snd kv))) (sort_key fst (map (\<lambda>kv. (fst kv, g (snd kv))) kvs))"
  by (subst map_sort_key [where k' = fst]) (simp_all add: comp_def)

lemma stable_canonical: "stableStringify nt p = json_text nt (canonical p)"
proof (induction p rule: canonical.induct)
  case (3 kvs)
  have "map (\<lambda>kv. (fst kv, stableStringify nt (snd kv))) kvs =
      map (\<lambda>kv. (fst kv, json_text nt (canonical (snd kv)))) kvs"
    using 3 by simp
  then show ?case by (simp add: sort_key_snd comp_def del: map_eq_conv)
qed (simp_all cong: map_cong)

lemma canonical_finite: "finite_numbers (canonical p)"
proof (induction p rule: canonical.induct)
  case (3 kvs)
  then show ?case by (auto simp: list_all_iff)
qed (auto simp: list_all_iff)

lemma join_Cons: "join_with sep (p # ps) = p @ concat (map (\<lambda>q. sep @ q) ps)"
  by (induction sep ps arbitrary: p rule: join_with.induct) simp_all

text \<open>Two texts tell their values apart whatever follows them.\<close>

definition apart :: "('a \<Rightarrow> string) \<Rightarrow> 'a \<Rightarrow> 'a \<Rightarrow> bool" where
  "apart t x y \<longleftrightarrow>
     (\<forall>r r'. t x @ r = t y @ r' \<longrightarrow> delimited r \<longrightarrow> delimited r' \<longrightarrow> x = y \<and> r = r')"

lemma apartD: "apart t x y \<Longrightarrow> t x @ r = t y @ r' \<Longrightarrow> delimited r \<Longrightarrow> delimited r' \<Longrightarrow> x = y \<and> r = r'"
  by (simp add: apart_def)

lemma delimited_items:
  "\<not> numeral_char e \<Longrightarrow> delimited (concat (map (\<lambda>x. CHR '','' # t x) zs) @ e # q)"
  by (cases zs) (simp_all add: delimited_def numeral_char_def ascii_digit_def)

lemma items_readable:
  assumes "\<forall>x\<in>set xs. \<forall>y\<in>set ys. apart t x y"
    and "concat (map (\<lambda>x. CHR '','' # t x) xs) @ e # r = concat (map (\<lambda>x. CHR '','' # t x) ys) @ e # r'"
    and "e \<noteq> CHR '',''" "\<not> numeral_char e"
  shows "xs = ys \<and> r = r'"
  using assms(1,2)
proof (induction xs arbitrary: ys)
  case Nil
  then show ?case using assms(3) by (cases ys) auto
next
  case (Cons x xs)
  then obtain y ys' where ys: "ys = y # ys'" using assms(3) by (cases ys) auto
  have "x = y \<and> concat (map (\<lambda>x. CHR '','' # t x) xs) @ e # r = concat (map (\<lambda>x. CHR '','' # t x) ys') @ e # r'"
    by (rule apartD [of t]) (use Cons.prems delimited_items [OF assms(4)] in \<open>simp_all add: ys\<close>)
  moreover have "\<forall>x\<in>set xs. \<forall>y\<in>set ys'. apart t x y" using Cons.prems(1) ys by simp
  ultimately show ?case using Cons.IH [of ys'] ys by blast
qed

lemma join_map_Cons: "join_with '','' (map t (x # xs)) = t x @ concat (map (\<lambda>x. CHR '','' # t x) xs)"
  by (simp add: join_Cons comp_def)

lemma list_readable:
  assumes "\<forall>x\<in>set xs. \<forall>y\<in>set ys. apart t x y"
    and "join_with '','' (map t xs) @ e # r = join_with '','' (map t ys) @ e # r'"
    and "e \<noteq> CHR '',''" "\<not> numeral_char e"
    and "\<And>y. y \<in> set xs \<union> set ys \<Longrightarrow> t y \<noteq> [] \<and> hd (t y) \<noteq> e"
  shows "xs = ys \<and> r = r'"
proof (cases "xs = [] \<or> ys = []")
  case True
  have "hd (join_with '','' (map t zs) @ q) \<noteq> e" if "zs \<noteq> []" "set zs \<subseteq> set xs \<union> set ys" for zs q
    using that assms(5) [of "hd zs"] by (cases zs) (auto simp: join_map_Cons simp del: list.map)
  from this [of xs "e # r"] this [of ys "e # r'"] True assms(2) show ?thesis
    by (metis Un_upper1 Un_upper2 append_Nil join_with.simps(1) list.map(1) list.sel(1,3))
next
  case False
  then obtain x xs' y ys' where c: "xs = x # xs'" "ys = y # ys'" by (meson neq_Nil_conv)
  have "t x @ concat (map (\<lambda>x. CHR '','' # t x) xs') @ e # r =
      t y @ concat (map (\<lambda>x. CHR '','' # t x) ys') @ e # r'"
    using assms(2) by (simp only: c join_map_Cons append_assoc)
  then show ?thesis by (intro items_readable [OF assms(1) _ assms(3,4)]) (simp add: c)
qed

lemma list_apart:
  assumes "\<forall>x\<in>set xs. \<forall>y\<in>set ys. apart t x y"
    and "e \<noteq> CHR '','' \<and> \<not> numeral_char e"
    and "\<And>y. y \<in> set xs \<union> set ys \<Longrightarrow> t y \<noteq> [] \<and> hd (t y) \<noteq> e"
  shows "apart (\<lambda>zs. b # join_with '','' (map t zs) @ [e]) xs ys"
  using list_readable [OF assms(1) _ _ _ assms(3)] assms(2) by (auto simp: apart_def)

lemma text_start:
  assumes "number_texts nt" "finite_numbers p"
  shows "json_text nt p \<noteq> [] \<and> (case p of
      JNull \<Rightarrow> hd (json_text nt p) = CHR ''n''
    | JBool b \<Rightarrow> hd (json_text nt p) = (if b then CHR ''t'' else CHR ''f'')
    | JNum n \<Rightarrow> numeral_char (hd (json_text nt p))
    | JStr s \<Rightarrow> hd (json_text nt p) = CHR 0x22
    | JArr xs \<Rightarrow> hd (json_text nt p) = CHR ''[''
    | JObj kvs \<Rightarrow> hd (json_text nt p) = CHR ''{'')"
proof (cases p)
  case (JNum n)
  then obtain q where "n = Fin q" using assms(2) by (cases n) auto
  then show ?thesis using assms(1) JNum
    by (simp add: number_texts_def) (metis list.pred_inject(2) list.exhaust_sel)
qed (simp_all add: json_quote_def)

lemma starts_apart:
  assumes "t x \<noteq> []" "t y \<noteq> []" "hd (t x) \<noteq> hd (t y)"
  shows "apart t x y"
  using assms by (metis apart_def hd_append2)

lemma numeral_apart:
  assumes "t x \<noteq> []" "t y \<noteq> []" "numeral_char (hd (t x)) \<noteq> numeral_char (hd (t y))"
  shows "apart t x y"
  using assms by (intro starts_apart) auto

lemma not_numeral:
  "\<not> numeral_char (CHR ''n'')" "\<not> numeral_char (CHR ''t'')" "\<not> numeral_char (CHR ''f'')"
  "\<not> numeral_char (CHR 0x22)" "\<not> numeral_char (CHR ''['')" "\<not> numeral_char (CHR ''{'')"
  by (simp_all add: numeral_char_def ascii_digit_def)

lemmas starts = text_start

lemma number_readable:
  assumes "list_all numeral_char a" "list_all numeral_char b" "a @ r = b @ r'" "delimited r" "delimited r'"
  shows "a = b \<and> r = r'"
proof -
  have "takeWhile numeral_char (x @ q) = x" if "list_all numeral_char x" "delimited q" for x q
    using that by (auto simp: list_all_iff delimited_def takeWhile_append split: list.splits)
  from this [OF assms(1,4)] this [OF assms(2,5)] assms(3) show ?thesis by simp
qed

lemma text_readable:
  assumes "number_texts nt"
  shows "finite_numbers p \<Longrightarrow> finite_numbers q \<Longrightarrow> apart (json_text nt) p q"
proof (induction p arbitrary: q)
  case (JNum n)
  then obtain i where n: "n = Fin i" by (cases n) auto
  show ?case
  proof (cases q)
    case (JNum m)
    then obtain j where m: "m = Fin j" using JNum.prems by (cases m) auto
    have "a = b" if "nt (Fin a) = nt (Fin b)" for a b
      using assms that by (auto simp: number_texts_def inj_def)
    moreover have "list_all numeral_char (nt (Fin a))" for a using assms by (simp add: number_texts_def)
    ultimately show ?thesis unfolding apart_def n m JNum using number_readable
      by (metis json_text.simps(3) num_is_finite.simps(1))
  qed (use starts [OF assms JNum.prems(1)] starts [OF assms JNum.prems(2)] in \<open>auto intro: starts_apart numeral_apart simp: not_numeral split: if_splits\<close>)
next
  case (JArr xs)
  show ?case
  proof (cases q)
    case (JArr ys)
    have "\<forall>x\<in>set xs. \<forall>y\<in>set ys. apart (json_text nt) x y"
      using JArr.IH JArr.prems JArr by (simp add: list_all_iff)
    moreover have "json_text nt y \<noteq> [] \<and> hd (json_text nt y) \<noteq> CHR '']''" if "y \<in> set xs \<union> set ys" for y
      using text_start [OF assms, of y] that JArr.prems JArr
      by (cases y) (auto simp: list_all_iff numeral_char_def ascii_digit_def json_quote_def)
    ultimately have "apart (\<lambda>zs. CHR ''['' # join_with '','' (map (json_text nt) zs) @ '']'') xs ys"
      by (intro list_apart) (simp_all add: numeral_char_def ascii_digit_def)
    then show ?thesis by (simp add: JArr apart_def)
  qed (use starts [OF assms JArr.prems(1)] starts [OF assms JArr.prems(2)] in \<open>auto intro: starts_apart numeral_apart simp: not_numeral split: if_splits\<close>)
next
  case (JObj xs)
  show ?case
  proof (cases q)
    case (JObj ys)
    let ?t = "\<lambda>kv. json_quote (fst kv) @ '':'' @ json_text nt (snd kv)"
    have "apart ?t x y" if "x \<in> set xs" "y \<in> set ys" for x y
    proof -
      have "apart (json_text nt) (snd x) (snd y)"
        using that JObj.IH [OF that(1), of "snd x" "snd y"] JObj.prems JObj
        by (simp add: list_all_iff prod_set_defs)
      then show ?thesis unfolding apart_def
        by (metis append.assoc append_Cons append_Nil json_quote_readable list.inject prod_eqI)
    qed
    then have "apart (\<lambda>zs. CHR ''{'' # join_with '','' (map ?t zs) @ ''}'') xs ys"
      by (intro list_apart) (simp_all add: numeral_char_def ascii_digit_def json_quote_def)
    then show ?thesis by (simp add: JObj apart_def)
  qed (use starts [OF assms JObj.prems(1)] starts [OF assms JObj.prems(2)] in \<open>auto intro: starts_apart numeral_apart simp: not_numeral split: if_splits\<close>)
next
  case JNull
  note prems = JNull
  show ?case
  proof (cases q)
    case JNull
    then show ?thesis by (simp add: apart_def)
  qed (use starts [OF assms prems(1)] starts [OF assms prems(2)] in
      \<open>auto intro: starts_apart numeral_apart simp: not_numeral split: if_splits\<close>)
next
  case (JBool b)
  note prems = JBool
  show ?case
  proof (cases q)
    case (JBool b')
    then show ?thesis by (simp add: apart_def)
  qed (use starts [OF assms prems(1)] starts [OF assms prems(2)] in
      \<open>auto intro: starts_apart numeral_apart simp: not_numeral split: if_splits\<close>)
next
  case (JStr s)
  note prems = JStr
  show ?case
  proof (cases q)
    case (JStr s')
    then show ?thesis using json_quote_readable unfolding apart_def by (metis json_text.simps(4))
  qed (use starts [OF assms prems(1)] starts [OF assms prems(2)] in
      \<open>auto intro: starts_apart numeral_apart simp: not_numeral split: if_splits\<close>)
qed

text \<open>No line break stands in a payload text, so the last one of the hashed text ends the
  session id.\<close>

lemma quote_no_newline: "CHR 0x0A \<notin> set (json_quote s)"
proof -
  have "list_all (\<lambda>m. hex_digit m \<noteq> CHR 0x0A) [0..<16]" by code_simp
  then have h: "m < 16 \<Longrightarrow> hex_digit m \<noteq> CHR 0x0A" for m by (simp add: list_all_iff)
  have "CHR 0x0A \<notin> set (json_escape c)" for c
  proof (cases "(of_char c :: nat) < 32")
    case True
    then have "hex_digit (of_char c div 16) \<noteq> CHR 0x0A" "hex_digit (of_char c mod 16) \<noteq> CHR 0x0A"
      by (intro h, simp)+
    then show ?thesis by (auto simp: json_escape_def)
  qed (auto simp: json_escape_def)
  then show ?thesis by (simp add: json_quote_def)
qed

lemma join_elems: "set (join_with sep ps) \<subseteq> set sep \<union> \<Union> (set ` set ps)"
  by (induction sep ps rule: join_with.induct) auto

lemma text_no_newline:
  assumes "number_texts nt"
  shows "finite_numbers p \<Longrightarrow> CHR 0x0A \<notin> set (json_text nt p)"
proof (induction p)
  case (JNum n)
  then obtain q where "n = Fin q" by (cases n) auto
  moreover have "\<not> numeral_char (CHR 0x0A)" by (simp add: numeral_char_def ascii_digit_def)
  ultimately show ?case using assms by (auto simp: number_texts_def list_all_iff)
next
  case (JArr xs)
  then show ?case using join_elems [of "'',''" "map (json_text nt) xs"] by (auto simp: list_all_iff)
next
  case (JObj xs)
  then have "CHR 0x0A \<notin> set (json_quote (fst kv) @ '':'' @ json_text nt (snd kv))" if "kv \<in> set xs" for kv
    using that quote_no_newline [of "fst kv"] by (cases kv) (auto simp: list_all_iff)
  then have "CHR 0x0A \<notin> (\<Union>kv\<in>set xs. set (json_quote (fst kv) @ '':'' @ json_text nt (snd kv)))" by blast
  then show ?case
    using join_elems [of "'',''" "map (\<lambda>kv. json_quote (fst kv) @ '':'' @ json_text nt (snd kv)) xs"]
    by (auto split: if_splits)
qed (simp_all add: quote_no_newline)

lemma last_break:
  assumes "s @ CHR 0x0A # p = t @ CHR 0x0A # q" "CHR 0x0A \<notin> set p" "CHR 0x0A \<notin> set q"
  shows "s = t \<and> p = q"
proof -
  have "takeWhile (\<lambda>c. c \<noteq> CHR 0x0A) (rev (u @ CHR 0x0A # v)) = rev v \<and>
      dropWhile (\<lambda>c. c \<noteq> CHR 0x0A) (rev (u @ CHR 0x0A # v)) = CHR 0x0A # rev u"
    if n: "CHR 0x0A \<notin> set v" for u v
  proof -
    have "\<And>c. c \<in> set (rev v) \<Longrightarrow> c \<noteq> CHR 0x0A" using n by (metis set_rev)
    then have "takeWhile (\<lambda>c. c \<noteq> CHR 0x0A) (rev v @ w) = rev v @ takeWhile (\<lambda>c. c \<noteq> CHR 0x0A) w"
      "dropWhile (\<lambda>c. c \<noteq> CHR 0x0A) (rev v @ w) = dropWhile (\<lambda>c. c \<noteq> CHR 0x0A) w" for w
      by (meson takeWhile_append2 dropWhile_append2)+
    then show ?thesis by simp
  qed
  from this [OF assms(2), of s] this [OF assms(3), of t] assms(1) show ?thesis
    by (metis list.inject rev_is_rev_conv)
qed

lemma first_break:
  assumes "s @ CHR 0x0A # p = t @ CHR 0x0A # q" "CHR 0x0A \<notin> set s" "CHR 0x0A \<notin> set t"
  shows "s = t \<and> p = q"
  using last_break [of "rev p" "rev s" "rev q" "rev t"] assms by (metis append.assoc append_Cons append_Nil rev.simps(2) rev_append rev_is_rev_conv set_rev)

lemma key_text_identifies:
  assumes "number_texts nt" "CHR 0x0A \<notin> set k" "CHR 0x0A \<notin> set k'"
    and "key_text nt k sid p = key_text nt k' sid' q"
  shows "k = k' \<and> sid = sid' \<and> canonical p = canonical q"
proof -
  note nl = text_no_newline [OF assms(1) canonical_finite]
  have "k = k' \<and> sid @ CHR 0x0A # json_text nt (canonical p) = sid' @ CHR 0x0A # json_text nt (canonical q)"
    using first_break [OF _ assms(2,3)] assms(4) by (simp add: key_text_def stable_canonical)
  moreover from this have "sid = sid' \<and> json_text nt (canonical p) = json_text nt (canonical q)"
    using last_break nl by blast
  moreover from this have "canonical p = canonical q"
    using apartD [OF text_readable [OF assms(1) canonical_finite canonical_finite], of p "[]" q "[]"]
    by (simp add: delimited_def)
  ultimately show ?thesis by blast
qed

end
