(* ===== verification/PendQueue.thy ===== *)
theory PendQueue
  imports PendText
begin

text \<open>
  The offline write queue
  (\<open>plugins/dsh-openviking-memory/src/openviking/pending-queue.ts\<close> and
  \<open>retryable.ts\<close>). The queue directory is a list of files in directory order: a file has
  the time it was written, which a rename keeps, and a text known by what \<open>JSON.parse\<close>
  makes of it. A stored object has the fields of \<open>PendingEntry\<close>; \<open>NullText\<close> is a
  file that parses to \<open>null\<close>, whose fields cannot be read. \<open>qe_fault\<close> says which
  file-system call fails on which name, and whether a failing write leaves a half-written file
  behind. Sending is a parameter that answers the n-th request and says how long it took; an
  absent answer is a transport that threw.
\<close>

subsection \<open>Entries, files and answers\<close>

record pending_entry =
  pe_type :: string
  pe_sessionId :: string
  pe_payload :: json
  pe_createdAt :: int
  pe_retries :: int
  pe_dedupKey :: string
  pe_user :: "json option"

datatype entry_text = Garbage | NullText | Stored pending_entry

record queue_file =
  qf_mtime :: int
  qf_text :: entry_text

datatype queue_op = QMkdir | QReaddir | QRead | QStat | QWrite | QRename | QUnlink

datatype queue_fault = Refused string | Halfway string

datatype queue_error = TypeError

record replay_error =
  fe_message :: "string option"
  fe_code :: "string option"
  fe_details :: "json option"

record fetch_result =
  fr_ok :: bool
  fr_status :: "int option"
  fr_result_status :: "int option"
  fr_result_trace :: "string option"
  fr_error :: "replay_error option"
  fr_traceId :: "string option"

record pending_call =
  pc_path :: string
  pc_body :: string
  pc_user :: "string option"

datatype queue_log =
    ReplayStart nat int
  | CommitReplay string bool "int option" "string option" "string option"
  | ReplayDeferred string string "int option" int
  | ReleaseFailed string string "int option" int
  | ReplayDone nat nat nat nat nat

record queue_env =
  qe_sha256 :: "string \<Rightarrow> string"
  qe_numText :: "jsnum \<Rightarrow> string"
  qe_maxRetries :: "string option"
  qe_ttlDays :: "string option"
  qe_replayLimit :: "string option"
  qe_pid :: string
  qe_fault :: "queue_op \<Rightarrow> string \<Rightarrow> queue_fault option"
  qe_fetch :: "nat \<Rightarrow> pending_call \<Rightarrow> fetch_result option \<times> nat"

record queue_state =
  qs_files :: "(string \<times> queue_file) list"
  qs_now :: int
  qs_calls :: "(pending_entry \<times> pending_call \<times> fetch_result) list"
  qs_log :: "queue_log list"

definition PROCESSING_STALE_MS :: int where "PROCESSING_STALE_MS = 10 * 60 * 1000"

definition env_int :: "string option \<Rightarrow> int option" where
  "env_int v = (case v of None \<Rightarrow> js_parseInt '''' | Some s \<Rightarrow> js_parseInt s)"

definition getMaxRetries :: "queue_env \<Rightarrow> int" where
  "getMaxRetries env = (case env_int (qe_maxRetries env) of Some v \<Rightarrow> if v \<ge> 0 then v else 3 | None \<Rightarrow> 3)"

definition getTTLDays :: "queue_env \<Rightarrow> int" where
  "getTTLDays env = (case env_int (qe_ttlDays env) of Some v \<Rightarrow> if v \<ge> 0 then v else 7 | None \<Rightarrow> 7)"

definition getReplayLimit :: "queue_env \<Rightarrow> int" where
  "getReplayLimit env = (case env_int (qe_replayLimit env) of Some v \<Rightarrow> if v > 0 then v else 50 | None \<Rightarrow> 50)"

definition q_log :: "queue_log \<Rightarrow> queue_state \<Rightarrow> queue_state" where
  "q_log l st = st\<lparr>qs_log := qs_log st @ [l]\<rparr>"

subsection \<open>File-system calls\<close>

definition q_readdir :: "queue_env \<Rightarrow> queue_state \<Rightarrow> string list option" where
  "q_readdir env st = (if qe_fault env QReaddir '''' \<noteq> None then None else Some (map fst (qs_files st)))"

text \<open>\<open>None\<close> when the call or the parse throws.\<close>

definition readEntry :: "queue_env \<Rightarrow> string \<Rightarrow> queue_state \<Rightarrow> pending_entry option option" where
  "readEntry env f st =
     (if qe_fault env QRead f \<noteq> None then None
      else case map_of (qs_files st) f of
             None \<Rightarrow> None
           | Some q \<Rightarrow> (case qf_text q of Garbage \<Rightarrow> None | NullText \<Rightarrow> Some None | Stored e \<Rightarrow> Some (Some e)))"

definition q_mtime :: "queue_env \<Rightarrow> string \<Rightarrow> queue_state \<Rightarrow> int option" where
  "q_mtime env f st =
     (if qe_fault env QStat f \<noteq> None then None else map_option qf_mtime (map_of (qs_files st) f))"

definition rename_file :: "string \<Rightarrow> string \<Rightarrow> (string \<times> queue_file) list \<Rightarrow> (string \<times> queue_file) list" where
  "rename_file a b fs = map (\<lambda>p. if fst p = a then (b, snd p) else p) (if a = b then fs else amap_delete b fs)"

definition q_rename :: "queue_env \<Rightarrow> string \<Rightarrow> string \<Rightarrow> queue_state \<Rightarrow> bool \<times> queue_state" where
  "q_rename env a b st =
     (if qe_fault env QRename a \<noteq> None \<or> map_of (qs_files st) a = None then (False, st)
      else (True, st\<lparr>qs_files := rename_file a b (qs_files st)\<rparr>))"

definition q_unlink :: "queue_env \<Rightarrow> string \<Rightarrow> queue_state \<Rightarrow> bool \<times> queue_state" where
  "q_unlink env f st =
     (if qe_fault env QUnlink f \<noteq> None \<or> map_of (qs_files st) f = None then (False, st)
      else (True, st\<lparr>qs_files := amap_delete f (qs_files st)\<rparr>))"

datatype write_outcome = Written | AlreadyExists | WriteError string

definition add_file :: "string \<Rightarrow> entry_text \<Rightarrow> queue_state \<Rightarrow> queue_state" where
  "add_file f t st = st\<lparr>qs_files := qs_files st @ [(f, \<lparr>qf_mtime = qs_now st, qf_text = t\<rparr>)]\<rparr>"

text \<open>\<open>writeFile\<close> with flag \<open>wx\<close>\<close>

definition q_write :: "queue_env \<Rightarrow> string \<Rightarrow> pending_entry \<Rightarrow> queue_state \<Rightarrow> write_outcome \<times> queue_state" where
  "q_write env f e st =
     (if map_of (qs_files st) f \<noteq> None then (AlreadyExists, st)
      else case qe_fault env QWrite f of
             None \<Rightarrow> (Written, add_file f (Stored e) st)
           | Some (Refused msg) \<Rightarrow> (WriteError msg, st)
           | Some (Halfway msg) \<Rightarrow> (WriteError msg, add_file f Garbage st))"

subsection \<open>Finding, recovering and enqueueing\<close>

fun find_in :: "queue_env \<Rightarrow> string \<Rightarrow> queue_state \<Rightarrow> string list \<Rightarrow> (string \<times> pending_entry) option" where
  "find_in env key st [] = None"
| "find_in env key st (f # fs) =
     (if \<not> startsWith f (key @ ''_'') then find_in env key st fs
      else if \<not> endsWith f ''.json'' \<and> \<not> endsWith f ''.processing'' then find_in env key st fs
      else case readEntry env f st of
             Some (Some e) \<Rightarrow> if pe_dedupKey e = key then Some (f, e) else find_in env key st fs
           | _ \<Rightarrow> find_in env key st fs)"

definition findExistingByDedupKey :: "queue_env \<Rightarrow> string \<Rightarrow> queue_state \<Rightarrow> (string \<times> pending_entry) option" where
  "findExistingByDedupKey env key st =
     (case q_readdir env st of None \<Rightarrow> None | Some fs \<Rightarrow> find_in env key st fs)"

fun recover_files :: "queue_env \<Rightarrow> string list \<Rightarrow> nat \<Rightarrow> queue_state \<Rightarrow> nat \<times> queue_state" where
  "recover_files env [] n st = (n, st)"
| "recover_files env (f # fs) n st =
     (if \<not> endsWith f ''.processing'' then recover_files env fs n st
      else case q_mtime env f st of
             None \<Rightarrow> recover_files env fs n st
           | Some m \<Rightarrow>
               if qs_now st - m < PROCESSING_STALE_MS then recover_files env fs n st
               else (case q_rename env f (pendingFromProcessingFilename f) st of
                       (ok, st') \<Rightarrow> recover_files env fs (if ok then n + 1 else n) st'))"

definition recoverStaleProcessing :: "queue_env \<Rightarrow> queue_state \<Rightarrow> nat \<times> queue_state" where
  "recoverStaleProcessing env st =
     (case q_readdir env st of None \<Rightarrow> (0, st) | Some fs \<Rightarrow> recover_files env fs 0 st)"

record enqueue_result =
  er_ok :: bool
  er_path :: "string option"
  er_deduped :: bool
  er_dedupKey :: string
  er_error :: "string option"

definition fault_message :: "queue_fault \<Rightarrow> string" where
  "fault_message f = (case f of Refused m \<Rightarrow> m | Halfway m \<Rightarrow> m)"

definition enqueue ::
  "queue_env \<Rightarrow> string \<Rightarrow> string \<Rightarrow> json \<Rightarrow> int option \<Rightarrow> string option \<Rightarrow> queue_state \<Rightarrow> enqueue_result \<times> queue_state" where
  "enqueue env kind sessionId payload createdAt user st =
     (let now = (case createdAt of Some t \<Rightarrow> t | None \<Rightarrow> qs_now st);
          key = makeDedupKey (qe_sha256 env) (qe_numText env) kind sessionId payload;
          filename = pendingFilename key 0;
          entry = \<lparr>pe_type = kind, pe_sessionId = sessionId, pe_payload = payload, pe_createdAt = now,
                   pe_retries = 0, pe_dedupKey = key, pe_user = map_option JStr user\<rparr>;
          refused = (\<lambda>msg. \<lparr>er_ok = False, er_path = None, er_deduped = False, er_dedupKey = key, er_error = Some msg\<rparr>);
          accepted = (\<lambda>path dup. \<lparr>er_ok = True, er_path = Some path, er_deduped = dup, er_dedupKey = key, er_error = None\<rparr>)
      in case qe_fault env QMkdir '''' of
           Some fault \<Rightarrow> (refused (fault_message fault), st)
         | None \<Rightarrow>
             (case findExistingByDedupKey env key st of
                Some (path, _) \<Rightarrow> (accepted path True, st)
              | None \<Rightarrow>
                  (case q_write env filename entry st of
                     (Written, st') \<Rightarrow> (accepted filename False, st')
                   | (WriteError msg, st') \<Rightarrow> (refused msg, st')
                   | (AlreadyExists, st') \<Rightarrow>
                       (case findExistingByDedupKey env key st' of
                          Some (path, _) \<Rightarrow> (accepted path True, st')
                        | None \<Rightarrow>
                            (refused (''pending file exists but dedup entry was not readable: '' @ filename), st')))))"

subsection \<open>Listing, claiming and removing\<close>

fun read_all :: "queue_env \<Rightarrow> queue_state \<Rightarrow> string list \<Rightarrow> (string \<times> pending_entry option) list" where
  "read_all env st [] = []"
| "read_all env st (f # fs) =
     (if \<not> endsWith f ''.json'' then read_all env st fs
      else case readEntry env f st of None \<Rightarrow> read_all env st fs | Some e \<Rightarrow> (f, e) # read_all env st fs)"

definition created_at :: "string \<times> pending_entry option \<Rightarrow> int" where
  "created_at item = (case snd item of Some e \<Rightarrow> pe_createdAt e | None \<Rightarrow> 0)"

text \<open>The comparison reads \<open>createdAt\<close> of every item once there are two.\<close>

definition listPending ::
  "queue_env \<Rightarrow> queue_state \<Rightarrow> (queue_error + (string \<times> pending_entry option) list) \<times> queue_state" where
  "listPending env st =
     (case recoverStaleProcessing env st of (n, st') \<Rightarrow>
        (case q_readdir env st' of
           None \<Rightarrow> (Inr [], st')
         | Some fs \<Rightarrow>
             (let items = read_all env st' fs in
              if 2 \<le> length items \<and> None \<in> snd ` set items then (Inl TypeError, st')
              else (Inr (sort_key created_at items), st'))))"

definition claimForReplay :: "queue_env \<Rightarrow> string \<Rightarrow> queue_state \<Rightarrow> string option \<times> queue_state" where
  "claimForReplay env f st =
     (if \<not> endsWith f ''.json'' then (None, st)
      else case q_rename env f (processingFilename f) st of
             (True, st') \<Rightarrow> (Some (processingFilename f), st')
           | (False, st') \<Rightarrow> (None, st'))"

definition releaseClaim :: "queue_env \<Rightarrow> string \<Rightarrow> queue_state \<Rightarrow> string option \<times> queue_state" where
  "releaseClaim env f st =
     (if \<not> endsWith f ''.processing'' then (None, st)
      else case q_rename env f (pendingFromProcessingFilename f) st of
             (True, st') \<Rightarrow> (Some (pendingFromProcessingFilename f), st')
           | (False, st') \<Rightarrow> (None, st'))"

definition dequeue :: "queue_env \<Rightarrow> string \<Rightarrow> queue_state \<Rightarrow> bool \<times> queue_state" where
  "dequeue env f st = q_unlink env f st"

definition incrementRetry :: "queue_env \<Rightarrow> string \<Rightarrow> pending_entry \<Rightarrow> queue_state \<Rightarrow> bool \<times> queue_state" where
  "incrementRetry env f e st =
     (let e' = e\<lparr>pe_retries := pe_retries e + 1\<rparr> in
      if pe_retries e' > getMaxRetries env then (False, snd (q_unlink env f st))
      else
        let newFilename = retryFilename f (pe_retries e');
            tmp = newFilename @ ''.tmp.'' @ qe_pid env @ ''.'' @ int_text (qs_now st)
        in case q_write env tmp e' st of
             (Written, st1) \<Rightarrow>
               (case q_rename env tmp newFilename st1 of
                  (True, st2) \<Rightarrow> (True, snd (q_unlink env f st2))
                | (False, st2) \<Rightarrow> (False, snd (q_unlink env tmp st2)))
           | (_, st1) \<Rightarrow> (False, snd (q_unlink env tmp st1)))"

fun clean_items :: "queue_env \<Rightarrow> int \<Rightarrow> int \<Rightarrow> (string \<times> pending_entry option) list \<Rightarrow> nat \<Rightarrow> queue_state
    \<Rightarrow> (queue_error + nat) \<times> queue_state" where
  "clean_items env now ttl [] n st = (Inr n, st)"
| "clean_items env now ttl ((f, None) # items) n st = (Inl TypeError, st)"
| "clean_items env now ttl ((f, Some e) # items) n st =
     (if now - pe_createdAt e > ttl then clean_items env now ttl items (n + 1) (snd (dequeue env f st))
      else clean_items env now ttl items n st)"

definition cleanStale :: "queue_env \<Rightarrow> queue_state \<Rightarrow> (queue_error + nat) \<times> queue_state" where
  "cleanStale env st =
     (let now = qs_now st in
      case listPending env st of
        (Inl err, st') \<Rightarrow> (Inl err, st')
      | (Inr items, st') \<Rightarrow> clean_items env now (getTTLDays env * 24 * 60 * 60 * 1000) items 0 st')"

subsection \<open>Replay\<close>

definition retryableFlag :: "json option \<Rightarrow> json option" where
  "retryableFlag details =
     (case details of Some d \<Rightarrow> if js_isObject d then jget d ''retryable'' else None | None \<Rightarrow> None)"

definition isRetryableFailure :: "fetch_result option \<Rightarrow> bool" where
  "isRetryableFailure res =
     (case res of
        None \<Rightarrow> False
      | Some r \<Rightarrow>
          if fr_ok r then False
          else let status = (case fr_status r of Some s \<Rightarrow> s | None \<Rightarrow> 0) in
            if status = 0 \<or> status = 408 \<or> status = 429 \<or> status \<ge> 500 then True
            else status = 409 \<and> retryableFlag (Option.bind (fr_error r) fe_details) = Some (JBool True))"

definition routingOf :: "pending_entry \<Rightarrow> string option" where
  "routingOf e = (case pe_user e of Some (JStr u) \<Rightarrow> Some u | _ \<Rightarrow> None)"

text \<open>\<open>payload || {}\<close>\<close>

definition payload_or_empty :: "json \<Rightarrow> json" where
  "payload_or_empty p =
     (if p = JNull \<or> p = JBool False \<or> p = JStr '''' \<or> p = JNum (Fin 0) \<or> p = JNum NaN then JObj [] else p)"

definition replay_call :: "queue_env \<Rightarrow> pending_entry \<Rightarrow> pending_call option" where
  "replay_call env e =
     (if pe_type e = ''addMessage'' then
        Some \<lparr>pc_path = ''/api/v1/sessions/'' @ encodeURIComponent (pe_sessionId e) @ ''/messages'',
              pc_body = json_text (qe_numText env) (pe_payload e), pc_user = routingOf e\<rparr>
      else if pe_type e = ''commitSession'' then
        Some \<lparr>pc_path = ''/api/v1/sessions/'' @ encodeURIComponent (pe_sessionId e) @ ''/commit'',
              pc_body = json_text (qe_numText env) (payload_or_empty (pe_payload e)), pc_user = routingOf e\<rparr>
      else None)"

definition failed_result :: fetch_result where
  "failed_result = \<lparr>fr_ok = False, fr_status = None, fr_result_status = None, fr_result_trace = None,
     fr_error = None, fr_traceId = None\<rparr>"

definition send_call :: "queue_env \<Rightarrow> pending_entry \<Rightarrow> pending_call \<Rightarrow> queue_state \<Rightarrow> fetch_result \<times> queue_state" where
  "send_call env e call st =
     (let (answer, took) = qe_fetch env (length (qs_calls st)) call;
          res = (case answer of Some r \<Rightarrow> r | None \<Rightarrow> failed_result)
      in (res, st\<lparr>qs_now := qs_now st + int took, qs_calls := qs_calls st @ [(e, call, res)]\<rparr>))"

definition or_status :: "int option \<Rightarrow> int option \<Rightarrow> int option" where
  "or_status a b = (case a of Some n \<Rightarrow> if n \<noteq> 0 then a else b | None \<Rightarrow> b)"

definition or_text :: "string option \<Rightarrow> string option \<Rightarrow> string option" where
  "or_text a b = (case a of Some s \<Rightarrow> if s \<noteq> [] then a else b | None \<Rightarrow> b)"

definition commit_log :: "pending_entry \<Rightarrow> fetch_result \<Rightarrow> queue_log" where
  "commit_log e r =
     CommitReplay (pe_sessionId e) (fr_ok r) (or_status (fr_result_status r) (fr_status r))
       (or_text (fr_traceId r) (fr_result_trace r))
       (if fr_ok r then None else or_text (Option.bind (fr_error r) fe_message) (Option.bind (fr_error r) fe_code))"

record replay_count =
  rc_replayed :: nat
  rc_failed :: nat
  rc_skipped :: nat
  rc_deferred :: nat
  rc_processed :: nat

definition no_replays :: replay_count where
  "no_replays = \<lparr>rc_replayed = 0, rc_failed = 0, rc_skipped = 0, rc_deferred = 0, rc_processed = 0\<rparr>"

definition skip_one :: "replay_count \<Rightarrow> replay_count" where
  "skip_one c = c\<lparr>rc_skipped := rc_skipped c + 1\<rparr>"

text \<open>A claimed entry after a retryable failure.\<close>

definition put_back :: "queue_env \<Rightarrow> bool \<Rightarrow> string \<Rightarrow> pending_entry \<Rightarrow> fetch_result \<Rightarrow> queue_state \<Rightarrow> queue_state" where
  "put_back env consumeRetries claimed e res st =
     (if consumeRetries then snd (incrementRetry env claimed e st)
      else
        (case releaseClaim env claimed st of (released, st') \<Rightarrow>
           q_log ((if released = None then ReleaseFailed else ReplayDeferred)
                   (pe_sessionId e) (pe_type e) (or_status (fr_result_status res) (fr_status res)) (pe_retries e)) st'))"

text \<open>What becomes of a claimed entry once it is answered; the flag says that the run stops.\<close>

definition settle ::
  "queue_env \<Rightarrow> bool \<Rightarrow> nat \<Rightarrow> string \<Rightarrow> pending_entry \<Rightarrow> fetch_result \<Rightarrow> replay_count \<Rightarrow> queue_state
     \<Rightarrow> bool \<times> replay_count \<times> queue_state" where
  "settle env consumeRetries listed claimed e res c st =
     (if fr_ok res then (False, c\<lparr>rc_replayed := rc_replayed c + 1\<rparr>, snd (dequeue env claimed st))
      else if \<not> isRetryableFailure (Some res) then (False, skip_one c, snd (dequeue env claimed st))
      else
        let st' = put_back env consumeRetries claimed e res st;
            c' = c\<lparr>rc_failed := rc_failed c + 1\<rparr>
        in if pe_type e = ''addMessage''
           then (True, c'\<lparr>rc_deferred := rc_deferred c' + (listed - rc_processed c')\<rparr>, st')
           else (False, c', st'))"

definition replay_claimed ::
  "queue_env \<Rightarrow> bool \<Rightarrow> nat \<Rightarrow> string \<Rightarrow> pending_entry \<Rightarrow> replay_count \<Rightarrow> queue_state
     \<Rightarrow> bool \<times> replay_count \<times> queue_state" where
  "replay_claimed env consumeRetries listed claimed e c st =
     (case replay_call env e of
        None \<Rightarrow> (False, skip_one c, snd (dequeue env claimed st))
      | Some call \<Rightarrow>
          (case send_call env e call st of (res, st1) \<Rightarrow>
             (let st2 = (if pe_type e = ''commitSession'' then q_log (commit_log e res) st1 else st1)
              in settle env consumeRetries listed claimed e res c st2)))"

fun replay_loop ::
  "queue_env \<Rightarrow> bool \<Rightarrow> nat \<Rightarrow> (string \<times> pending_entry option) list \<Rightarrow> replay_count \<Rightarrow> queue_state
     \<Rightarrow> (queue_error + replay_count) \<times> queue_state" where
  "replay_loop env consumeRetries listed [] c st = (Inr c, st)"
| "replay_loop env consumeRetries listed ((f, item) # items) c st =
     (if int (rc_processed c) \<ge> getReplayLimit env
        then replay_loop env consumeRetries listed items (c\<lparr>rc_deferred := rc_deferred c + 1\<rparr>) st
      else case item of
        None \<Rightarrow> (Inl TypeError, st)
      | Some e \<Rightarrow>
          if pe_retries e \<ge> getMaxRetries env
            then replay_loop env consumeRetries listed items (skip_one c) (snd (dequeue env f st))
          else (case claimForReplay env f st of
                  (None, st1) \<Rightarrow> replay_loop env consumeRetries listed items (skip_one c) st1
                | (Some claimed, st1) \<Rightarrow>
                    (case replay_claimed env consumeRetries listed claimed e
                            (c\<lparr>rc_processed := rc_processed c + 1\<rparr>) st1 of
                       (stop, c', st2) \<Rightarrow>
                         if stop then (Inr c', st2) else replay_loop env consumeRetries listed items c' st2)))"

definition replayPending :: "queue_env \<Rightarrow> bool \<Rightarrow> queue_state \<Rightarrow> (queue_error + replay_count) \<times> queue_state" where
  "replayPending env consumeRetries st =
     (case listPending env st of
        (Inl err, st1) \<Rightarrow> (Inl err, st1)
      | (Inr pending, st1) \<Rightarrow>
          if pending = [] then (Inr no_replays, st1)
          else
            (case replay_loop env consumeRetries (length pending) pending no_replays
                    (q_log (ReplayStart (length pending) (getReplayLimit env)) st1) of
               (Inl err, st2) \<Rightarrow> (Inl err, st2)
             | (Inr c, st2) \<Rightarrow>
                 (case cleanStale env st2 of
                    (Inl err, st3) \<Rightarrow> (Inl err, st3)
                  | (Inr cleaned, st3) \<Rightarrow>
                      (Inr c, q_log (ReplayDone (rc_replayed c) (rc_failed c) (rc_skipped c) (rc_deferred c) cleaned) st3))))"

end
