(* ===== verification/PendFacts.thy ===== *)
theory PendFacts
  imports PendQueue
begin

text \<open>
  What the queue keeps. A queue file is named by the key of the entry it holds, its retry count
  and its claim; the names determine the key, so a rename that overwrites another file
  overwrites the same write. \<open>holds\<close> is the abstract queue, the set of keys with a
  stored entry; the lemmas say what each operation does to it.
\<close>

subsection \<open>Names\<close>

lemma endsWith_append [simp]: "endsWith (a @ s) s"
  by (simp add: endsWith_def)

lemma endsWith_ext: "endsWith f s \<Longrightarrow> f = take (length f - length s) f @ s"
  by (simp add: endsWith_def) (metis append_take_drop_id)

lemma endsWith_last: "endsWith f s \<Longrightarrow> s \<noteq> [] \<Longrightarrow> last f = last s"
  by (metis endsWith_ext last_appendR)

lemma json_not_processing: "endsWith f ''.json'' \<Longrightarrow> \<not> endsWith f ''.processing''"
  using endsWith_last [of f "''.json''"] endsWith_last [of f "''.processing''"] by auto

lemma processing_of [simp]: "processingFilename (b @ ''.json'') = b @ ''.processing''"
  by (simp add: processingFilename_def replace_end_def)

lemma pending_of [simp]: "pendingFromProcessingFilename (b @ ''.processing'') = b @ ''.json''"
  by (simp add: pendingFromProcessingFilename_def replace_end_def)

lemma bare_json [simp]: "bare_name (b @ ''.json'') = b"
  by (simp add: bare_name_def replace_end_def)

lemma bare_processing [simp]: "bare_name (b @ ''.processing'') = b"
  using json_not_processing [of "b @ ''.processing''"] by (auto simp: bare_name_def replace_end_def)

lemma nat_text_digits: "nat_text n \<noteq> [] \<and> list_all ascii_digit (nat_text n)"
proof (induction n rule: nat_text.induct)
  case (1 n)
  have "ascii_digit (char_of (48 + m))" if "m < 10" for m :: nat
    using that by (simp add: ascii_digit_def of_char_of)
  then show ?case using 1 by (subst nat_text.simps) (auto simp: nat_text.simps [of n])
qed

lemma int_text_digits: "0 \<le> i \<Longrightarrow> int_text i \<noteq> [] \<and> list_all ascii_digit (int_text i)"
  using nat_text_digits by (simp add: int_text_def)

lemma digits_stripped:
  assumes "list_all ascii_digit d"
  shows "rev (dropWhile ascii_digit (rev (k @ CHR ''_'' # d))) = k @ ''_''"
proof -
  have "\<And>c. c \<in> set (rev d) \<Longrightarrow> ascii_digit c" using assms by (simp add: list_all_iff)
  then have "dropWhile ascii_digit (rev d @ CHR ''_'' # rev k) = dropWhile ascii_digit (CHR ''_'' # rev k)"
    by (rule dropWhile_append2)
  also have "\<dots> = CHR ''_'' # rev k" by (simp add: ascii_digit_def)
  finally have "dropWhile ascii_digit (rev d @ CHR ''_'' # rev k) = CHR ''_'' # rev k" .
  then show ?thesis by simp
qed

lemma count_stem_of: "0 \<le> r \<Longrightarrow> count_stem (k @ CHR ''_'' # int_text r) = Some k"
  using digits_stripped [of "int_text r" k] int_text_digits [of r]
  by (auto simp: count_stem_def Let_def)

lemma count_stem_name:
  "0 \<le> r \<Longrightarrow> count_stem (bare_name (k @ CHR ''_'' # int_text r @ ''.json'')) = Some k"
  using count_stem_of [of r k] bare_json [of "k @ CHR ''_'' # int_text r"] by simp

text \<open>\<open>f\<close> is a queue file name of the key \<open>k\<close>.\<close>

definition queue_name :: "string \<Rightarrow> bool" where
  "queue_name f \<longleftrightarrow> endsWith f ''.json'' \<or> endsWith f ''.processing''"

definition names :: "string \<Rightarrow> string \<Rightarrow> bool" where
  "names f k \<longleftrightarrow> queue_name f \<and> count_stem (bare_name f) = Some k"

lemma names_unique: "names f k \<Longrightarrow> names f k' \<Longrightarrow> k = k'"
  by (simp add: names_def)

lemma json_name: "queue_name (b @ ''.json'')" "queue_name (b @ ''.processing'')"
  by (simp_all add: queue_name_def)

lemma names_counted:
  assumes "0 \<le> r"
  shows "names (k @ ''_'' @ int_text r @ ''.json'') k"
  using json_name(1) [of "k @ CHR ''_'' # int_text r"] count_stem_name [OF assms, of k] by (simp add: names_def)

lemma names_pendingFilename [simp]: "names (pendingFilename k r) k"
  using names_counted [of "max 0 r"] by (simp add: pendingFilename_def)

lemma names_claimed:
  assumes "endsWith f ''.json''"
  shows "names (processingFilename f) k \<longleftrightarrow> names f k" "endsWith (processingFilename f) ''.processing''"
    "processingFilename f \<noteq> f" "pendingFromProcessingFilename (processingFilename f) = f"
proof -
  obtain b where f: "f = b @ ''.json''" using endsWith_ext [OF assms] by blast
  show "names (processingFilename f) k \<longleftrightarrow> names f k" "endsWith (processingFilename f) ''.processing''"
    "processingFilename f \<noteq> f" "pendingFromProcessingFilename (processingFilename f) = f"
    by (simp_all add: f names_def json_name)
qed

lemma names_released:
  assumes "endsWith f ''.processing''"
  shows "names (pendingFromProcessingFilename f) k \<longleftrightarrow> names f k" "endsWith (pendingFromProcessingFilename f) ''.json''"
    "pendingFromProcessingFilename f \<noteq> f" "processingFilename (pendingFromProcessingFilename f) = f"
proof -
  obtain b where f: "f = b @ ''.processing''" using endsWith_ext [OF assms] by blast
  show "names (pendingFromProcessingFilename f) k \<longleftrightarrow> names f k" "endsWith (pendingFromProcessingFilename f) ''.json''"
    "pendingFromProcessingFilename f \<noteq> f" "processingFilename (pendingFromProcessingFilename f) = f"
    by (simp_all add: f names_def json_name)
qed

lemma retry_name: "names f k \<Longrightarrow> retryFilename f r = k @ ''_'' @ int_text r @ ''.json''"
  by (simp add: names_def retryFilename_def)

text \<open>The temporary file of a retry is no queue file.\<close>

lemma tmp_not_queue: "\<not> queue_name (f @ ''.tmp.'' @ p @ ''.'' @ int_text t)"
proof -
  have "ascii_digit (last (int_text t)) \<and> int_text t \<noteq> []"
    using nat_text_digits [of "nat (- t)"] nat_text_digits [of "nat t"] by (simp add: int_text_def list_all_iff)
  then have d: "ascii_digit (last (f @ ''.tmp.'' @ p @ ''.'' @ int_text t))" by simp
  have "last g \<noteq> CHR ''n'' \<and> last g \<noteq> CHR ''g''" if "ascii_digit (last g)" for g
    using that by (auto simp: ascii_digit_def)
  with d show ?thesis
    using endsWith_last [of _ "''.json''"] endsWith_last [of _ "''.processing''"] unfolding queue_name_def by fastforce
qed

subsection \<open>The store\<close>

lemma map_of_add [simp]:
  "map_of fs f = None \<Longrightarrow> map_of (fs @ [(f, q)]) = (map_of fs)(f \<mapsto> q)"
  by (simp add: map_add_def fun_eq_iff split: option.splits)

lemma map_of_rename:
  assumes "a \<noteq> b"
  shows "map_of (rename_file a b fs) = (map_of fs)(a := None, b := map_of fs a)"
proof -
  have "map_of (map (\<lambda>p. if fst p = a then (b, snd p) else p) (amap_delete b gs)) =
      (map_of gs)(a := None, b := map_of gs a)" for gs
    using assms by (induction gs) (auto simp: amap_delete_def)
  then show ?thesis using assms by (simp add: rename_file_def)
qed

lemma distinct_rename:
  assumes "distinct (map fst fs)" "a \<noteq> b"
  shows "distinct (map fst (rename_file a b fs))"
proof -
  let ?gs = "amap_delete b fs" and ?h = "\<lambda>x. if x = a then b else x"
  have "inj_on ?h (set (map fst ?gs))" using keys_amap_delete [of b fs] by (auto simp: inj_on_def)
  moreover have "map fst (rename_file a b fs) = map ?h (map fst ?gs)" using assms(2) by (simp add: rename_file_def)
  ultimately show ?thesis using assms(1) by (simp only: distinct_map [of ?h]) simp
qed

definition stored_at :: "queue_state \<Rightarrow> string \<Rightarrow> pending_entry \<Rightarrow> bool" where
  "stored_at st f e \<longleftrightarrow> (case map_of (qs_files st) f of None \<Rightarrow> False | Some q \<Rightarrow> qf_text q = Stored e)"

definition holds :: "string \<Rightarrow> queue_state \<Rightarrow> bool" where
  "holds k st \<longleftrightarrow> (\<exists>f e. queue_name f \<and> stored_at st f e \<and> pe_dedupKey e = k)"

definition entries :: "queue_state \<Rightarrow> pending_entry set" where
  "entries st = {e. \<exists>f. queue_name f \<and> stored_at st f e}"

text \<open>Names are distinct, an entry is filed under a name of its key, and only entries are
  claimed.\<close>

definition file_ok :: "string \<times> queue_file \<Rightarrow> bool" where
  "file_ok p \<longleftrightarrow>
     (case qf_text (snd p) of
        Stored e \<Rightarrow> queue_name (fst p) \<longrightarrow> names (fst p) (pe_dedupKey e) \<and> 0 \<le> pe_retries e
      | _ \<Rightarrow> \<not> endsWith (fst p) ''.processing'')"

definition queue_ok :: "queue_state \<Rightarrow> bool" where
  "queue_ok st \<longleftrightarrow> distinct (map fst (qs_files st)) \<and> list_all file_ok (qs_files st)"

lemma queue_okI:
  assumes "distinct (map fst (qs_files st))" "\<And>f q. map_of (qs_files st) f = Some q \<Longrightarrow> file_ok (f, q)"
  shows "queue_ok st"
  using assms by (auto simp: queue_ok_def list_all_iff)

lemma queue_okD: "queue_ok st \<Longrightarrow> map_of (qs_files st) f = Some q \<Longrightarrow> file_ok (f, q)"
  by (auto simp: queue_ok_def list_all_iff dest!: map_of_SomeD)

lemma stored_names: "queue_ok st \<Longrightarrow> stored_at st f e \<Longrightarrow> queue_name f \<Longrightarrow> names f (pe_dedupKey e)"
  by (auto simp: stored_at_def file_ok_def dest!: queue_okD split: option.splits)

lemma stored_retries: "queue_ok st \<Longrightarrow> stored_at st f e \<Longrightarrow> queue_name f \<Longrightarrow> 0 \<le> pe_retries e"
  by (auto simp: stored_at_def file_ok_def dest!: queue_okD split: option.splits)

lemma claimed_stored:
  "queue_ok st \<Longrightarrow> endsWith f ''.processing'' \<Longrightarrow> map_of (qs_files st) f = Some q \<Longrightarrow> \<exists>e. qf_text q = Stored e"
  by (auto simp: file_ok_def dest!: queue_okD split: entry_text.splits)


subsection \<open>One run over the store\<close>

text \<open>
  What is said of a run from \<open>st0\<close>: every entry around is an initial one up to its
  retry count, and the key of an initial entry is still held unless it was answered for good,
  cannot be sent, or is past its retries or its age.
\<close>

definition ttl_ms :: "queue_env \<Rightarrow> int" where
  "ttl_ms env = getTTLDays env * 24 * 60 * 60 * 1000"

definition from_run :: "queue_state \<Rightarrow> pending_entry \<Rightarrow> bool" where
  "from_run st0 e \<longleftrightarrow> (\<exists>e0 \<in> entries st0. e = e0\<lparr>pe_retries := pe_retries e\<rparr>)"

definition accounted :: "queue_env \<Rightarrow> queue_state \<Rightarrow> queue_state \<Rightarrow> string \<Rightarrow> bool" where
  "accounted env st0 st k \<longleftrightarrow>
     (\<exists>(e, call, res) \<in> set (drop (length (qs_calls st0)) (qs_calls st)).
        pe_dedupKey e = k \<and> \<not> isRetryableFailure (Some res)) \<or>
     (\<exists>e \<in> entries st0. pe_dedupKey e = k \<and>
        (replay_call env e = None \<or> getMaxRetries env \<le> pe_retries e \<or> ttl_ms env < qs_now st - pe_createdAt e))"

definition replay_inv :: "queue_env \<Rightarrow> queue_state \<Rightarrow> queue_state \<Rightarrow> bool" where
  "replay_inv env st0 st \<longleftrightarrow>
     queue_ok st \<and> (\<forall>e \<in> entries st. from_run st0 e) \<and> length (qs_calls st0) \<le> length (qs_calls st) \<and>
     (\<forall>k. holds k st0 \<longrightarrow> holds k st \<or> accounted env st0 st k)"

lemma replay_invD:
  assumes "replay_inv env st0 st"
  shows "queue_ok st" "e \<in> entries st \<Longrightarrow> from_run st0 e" "length (qs_calls st0) \<le> length (qs_calls st)"
    "holds k st0 \<Longrightarrow> holds k st \<or> accounted env st0 st k"
  using assms by (auto simp: replay_inv_def)

lemma entriesI: "queue_name f \<Longrightarrow> stored_at st f e \<Longrightarrow> e \<in> entries st"
  by (auto simp: entries_def)

lemma replay_inv_start: "queue_ok st \<Longrightarrow> replay_inv env st st"
proof -
  have "from_run st e" if "e \<in> entries st" for e using that by (auto simp: from_run_def intro!: bexI [of _ e])
  then show "queue_ok st \<Longrightarrow> replay_inv env st st" by (simp add: replay_inv_def)
qed

lemma replay_inv_files:
  assumes "replay_inv env st0 st" "queue_ok st'" "qs_calls st' = qs_calls st" "qs_now st' = qs_now st"
    and "\<And>e. e \<in> entries st' \<Longrightarrow> e \<notin> entries st \<Longrightarrow> from_run st0 e"
    and "\<And>k. holds k st \<Longrightarrow> \<not> holds k st' \<Longrightarrow> accounted env st0 st k"
  shows "replay_inv env st0 st'"
proof -
  have a: "accounted env st0 st' k \<longleftrightarrow> accounted env st0 st k" for k by (simp add: accounted_def assms(3,4))
  show ?thesis using assms unfolding replay_inv_def a by metis
qed

text \<open>A file a pending item stands for: while it exists it holds an entry.\<close>

definition solid :: "queue_state \<Rightarrow> string \<Rightarrow> bool" where
  "solid st f \<longleftrightarrow> (case map_of (qs_files st) f of None \<Rightarrow> True | Some q \<Rightarrow> \<exists>e. qf_text q = Stored e)"

lemma solid_stored: "solid st f \<Longrightarrow> map_of (qs_files st) f = Some q \<Longrightarrow> \<exists>e. stored_at st f e"
  by (simp add: solid_def stored_at_def)

lemma rename_cases:
  "q_rename env a b st = (ok, st') \<Longrightarrow> (\<not> ok \<and> st' = st) \<or>
     (ok \<and> st' = st\<lparr>qs_files := rename_file a b (qs_files st)\<rparr> \<and> map_of (qs_files st) a \<noteq> None)"
  by (auto simp: q_rename_def split: if_splits)

lemma stored_at_rename:
  assumes "a \<noteq> b"
  shows "stored_at (st\<lparr>qs_files := rename_file a b (qs_files st)\<rparr>) f e \<longleftrightarrow>
     (if f = b then stored_at st a e else f \<noteq> a \<and> stored_at st f e)"
  using assms by (auto simp: stored_at_def map_of_rename)

text \<open>A rename to a name of the same key loses no key, whatever it overwrites.\<close>

lemma rename_holds:
  assumes "queue_ok st" "stored_at st a e" "names b (pe_dedupKey e)" "a \<noteq> b" "holds k st"
  shows "holds k (st\<lparr>qs_files := rename_file a b (qs_files st)\<rparr>)"
proof -
  note sa = stored_at_rename [OF assms(4), of st]
  obtain f e' where f: "queue_name f" "stored_at st f e'" "pe_dedupKey e' = k" using assms(5) by (auto simp: holds_def)
  show ?thesis
  proof (cases "f = a \<or> f = b")
    case True
    have "stored_at st a x \<Longrightarrow> x = e" for x using assms(2) by (auto simp: stored_at_def split: option.splits)
    then have "pe_dedupKey e = k"
      using True f stored_names [OF assms(1) f(2,1)] names_unique [OF assms(3)] by auto
    moreover have "queue_name b" using assms(3) by (simp add: names_def)
    ultimately show ?thesis using sa assms(2) unfolding holds_def by metis
  next
    case False
    then show ?thesis using f sa unfolding holds_def by metis
  qed
qed

lemma rename_run:
  assumes "replay_inv env st0 st" "stored_at st a e" "names b (pe_dedupKey e)" "a \<noteq> b" "from_run st0 e" "0 \<le> pe_retries e"
  defines "st' \<equiv> st\<lparr>qs_files := rename_file a b (qs_files st)\<rparr>"
  shows "replay_inv env st0 st'" "solid st f \<Longrightarrow> solid st' f" "stored_at st' b e"
proof -
  note sa = stored_at_rename [OF assms(4), of st, folded st'_def]
  have q: "queue_ok st" by (rule replay_invD [OF assms(1)])
  have ua: "e' = e" if "stored_at st a e'" for e' using that assms(2) by (auto simp: stored_at_def split: option.splits)
  have ok: "queue_ok st'"
  proof (rule queue_okI)
    show "distinct (map fst (qs_files st'))"
      using q distinct_rename [OF _ assms(4)] by (simp add: st'_def queue_ok_def)
    fix f q' assume m: "map_of (qs_files st') f = Some q'"
    show "file_ok (f, q')"
    proof (cases "f = b")
      case True
      then have "qf_text q' = Stored e" using m assms(2,4) by (simp add: st'_def map_of_rename stored_at_def split: option.splits)
      then show ?thesis using True assms(3,6) by (simp add: file_ok_def)
    next
      case False
      then show ?thesis using m q assms(4) queue_okD by (auto simp: st'_def map_of_rename split: if_splits)
    qed
  qed
  show "stored_at st' b e" using sa assms(2) by simp
  show "solid st f \<Longrightarrow> solid st' f"
    using assms(2,4) by (auto simp: st'_def solid_def map_of_rename stored_at_def split: option.splits)
  show "replay_inv env st0 st'"
  proof (rule replay_inv_files [OF assms(1) ok])
    show "qs_calls st' = qs_calls st" "qs_now st' = qs_now st" by (simp_all add: st'_def)
  next
    fix e' assume "e' \<in> entries st'" "e' \<notin> entries st"
    then show "from_run st0 e'" using assms(5) ua by (auto simp: entries_def sa split: if_splits)
  next
    fix k assume "holds k st" "\<not> holds k st'"
    then show "accounted env st0 st k" using rename_holds [OF q assms(2-4)] by (simp add: st'_def)
  qed
qed

lemma unlink_files: "qs_files (snd (q_unlink env f st)) = qs_files st \<or>
    qs_files (snd (q_unlink env f st)) = amap_delete f (qs_files st)"
  by (simp add: q_unlink_def)

lemma unlink_ok:
  assumes "queue_ok st"
  shows "queue_ok (snd (q_unlink env f st))"
proof -
  have "queue_ok (st\<lparr>qs_files := amap_delete f (qs_files st)\<rparr>)"
    using assms by (simp add: queue_ok_def list_all_iff) (auto simp: amap_delete_def)
  then show ?thesis using assms by (simp add: q_unlink_def)
qed

lemma unlink_run:
  assumes "replay_inv env st0 st" "\<And>e. queue_name f \<Longrightarrow> stored_at st f e \<Longrightarrow> accounted env st0 st (pe_dedupKey e) \<or>
      (\<exists>g e'. g \<noteq> f \<and> queue_name g \<and> stored_at st g e' \<and> pe_dedupKey e' = pe_dedupKey e)"
  defines "st' \<equiv> snd (q_unlink env f st)"
  shows "replay_inv env st0 st'" "solid st g \<Longrightarrow> solid st' g"
proof -
  have m: "map_of (qs_files st') = map_of (qs_files st) \<or> map_of (qs_files st') = (map_of (qs_files st))(f := None)"
    and r: "qs_calls st' = qs_calls st" "qs_now st' = qs_now st"
    by (simp_all add: st'_def q_unlink_def)
  have q: "queue_ok st" by (rule replay_invD [OF assms(1)])
  have sub: "map_of (qs_files st') g = Some x \<Longrightarrow> map_of (qs_files st) g = Some x" for g x
    using m by (auto split: if_splits)
  show "solid st g \<Longrightarrow> solid st' g" using m by (auto simp: solid_def)
  show "replay_inv env st0 st'"
  proof (rule replay_inv_files [OF assms(1) _ r])
    show "queue_ok st'" unfolding st'_def by (rule unlink_ok [OF q])
  next
    fix e assume "e \<in> entries st'" "e \<notin> entries st"
    then show "from_run st0 e" using sub by (auto simp: entries_def stored_at_def split: option.splits)
  next
    fix k assume h: "holds k st" "\<not> holds k st'"
    then obtain g e where g: "queue_name g" "stored_at st g e" "pe_dedupKey e = k" by (auto simp: holds_def)
    have "stored_at st' g e" if "g \<noteq> f" using that g(2) m by (auto simp: stored_at_def)
    then have e: "g = f" using g h(2) by (auto simp: holds_def)
    have "stored_at st' x e'" if "x \<noteq> f" "stored_at st x e'" for x e' using that m by (auto simp: stored_at_def)
    then show "accounted env st0 st k" using g h(2) assms(2) [of e] unfolding e holds_def by blast
  qed
qed

lemma add_tmp_run:
  assumes "replay_inv env st0 st" "\<not> queue_name f" "map_of (qs_files st) f = None"
  shows "replay_inv env st0 (add_file f t st)" "solid st g \<Longrightarrow> queue_name g \<Longrightarrow> solid (add_file f t st) g"
proof -
  let ?st = "add_file f t st"
  have q: "queue_ok st" by (rule replay_invD [OF assms(1)])
  have m: "map_of (qs_files ?st) = (map_of (qs_files st))(f \<mapsto> \<lparr>qf_mtime = qs_now st, qf_text = t\<rparr>)"
  proof -
    have "qs_files ?st = qs_files st @ [(f, \<lparr>qf_mtime = qs_now st, qf_text = t\<rparr>)]" by (simp add: add_file_def)
    then show ?thesis using map_of_add [OF assms(3)] by (simp only:)
  qed
  have f: "file_ok (f, x)" for x using assms(2) by (auto simp: file_ok_def queue_name_def split: entry_text.splits)
  have sa: "queue_name g \<Longrightarrow> stored_at ?st g e \<longleftrightarrow> stored_at st g e" for g e
    using assms(2) m by (auto simp: stored_at_def)
  show "solid st g \<Longrightarrow> queue_name g \<Longrightarrow> solid ?st g" using assms(2) m by (auto simp: solid_def)
  show "replay_inv env st0 ?st"
  proof (rule replay_inv_files [OF assms(1)])
    show "queue_ok ?st"
    proof (rule queue_okI)
      show "distinct (map fst (qs_files ?st))"
        using q assms(3) by (auto simp: queue_ok_def add_file_def map_of_eq_None_iff)
      show "file_ok (g, x)" if "map_of (qs_files ?st) g = Some x" for g x
        using that m f queue_okD [OF q] by (auto split: if_splits)
    qed
  qed (use sa in \<open>auto simp: add_file_def entries_def holds_def\<close>)
qed

lemma log_run [simp]:
  "replay_inv env st0 (q_log l st) \<longleftrightarrow> replay_inv env st0 st" "solid (q_log l st) f \<longleftrightarrow> solid st f"
  by (simp_all add: q_log_def replay_inv_def queue_ok_def entries_def holds_def stored_at_def accounted_def solid_def)

lemma send_run:
  assumes "replay_inv env st0 st" "send_call env e call st = (res, st')"
  shows "replay_inv env st0 st'" "solid st' f \<longleftrightarrow> solid st f" "qs_files st' = qs_files st"
    "\<not> isRetryableFailure (Some res) \<Longrightarrow> accounted env st0 st' (pe_dedupKey e)"
proof -
  have st': "qs_files st' = qs_files st" "qs_calls st' = qs_calls st @ [(e, call, res)]" "qs_now st \<le> qs_now st'"
    using assms(2) by (auto simp: send_call_def Let_def split: prod.splits)
  have l: "length (qs_calls st0) \<le> length (qs_calls st)" by (rule replay_invD [OF assms(1)])
  have ent: "entries st' = entries st" "holds k st' \<longleftrightarrow> holds k st" "queue_ok st' \<longleftrightarrow> queue_ok st" for k
    by (simp_all add: st' entries_def holds_def queue_ok_def stored_at_def)
  have mono: "accounted env st0 st k \<Longrightarrow> accounted env st0 st' k" for k
    using st'(3) l by (auto simp: accounted_def st'(2) intro: less_le_trans) 
  show "replay_inv env st0 st'"
    using assms(1) mono unfolding replay_inv_def ent by (auto simp: st'(2))
  show "solid st' f \<longleftrightarrow> solid st f" "qs_files st' = qs_files st" by (simp_all add: solid_def st')
  show "\<not> isRetryableFailure (Some res) \<Longrightarrow> accounted env st0 st' (pe_dedupKey e)"
    using l by (auto simp: accounted_def st'(2))
qed

subsection \<open>Recovering and listing\<close>

lemma recover_rename_run:
  assumes "replay_inv env st0 st" "endsWith f ''.processing''"
    and "q_rename env f (pendingFromProcessingFilename f) st = (ok, st')"
  shows "replay_inv env st0 st'" "solid st g \<Longrightarrow> solid st' g" "entries st' \<subseteq> entries st"
proof -
  let ?g = "pendingFromProcessingFilename f"
  have "replay_inv env st0 st' \<and> (solid st g \<longrightarrow> solid st' g) \<and> entries st' \<subseteq> entries st"
    using rename_cases [OF assms(3)]
  proof
    assume a: "ok \<and> st' = st\<lparr>qs_files := rename_file f ?g (qs_files st)\<rparr> \<and> map_of (qs_files st) f \<noteq> None"
    have q: "queue_ok st" by (rule replay_invD [OF assms(1)])
    obtain e where e: "stored_at st f e" using claimed_stored [OF q assms(2)] a by (auto simp: stored_at_def)
    have qn: "queue_name f" using assms(2) by (simp add: queue_name_def)
    have nm: "names ?g (pe_dedupKey e)" using names_released(1) [OF assms(2)] stored_names [OF q e qn] by simp
    have ne: "f \<noteq> ?g" using names_released(3) [OF assms(2)] by simp
    have fr: "from_run st0 e" using entriesI [OF qn e] replay_invD(2) [OF assms(1)] by blast
    have "entries st' \<subseteq> entries st"
      using a stored_at_rename [OF ne, of st] qn by (auto simp: entries_def split: if_splits)
    then show ?thesis
      using rename_run(1,2) [OF assms(1) e nm ne fr stored_retries [OF q e qn]] a by simp
  qed (use assms(1) in simp)
  then show "replay_inv env st0 st'" "solid st g \<Longrightarrow> solid st' g" "entries st' \<subseteq> entries st" by auto
qed

lemma recover_run:
  "replay_inv env st0 st \<Longrightarrow> replay_inv env st0 (snd (recover_files env fs n st)) \<and>
     (solid st g \<longrightarrow> solid (snd (recover_files env fs n st)) g) \<and> entries (snd (recover_files env fs n st)) \<subseteq> entries st"
proof (induction fs arbitrary: n st)
  case (Cons f fs)
  obtain ok st' where r: "q_rename env f (pendingFromProcessingFilename f) st = (ok, st')" by fastforce
  show ?case
  proof (cases "endsWith f ''.processing''")
    case True
    note s = recover_rename_run [OF Cons.prems True r]
    have m: "replay_inv env st0 (snd (recover_files env fs m st')) \<and>
        (solid st g \<longrightarrow> solid (snd (recover_files env fs m st')) g) \<and>
        entries (snd (recover_files env fs m st')) \<subseteq> entries st" for m
      using Cons.IH [OF s(1), of m] s(2,3) by blast
    show ?thesis using Cons.IH [OF Cons.prems, of n] m True r by (auto split: option.splits)
  qed (use Cons in simp)
qed simp

lemma read_all_sound:
  assumes "(f, it) \<in> set (read_all env st fs)"
  shows "endsWith f ''.json'' \<and> f \<in> set fs \<and> readEntry env f st = Some it"
  using assms by (induction fs) (auto split: if_splits option.splits)

lemma read_all_stored: "(f, Some e) \<in> set (read_all env st fs) \<Longrightarrow> endsWith f ''.json'' \<and> stored_at st f e"
  by (auto simp: readEntry_def stored_at_def dest!: read_all_sound split: if_splits option.splits entry_text.splits)

text \<open>What a listed item stands for.\<close>

definition listed_ok :: "queue_state \<Rightarrow> (string \<times> pending_entry option) \<Rightarrow> bool" where
  "listed_ok st item \<longleftrightarrow> (case snd item of None \<Rightarrow> True
     | Some e \<Rightarrow> endsWith (fst item) ''.json'' \<and> stored_at st (fst item) e)"

lemma list_run:
  assumes "replay_inv env st0 st" "listPending env st = (r, st')"
  shows "replay_inv env st0 st'" "entries st' \<subseteq> entries st" "r = Inr items \<Longrightarrow> list_all (listed_ok st') items"
proof -
  obtain n st1 where r1: "recoverStaleProcessing env st = (n, st1)" by fastforce
  have st': "st' = st1" using assms(2) r1 by (auto simp: listPending_def Let_def split: option.splits if_splits)
  have "snd (recoverStaleProcessing env st) = st \<or> (\<exists>fs. snd (recoverStaleProcessing env st) = snd (recover_files env fs 0 st))"
    by (auto simp: recoverStaleProcessing_def split: option.splits)
  then show "replay_inv env st0 st'" "entries st' \<subseteq> entries st" using recover_run [OF assms(1)] r1 assms(1) st' by auto
  have "list_all (listed_ok st1) (read_all env st1 fs)" for fs
    using read_all_stored by (auto simp: list_all_iff listed_ok_def split: option.splits)
  then show "r = Inr items \<Longrightarrow> list_all (listed_ok st') items"
    using assms(2) r1 st' by (auto simp: listPending_def Let_def list_all_iff split: option.splits if_splits)
qed

end
