(* ===== verification/PendReplay.thy ===== *)
theory PendReplay
  imports PendFacts "HOL-Library.Sublist"
begin

text \<open>
  A whole replay over the store: claiming, sending, settling, cleaning. The run invariant of
  PendFacts goes through every step; the requests a run adds are a subsequence of the
  listed entries, bounded by the limit, and end at the first message that may be sent again.
\<close>

subsection \<open>The store through a replay\<close>

text \<open>An item of the run: an initial entry, listed under one of its names.\<close>

definition item_ok :: "queue_state \<Rightarrow> queue_state \<Rightarrow> string \<times> pending_entry option \<Rightarrow> bool" where
  "item_ok st0 st item \<longleftrightarrow> (case snd item of None \<Rightarrow> True
     | Some e \<Rightarrow> endsWith (fst item) ''.json'' \<and> names (fst item) (pe_dedupKey e) \<and> 0 \<le> pe_retries e \<and>
         e \<in> entries st0 \<and> solid st (fst item))"

lemma item_ok_mono:
  "item_ok st0 st item \<Longrightarrow> (\<And>f. queue_name f \<Longrightarrow> solid st f \<Longrightarrow> solid st' f) \<Longrightarrow> item_ok st0 st' item"
  by (auto simp: item_ok_def queue_name_def split: option.splits)

lemma from_run_self: "e \<in> entries st0 \<Longrightarrow> from_run st0 e"
  by (auto simp: from_run_def intro: bexI [of _ e])

lemma from_run_retry: "from_run st0 e \<Longrightarrow> from_run st0 (e\<lparr>pe_retries := r\<rparr>)"
proof -
  assume "from_run st0 e"
  then obtain e0 where e0: "e0 \<in> entries st0" "e = e0\<lparr>pe_retries := pe_retries e\<rparr>" by (auto simp: from_run_def)
  have "e\<lparr>pe_retries := r\<rparr> = e0\<lparr>pe_retries := r\<rparr>" by (subst e0(2)) simp
  then show ?thesis using e0(1) by (auto simp: from_run_def)
qed

lemma claim_run:
  assumes "replay_inv env st0 st" "item_ok st0 st (f, Some e)" "claimForReplay env f st = (r, st')"
  shows "replay_inv env st0 st'" "solid st g \<Longrightarrow> solid st' g" "qs_calls st' = qs_calls st"
    "r = Some c \<Longrightarrow> c = processingFilename f \<and> names c (pe_dedupKey e) \<and>
       (\<exists>e'. stored_at st' c e' \<and> pe_dedupKey e' = pe_dedupKey e)"
proof -
  have i: "endsWith f ''.json''" "names f (pe_dedupKey e)" "solid st f" using assms(2) by (auto simp: item_ok_def)
  have q: "queue_ok st" by (rule replay_invD [OF assms(1)])
  have qn: "queue_name f" using i(1) by (simp add: queue_name_def)
  note c = names_claimed [OF i(1)]
  have "replay_inv env st0 st' \<and> (solid st g \<longrightarrow> solid st' g) \<and> qs_calls st' = qs_calls st \<and>
      (r = Some c \<longrightarrow> c = processingFilename f \<and> names c (pe_dedupKey e) \<and>
       (\<exists>e'. stored_at st' c e' \<and> pe_dedupKey e' = pe_dedupKey e))"
  proof (cases "r = None")
    case True
    then have "st' = st" using assms(3) by (auto simp: claimForReplay_def q_rename_def split: if_splits prod.splits bool.splits)
    then show ?thesis using True assms(1) by simp
  next
    case False
    then have r: "r = Some (processingFilename f)" "st' = st\<lparr>qs_files := rename_file f (processingFilename f) (qs_files st)\<rparr>"
      "map_of (qs_files st) f \<noteq> None"
      using assms(3) by (auto simp: claimForReplay_def q_rename_def split: if_splits prod.splits bool.splits)
    obtain e' where e': "stored_at st f e'" using solid_stored [OF i(3)] r(3) by blast
    have k: "pe_dedupKey e' = pe_dedupKey e" using names_unique [OF stored_names [OF q e' qn] i(2)] .
    have nm: "names (processingFilename f) (pe_dedupKey e')" using c(1) i(2) k by simp
    have fr: "from_run st0 e'" using entriesI [OF qn e'] replay_invD(2) [OF assms(1)] by blast
    note m = rename_run [OF assms(1) e' nm c(3) [symmetric] fr stored_retries [OF q e' qn]]
    show ?thesis using m k r c(1) i(2) by auto
  qed
  then show "replay_inv env st0 st'" "solid st g \<Longrightarrow> solid st' g" "qs_calls st' = qs_calls st"
    "r = Some c \<Longrightarrow> c = processingFilename f \<and> names c (pe_dedupKey e) \<and>
       (\<exists>e'. stored_at st' c e' \<and> pe_dedupKey e' = pe_dedupKey e)" by auto
qed

lemma dequeue_run:
  assumes "replay_inv env st0 st" "names f k" "accounted env st0 st k"
  shows "replay_inv env st0 (snd (dequeue env f st))" "solid st g \<Longrightarrow> solid (snd (dequeue env f st)) g"
proof -
  have q: "queue_ok st" by (rule replay_invD [OF assms(1)])
  have a: "accounted env st0 st (pe_dedupKey e)" if "stored_at st f e" "queue_name f" for e
    using names_unique [OF stored_names [OF q that] assms(2)] assms(3) by simp
  show "replay_inv env st0 (snd (dequeue env f st))" "solid st g \<Longrightarrow> solid (snd (dequeue env f st)) g"
    unfolding dequeue_def using unlink_run [OF assms(1), of f] a by blast+
qed

lemma unlink_calls [simp]:
  "qs_calls (snd (q_unlink env f st)) = qs_calls st" "qs_calls (snd (dequeue env f st)) = qs_calls st"
  "qs_now (snd (q_unlink env f st)) = qs_now st"
  by (simp_all add: q_unlink_def dequeue_def)

lemma q_write_Written:
  assumes "q_write env f e st = (Written, st')"
  shows "st' = add_file f (Stored e) st" "map_of (qs_files st) f = None" "stored_at st' f e"
proof -
  show s: "st' = add_file f (Stored e) st" "map_of (qs_files st) f = None"
    using assms by (auto simp: q_write_def split: if_splits option.splits queue_fault.splits)
  show "stored_at st' f e" unfolding s(1) using s(2) by (simp add: stored_at_def add_file_def map_add_def)
qed

text \<open>A retry that is refused half-way leaves the claimed file; one that succeeds leaves the
  entry under the next count.\<close>

lemma increment_run:
  assumes "replay_inv env st0 st" "names c (pe_dedupKey e)" "endsWith c ''.processing''"
    and "from_run st0 e" "pe_retries e < getMaxRetries env" "0 \<le> pe_retries e"
  defines "st' \<equiv> snd (incrementRetry env c e st)"
  shows "replay_inv env st0 st' \<and> (\<forall>g. queue_name g \<longrightarrow> solid st g \<longrightarrow> solid st' g) \<and> qs_calls st' = qs_calls st"
proof -
  let ?e = "e\<lparr>pe_retries := pe_retries e + 1\<rparr>"
  let ?new = "retryFilename c (pe_retries e + 1)"
  let ?tmp = "?new @ ''.tmp.'' @ qe_pid env @ ''.'' @ int_text (qs_now st)"
  have tmp: "\<not> queue_name ?tmp" by (rule tmp_not_queue)
  have new: "names ?new (pe_dedupKey ?e)" "endsWith ?new ''.json''"
  proof -
    have n: "?new = (pe_dedupKey e @ CHR ''_'' # int_text (pe_retries e + 1)) @ ''.json''"
      using retry_name [OF assms(2)] by simp
    show "endsWith ?new ''.json''" unfolding n by (rule endsWith_append)
    have "0 \<le> pe_retries e + 1" using assms(6) by simp
    from names_counted [OF this, of "pe_dedupKey e"] show "names ?new (pe_dedupKey ?e)"
      using retry_name [OF assms(2)] by simp
  qed
  have nc: "?new \<noteq> c" using new(2) json_not_processing assms(3) by metis
  have drop_tmp: "replay_inv env st0 (snd (q_unlink env ?tmp s)) \<and>
      (\<forall>g. queue_name g \<longrightarrow> solid s g \<longrightarrow> solid (snd (q_unlink env ?tmp s)) g)" if "replay_inv env st0 s" for s
    using unlink_run [OF that, of ?tmp] tmp by blast
  obtain w s1 where w: "q_write env ?tmp ?e st = (w, s1)" by fastforce
  have s1: "replay_inv env st0 s1 \<and> (\<forall>g. queue_name g \<longrightarrow> solid st g \<longrightarrow> solid s1 g) \<and> qs_calls s1 = qs_calls st"
    using w add_tmp_run [OF assms(1) tmp] assms(1)
    by (auto simp: q_write_def add_file_def split: if_splits option.splits queue_fault.splits)
  show ?thesis
  proof (cases "w = Written")
    case False
    then have "st' = snd (q_unlink env ?tmp s1)"
      using w assms(5) by (cases w) (simp_all add: st'_def incrementRetry_def Let_def)
    then show ?thesis using drop_tmp [of s1] s1 by simp
  next
    case True
    then have sta: "stored_at s1 ?tmp ?e"
      using w q_write_Written(3) by blast
    obtain ok s2 where r: "q_rename env ?tmp ?new s1 = (ok, s2)" by fastforce
    show ?thesis
    proof (cases ok)
      case False
      then have "s2 = s1" "st' = snd (q_unlink env ?tmp s2)"
        using w r True assms(5) rename_cases [OF r] by (simp_all add: st'_def incrementRetry_def Let_def)
      then show ?thesis using drop_tmp [of s1] s1 by simp
    next
      case ok: True
      have s2: "s2 = s1\<lparr>qs_files := rename_file ?tmp ?new (qs_files s1)\<rparr>" using rename_cases [OF r] ok by simp
      have ne: "?tmp \<noteq> ?new" by simp
      have r1: "replay_inv env st0 s1" using s1 by simp
      have r0: "0 \<le> pe_retries ?e" using assms(6) by simp
      note m = rename_run [OF r1 sta new(1) ne from_run_retry [OF assms(4)] r0, folded s2]
      have q2: "queue_ok s2" by (rule replay_invD [OF m(1)])
      have u: "\<exists>g e''. g \<noteq> c \<and> queue_name g \<and> stored_at s2 g e'' \<and> pe_dedupKey e'' = pe_dedupKey e'"
        if "queue_name c" "stored_at s2 c e'" for e'
        using names_unique [OF stored_names [OF q2 that(2,1)] assms(2)] m(3) nc new(1)
        by (intro exI [of _ ?new] exI [of _ ?e]) (simp add: names_def)
      have st': "st' = snd (q_unlink env c s2)"
        using w r True ok assms(5) by (simp add: st'_def incrementRetry_def Let_def)
      have "qs_calls s2 = qs_calls st" using s1 s2 by simp
      then show ?thesis
        unfolding st' using unlink_run [OF m(1), of c] u m(2) s1 by auto
    qed
  qed
qed


lemma release_run:
  assumes "replay_inv env st0 st" "endsWith c ''.processing''"
  shows "replay_inv env st0 (snd (releaseClaim env c st))" "solid st g \<Longrightarrow> solid (snd (releaseClaim env c st)) g"
    "qs_calls (snd (releaseClaim env c st)) = qs_calls st"
proof -
  obtain ok s where r: "q_rename env c (pendingFromProcessingFilename c) st = (ok, s)" by fastforce
  then have e: "snd (releaseClaim env c st) = s" using assms(2) by (auto simp: releaseClaim_def split: bool.splits)
  show "replay_inv env st0 (snd (releaseClaim env c st))" "solid st g \<Longrightarrow> solid (snd (releaseClaim env c st)) g"
    using recover_rename_run [OF assms r] e by auto
  show "qs_calls (snd (releaseClaim env c st)) = qs_calls st" unfolding e using rename_cases [OF r] by auto
qed

lemma q_log_calls [simp]: "qs_calls (q_log l st) = qs_calls st" "qs_now (q_log l st) = qs_now st"
    "qs_files (q_log l st) = qs_files st"
  by (simp_all add: q_log_def)

lemma put_back_run:
  assumes "replay_inv env st0 st" "names c (pe_dedupKey e)" "endsWith c ''.processing''"
    and "from_run st0 e" "pe_retries e < getMaxRetries env" "0 \<le> pe_retries e"
  shows "replay_inv env st0 (put_back env cons c e res st)" "queue_name g \<Longrightarrow> solid st g \<Longrightarrow> solid (put_back env cons c e res st) g"
    "qs_calls (put_back env cons c e res st) = qs_calls st"
  using increment_run [OF assms] release_run [OF assms(1,3)] by (auto simp: put_back_def split: prod.splits)

lemma retryable_not_ok: "fr_ok res \<Longrightarrow> \<not> isRetryableFailure (Some res)"
  by (simp add: isRetryableFailure_def)

lemma settle_run:
  assumes "replay_inv env st0 st" "names c (pe_dedupKey e)" "endsWith c ''.processing''"
    and "e \<in> entries st0" "pe_retries e < getMaxRetries env" "0 \<le> pe_retries e"
    and "\<not> isRetryableFailure (Some res) \<Longrightarrow> accounted env st0 st (pe_dedupKey e)"
    and "settle env cons listed c e res n st = (stop, n', st')"
  shows "replay_inv env st0 st'" "queue_name g \<Longrightarrow> solid st g \<Longrightarrow> solid st' g" "qs_calls st' = qs_calls st"
    "rc_processed n' = rc_processed n"
    "stop \<longleftrightarrow> isRetryableFailure (Some res) \<and> pe_type e = ''addMessage''"
  using assms(8) put_back_run [OF assms(1-3) from_run_self [OF assms(4)] assms(5,6)]
    dequeue_run [OF assms(1,2) assms(7)] retryable_not_ok [of res]
  by (auto simp: settle_def Let_def skip_one_def split: if_splits)

lemma claimed_run:
  assumes "replay_inv env st0 st" "names c (pe_dedupKey e)" "endsWith c ''.processing''"
    and "e \<in> entries st0" "pe_retries e < getMaxRetries env" "0 \<le> pe_retries e"
    and "replay_claimed env cons listed c e n st = (stop, n', st')"
  shows "replay_inv env st0 st'" "queue_name g \<Longrightarrow> solid st g \<Longrightarrow> solid st' g" "rc_processed n' = rc_processed n"
    "\<exists>new. qs_calls st' = qs_calls st @ new \<and> length new \<le> 1 \<and>
       (\<forall>(e', call, res) \<in> set new. e' = e \<and> replay_call env e = Some call \<and>
          (stop \<longleftrightarrow> isRetryableFailure (Some res) \<and> pe_type e = ''addMessage''))"
    "stop \<Longrightarrow> qs_calls st' \<noteq> qs_calls st"
proof -
  have "replay_inv env st0 st' \<and> (queue_name g \<longrightarrow> solid st g \<longrightarrow> solid st' g) \<and> rc_processed n' = rc_processed n \<and>
    (\<exists>new. qs_calls st' = qs_calls st @ new \<and> length new \<le> 1 \<and>
       (\<forall>(e', call, res) \<in> set new. e' = e \<and> replay_call env e = Some call \<and>
          (stop \<longleftrightarrow> isRetryableFailure (Some res) \<and> pe_type e = ''addMessage''))) \<and>
    (stop \<longrightarrow> qs_calls st' \<noteq> qs_calls st)"
  proof (cases "replay_call env e")
    case None
    then have "accounted env st0 st (pe_dedupKey e)" using assms(4) by (auto simp: accounted_def)
    from dequeue_run [OF assms(1,2) this] show ?thesis
      using assms(7) None by (auto simp: replay_claimed_def skip_one_def)
  next
    case (Some call)
    obtain res s1 where s: "send_call env e call st = (res, s1)" by fastforce
    define s2 where "s2 = (if pe_type e = ''commitSession'' then q_log (commit_log e res) s1 else s1)"
    have st: "settle env cons listed c e res n s2 = (stop, n', st')"
      using assms(7) Some s by (simp add: replay_claimed_def s2_def)
    note m = send_run [OF assms(1) s]
    have r2: "replay_inv env st0 s2" using m(1) by (simp add: s2_def)
    have a2: "\<not> isRetryableFailure (Some res) \<Longrightarrow> accounted env st0 s2 (pe_dedupKey e)"
      using m(4) by (simp add: s2_def accounted_def)
    have so: "solid s2 g \<longleftrightarrow> solid st g" using m(2) by (simp add: s2_def)
    have c2: "qs_calls s2 = qs_calls st @ [(e, call, res)]"
      using s by (auto simp: s2_def send_call_def Let_def split: prod.splits)
    show ?thesis using settle_run [OF r2 assms(2-6) a2 st] so c2 Some by auto
  qed
  then show "replay_inv env st0 st'" "queue_name g \<Longrightarrow> solid st g \<Longrightarrow> solid st' g" "rc_processed n' = rc_processed n"
    "\<exists>new. qs_calls st' = qs_calls st @ new \<and> length new \<le> 1 \<and>
       (\<forall>(e', call, res) \<in> set new. e' = e \<and> replay_call env e = Some call \<and>
          (stop \<longleftrightarrow> isRetryableFailure (Some res) \<and> pe_type e = ''addMessage''))"
    "stop \<Longrightarrow> qs_calls st' \<noteq> qs_calls st" by auto
qed


subsection \<open>The loop\<close>

text \<open>The request after which a run stops.\<close>

definition stops :: "pending_entry \<times> pending_call \<times> fetch_result \<Rightarrow> bool" where
  "stops x \<longleftrightarrow> (case x of (e, call, res) \<Rightarrow> isRetryableFailure (Some res) \<and> pe_type e = ''addMessage'')"

text \<open>What a run adds to the requests, from the items it goes through.\<close>

definition sent_run ::
  "queue_env \<Rightarrow> pending_entry option list \<Rightarrow> int \<Rightarrow> (pending_entry \<times> pending_call \<times> fetch_result) list \<Rightarrow> bool" where
  "sent_run env items room new \<longleftrightarrow>
     subseq (map (Some \<circ> fst) new) items \<and> int (length new) \<le> max 0 room \<and>
     list_all (\<lambda>(e, call, res). replay_call env e = Some call \<and> pe_retries e < getMaxRetries env) new \<and>
     list_all (\<lambda>x. \<not> stops x) (butlast new)"

lemma sent_run_Nil [simp]: "sent_run env items room []"
  by (simp add: sent_run_def)

lemma sent_run_skip: "sent_run env items room new \<Longrightarrow> sent_run env (i # items) room new"
  by (auto simp: sent_run_def)

lemma sent_run_step:
  assumes "sent_run env items (room - 1) new" "0 < room" "length one \<le> 1"
    and "\<forall>(e', call, res) \<in> set one. e' = e \<and> replay_call env e = Some call \<and>
       (stop \<longleftrightarrow> isRetryableFailure (Some res) \<and> pe_type e = ''addMessage'')"
    and "pe_retries e < getMaxRetries env" "stop \<Longrightarrow> new = []"
  shows "sent_run env (Some e # items) room (one @ new)"
proof (cases one)
  case Nil
  then show ?thesis using assms(1,2) by (auto simp: sent_run_def)
next
  case (Cons x xs)
  then have o: "one = [x]" using assms(3) by simp
  obtain e' call res where x: "x = (e', call, res)" by (cases x)
  have "e' = e" "replay_call env e = Some call" "stops x \<longleftrightarrow> stop"
    using assms(4) by (simp_all add: o x stops_def)
  then show ?thesis using assms(1,2,5,6) by (auto simp: sent_run_def o x)
qed

lemma loop_run:
  assumes "replay_inv env st0 st" "list_all (item_ok st0 st) items" "replay_loop env cons listed items n st = (r, st')"
  shows "replay_inv env st0 st' \<and> (\<exists>new. qs_calls st' = qs_calls st @ new \<and>
    sent_run env (map snd items) (getReplayLimit env - int (rc_processed n)) new)"
  using assms
proof (induction items arbitrary: n st)
  case (Cons item items)
  obtain f it where item: "item = (f, it)" by fastforce
  have rest: "list_all (item_ok st0 st) items" and i: "item_ok st0 st (f, it)" using Cons.prems(2) by (simp_all add: item)
  have mono: "list_all (item_ok st0 s) items" if "\<And>g. queue_name g \<Longrightarrow> solid st g \<Longrightarrow> solid s g" for s
    using rest item_ok_mono that by (auto simp: list_all_iff)
  note skip = sent_run_skip [of env "map snd items" _ _ it]
  show ?case
  proof (cases "int (rc_processed n) \<ge> getReplayLimit env")
    case True
    then show ?thesis using Cons.IH [OF Cons.prems(1) rest] Cons.prems(3) skip by (fastforce simp: item)
  next
    case False
    show ?thesis
    proof (cases it)
      case None
      then show ?thesis using Cons.prems False by (auto simp: item)
    next
      case (Some e)
      have e: "endsWith f ''.json''" "names f (pe_dedupKey e)" "0 \<le> pe_retries e" "e \<in> entries st0"
        using i Some by (auto simp: item_ok_def)
      show ?thesis
      proof (cases "pe_retries e \<ge> getMaxRetries env")
        case True
        then have "accounted env st0 st (pe_dedupKey e)" using e(4) by (auto simp: accounted_def)
        note d = dequeue_run [OF Cons.prems(1) e(2) this]
        have l: "replay_loop env cons listed items (skip_one n) (snd (dequeue env f st)) = (r, st')"
          using Cons.prems(3) True False by (simp add: item Some)
        show ?thesis using Cons.IH [OF d(1) mono [OF d(2)] l] skip by (fastforce simp: item skip_one_def)
      next
        case lt: False
        obtain cl st1 where c: "claimForReplay env f st = (cl, st1)" by fastforce
        note m = claim_run [OF Cons.prems(1) i [unfolded Some] c]
        show ?thesis
        proof (cases cl)
          case None
          have l: "replay_loop env cons listed items (skip_one n) st1 = (r, st')"
            using Cons.prems(3) lt False c None by (simp add: item Some)
          show ?thesis using Cons.IH [OF m(1) mono [OF m(2)] l] skip m(3) by (fastforce simp: item skip_one_def)
        next
          case (Some claimed)
          let ?n = "n\<lparr>rc_processed := rc_processed n + 1\<rparr>"
          obtain stop n' st2 where rc: "replay_claimed env cons listed claimed e ?n st1 = (stop, n', st2)"
            by (metis prod_cases3)
          have cn: "names claimed (pe_dedupKey e)" "endsWith claimed ''.processing''"
            using m(4) [OF Some] names_claimed(2) [OF e(1)] by auto
          have lt': "pe_retries e < getMaxRetries env" using lt by simp
          note k = claimed_run [OF m(1) cn e(4) lt' e(3) rc]
          obtain one where one: "qs_calls st2 = qs_calls st1 @ one" "length one \<le> 1"
            "\<forall>(e', call, res) \<in> set one. e' = e \<and> replay_call env e = Some call \<and>
               (stop \<longleftrightarrow> isRetryableFailure (Some res) \<and> pe_type e = ''addMessage'')" using k(4) by blast
          have pos: "0 < getReplayLimit env - int (rc_processed n)" using False by simp
          note step = sent_run_step [OF _ pos one(2,3) lt']
          show ?thesis
          proof (cases stop)
            case True
            then have "st' = st2" using Cons.prems(3) lt' False c rc Some \<open>it = Some e\<close> by (simp add: item)
            then show ?thesis using k(1) step [of "map snd items" "[]"] one(1) m(3) \<open>it = Some e\<close> by (auto simp: item)
          next
            case go: False
            then have l: "replay_loop env cons listed items n' st2 = (r, st')"
              using Cons.prems(3) lt' False c rc Some \<open>it = Some e\<close> by (simp add: item)
            obtain new where new: "replay_inv env st0 st'" "qs_calls st' = qs_calls st2 @ new"
              "sent_run env (map snd items) (getReplayLimit env - int (rc_processed n')) new"
              using Cons.IH [OF k(1) mono l] k(2) m(2) by blast
            have "sent_run env (Some e # map snd items) (getReplayLimit env - int (rc_processed n)) (one @ new)"
              using step [of "map snd items" new] new(3) go k(3) by (simp add: algebra_simps)
            then show ?thesis using new(1,2) one(1) m(3) \<open>it = Some e\<close> by (auto simp: item)
          qed
        qed
      qed
    qed
  qed
qed simp


subsection \<open>The whole run\<close>

lemma clean_run:
  assumes "replay_inv env st0 st" "now = qs_now st" "ttl = ttl_ms env"
    and "\<And>f e. (f, Some e) \<in> set items \<Longrightarrow> names f (pe_dedupKey e) \<and> from_run st0 e"
  shows "replay_inv env st0 (snd (clean_items env now ttl items n st)) \<and>
    qs_calls (snd (clean_items env now ttl items n st)) = qs_calls st"
  using assms
proof (induction items arbitrary: n st)
  case (Cons item items)
  obtain f it where item: "item = (f, it)" by fastforce
  note rest = Cons.prems(4) [OF list.set_intros(2)]
  show ?case
  proof (cases it)
    case (Some e)
    show ?thesis
    proof (cases "now - pe_createdAt e > ttl")
      case True
      have i: "names f (pe_dedupKey e)" "from_run st0 e" using Cons.prems(4) [of f e] by (simp_all add: item Some)
      then obtain e0 where e0: "e0 \<in> entries st0" "e = e0\<lparr>pe_retries := pe_retries e\<rparr>" by (auto simp: from_run_def)
      then have "pe_dedupKey e0 = pe_dedupKey e" "pe_createdAt e0 = pe_createdAt e"
        by (metis pending_entry.simps(6) pending_entry.update_convs(5) pending_entry.surjective,
          metis pending_entry.simps(4) pending_entry.update_convs(5) pending_entry.surjective)
      then have "accounted env st0 st (pe_dedupKey e)"
        using True Cons.prems(2,3) e0(1) unfolding accounted_def by metis
      note d = dequeue_run(1) [OF Cons.prems(1) i(1) this]
      show ?thesis using Cons.IH [OF d _ Cons.prems(3) rest] True Cons.prems(2) by (simp add: item Some dequeue_def)
    next
      case False
      then show ?thesis using Cons.IH [OF Cons.prems(1-3) rest] by (simp add: item Some)
    qed
  qed (use Cons.prems in \<open>simp add: item\<close>)
qed simp

lemma recover_calls [simp]: "qs_calls (snd (recover_files env fs n st)) = qs_calls st"
  "qs_now (snd (recover_files env fs n st)) = qs_now st"
  by (induction env fs n st rule: recover_files.induct) (auto split: option.splits prod.splits simp: q_rename_def)

lemma list_calls:
  assumes "listPending env st = (r, st')"
  shows "qs_calls st' = qs_calls st \<and> qs_now st' = qs_now st"
proof -
  have "st' = snd (recoverStaleProcessing env st)"
    using assms by (auto simp: listPending_def Let_def split: option.splits if_splits prod.splits)
  then show ?thesis by (simp add: recoverStaleProcessing_def split: option.splits)
qed

lemma listed_item:
  assumes "replay_inv env st0 st" "listed_ok st (f, Some e)"
  shows "names f (pe_dedupKey e)" "from_run st0 e" "e \<in> entries st" "0 \<le> pe_retries e" "solid st f" "endsWith f ''.json''"
proof -
  have q: "queue_ok st" by (rule replay_invD [OF assms(1)])
  have s: "endsWith f ''.json''" "stored_at st f e" using assms(2) by (simp_all add: listed_ok_def)
  then have qn: "queue_name f" by (simp add: queue_name_def)
  show "names f (pe_dedupKey e)" "0 \<le> pe_retries e" using stored_names [OF q s(2) qn] stored_retries [OF q s(2) qn] by auto
  show "e \<in> entries st" using entriesI [OF qn s(2)] .
  then show "from_run st0 e" using replay_invD(2) [OF assms(1)] by blast
  show "solid st f" using s(2) by (auto simp: stored_at_def solid_def split: option.splits)
  show "endsWith f ''.json''" by (rule s)
qed

lemma cleanStale_run:
  assumes "replay_inv env st0 st"
  shows "replay_inv env st0 (snd (cleanStale env st)) \<and> qs_calls (snd (cleanStale env st)) = qs_calls st"
proof -
  obtain r st1 where l: "listPending env st = (r, st1)" by fastforce
  note m = list_run [OF assms l]
  show ?thesis
  proof (cases r)
    case (Inl err)
    then show ?thesis using l m(1) list_calls [OF l] by (simp add: cleanStale_def)
  next
    case (Inr items)
    have "names f (pe_dedupKey e) \<and> from_run st0 e" if "(f, Some e) \<in> set items" for f e
      using listed_item [OF m(1)] m(3) [OF Inr] that by (auto simp: list_all_iff)
    then have "replay_inv env st0 (snd (clean_items env (qs_now st) (ttl_ms env) items 0 st1)) \<and>
        qs_calls (snd (clean_items env (qs_now st) (ttl_ms env) items 0 st1)) = qs_calls st1"
      using list_calls [OF l] by (intro clean_run [OF m(1)]) auto
    then show ?thesis using l Inr list_calls [OF l] by (simp add: cleanStale_def ttl_ms_def Let_def)
  qed
qed

text \<open>The whole of a replay: the items it lists are in the order of their age, and what it
  sends comes from them.\<close>

lemma replay_run:
  assumes "queue_ok st" "replayPending env cons st = (r, st')"
  shows "replay_inv env st st'"
    "\<exists>items new. sorted (map created_at items) \<and> qs_calls st' = qs_calls st @ new \<and>
       sent_run env (map snd items) (getReplayLimit env) new"
proof -
  obtain l st1 where l: "listPending env st = (l, st1)" by fastforce
  note m = list_run [OF replay_inv_start [OF assms(1)] l]
  have "replay_inv env st st' \<and> (\<exists>items new. sorted (map created_at items) \<and> qs_calls st' = qs_calls st @ new \<and>
       sent_run env (map snd items) (getReplayLimit env) new)"
  proof (cases l)
    case (Inl err)
    then show ?thesis using assms(2) l m(1) list_calls [OF l]
      by (auto simp: replayPending_def intro!: exI [of _ "[]"])
  next
    case (Inr items)
    have "sorted (map created_at items)"
      using l Inr by (auto simp: listPending_def Let_def split: prod.splits option.splits if_splits)
    moreover have "replay_inv env st st' \<and> (\<exists>new. qs_calls st' = qs_calls st @ new \<and>
        sent_run env (map snd items) (getReplayLimit env) new)"
    proof (cases "items = []")
      case True
      then show ?thesis using assms(2) l Inr m(1) list_calls [OF l] by (auto simp: replayPending_def)
    next
      case False
      let ?s = "q_log (ReplayStart (length items) (getReplayLimit env)) st1"
      have "item_ok st st1 x" if x: "x \<in> set items" for x
      proof (cases x)
        case (Pair f it)
        then have lo: "listed_ok st1 (f, it)" using m(3) [OF Inr] x by (auto simp: list_all_iff)
        show ?thesis
          using listed_item [OF m(1)] lo m(2) by (cases it) (auto simp: Pair item_ok_def)
      qed
      then have ok: "list_all (item_ok st ?s) items"
        using item_ok_mono [of st st1 _ ?s] by (auto simp: list_all_iff)
      have i: "replay_inv env st ?s" using m(1) by simp
      obtain rr st2 where lp: "replay_loop env cons (length items) items no_replays ?s = (rr, st2)" by fastforce
      from loop_run [OF i ok lp] obtain new where n: "replay_inv env st st2" "qs_calls st2 = qs_calls st1 @ new"
        "sent_run env (map snd items) (getReplayLimit env) new" by (auto simp: no_replays_def)
      obtain cr st3 where cs: "cleanStale env st2 = (cr, st3)" by fastforce
      have c3: "replay_inv env st st3" "qs_calls st3 = qs_calls st2" using cleanStale_run [OF n(1)] cs by auto
      have "qs_calls st' = qs_calls st2 \<and> replay_inv env st st'"
        using assms(2) l Inr False lp cs n(1) c3
        by (auto simp: replayPending_def split: sum.splits)
      then show ?thesis using n list_calls [OF l] by auto
    qed
    ultimately show ?thesis by blast
  qed
  then show "replay_inv env st st'"
    "\<exists>items new. sorted (map created_at items) \<and> qs_calls st' = qs_calls st @ new \<and>
       sent_run env (map snd items) (getReplayLimit env) new" by auto
qed

end
