(* ===== verification/PendClaims.thy ===== *)
theory PendClaims
  imports PendReplay "HOL-Library.Multiset"
begin

text \<open>
  Enqueueing, the exclusiveness of a claim, and a replay against a server that answers.
\<close>

subsection \<open>Enqueueing\<close>

definition no_faults :: "queue_env \<Rightarrow> bool" where
  "no_faults env \<longleftrightarrow> qe_fault env = (\<lambda>_ _. None)"

definition dedup_key :: "queue_env \<Rightarrow> string \<Rightarrow> string \<Rightarrow> json \<Rightarrow> string" where
  "dedup_key env kind sid p = makeDedupKey (qe_sha256 env) (qe_numText env) kind sid p"

lemma find_in_sound:
  "find_in env key st fs = Some (f, e) \<Longrightarrow> stored_at st f e \<and> pe_dedupKey e = key \<and> queue_name f"
  by (induction fs)
    (auto simp: stored_at_def readEntry_def queue_name_def split: if_splits option.splits entry_text.splits)

lemma find_sound:
  "findExistingByDedupKey env key st = Some (f, e) \<Longrightarrow> stored_at st f e \<and> pe_dedupKey e = key \<and> queue_name f"
  using find_in_sound by (auto simp: findExistingByDedupKey_def split: option.splits)

lemma count_stem_prefix: "count_stem b = Some k \<Longrightarrow> \<exists>d. b = k @ ''_'' @ d"
proof -
  assume c: "count_stem b = Some k"
  define stem where "stem = rev (dropWhile ascii_digit (rev b))"
  have b: "b = stem @ rev (takeWhile ascii_digit (rev b))"
    unfolding stem_def rev_append [symmetric] takeWhile_dropWhile_id rev_rev_ident by (rule refl)
  have s: "stem \<noteq> []" "last stem = CHR ''_''" "k = butlast stem"
    using c by (simp_all add: count_stem_def Let_def flip: stem_def split: if_splits)
  have "stem = k @ ''_''" using append_butlast_last_id [OF s(1)] s(2,3) by simp
  then show ?thesis using b by (metis append.assoc)
qed

lemma bare_prefix: "\<exists>x. f = bare_name f @ x"
proof -
  have "\<exists>x. f = replace_end suf [] f @ x" for suf
    by (cases "endsWith f suf") (auto simp: replace_end_def intro!: exI [of _ "drop (length f - length suf) f"])
  then show ?thesis by (simp add: bare_name_def)
qed

lemma names_prefix: "names f k \<Longrightarrow> startsWith f (k @ ''_'')"
proof -
  assume "names f k"
  then obtain d where "bare_name f = k @ ''_'' @ d" using count_stem_prefix by (auto simp: names_def)
  then obtain x where "f = (k @ ''_'') @ d @ x" using bare_prefix [of f] by (metis append.assoc)
  then show ?thesis by (metis append_eq_conv_conj startsWith_def)
qed

lemma find_in_complete:
  assumes "no_faults env" "f \<in> set fs" "stored_at st f e" "names f (pe_dedupKey e)"
  shows "find_in env (pe_dedupKey e) st fs \<noteq> None"
  using assms(2)
proof (induction fs)
  case (Cons g fs)
  have "readEntry env f st = Some (Some e)"
    using assms(1,3) by (auto simp: readEntry_def no_faults_def stored_at_def split: option.splits)
  then show ?case using Cons assms(4) names_prefix [OF assms(4)]
    by (auto simp: names_def queue_name_def split: option.splits)
qed simp

lemma find_complete:
  assumes "no_faults env" "queue_ok st" "holds key st"
  shows "\<exists>f e. findExistingByDedupKey env key st = Some (f, e)"
proof -
  obtain f e where f: "queue_name f" "stored_at st f e" "pe_dedupKey e = key" using assms(3) by (auto simp: holds_def)
  then have "f \<in> set (map fst (qs_files st))"
    by (auto simp: stored_at_def dest!: map_of_SomeD split: option.splits) (metis fst_conv image_iff)
  then have "find_in env key st (map fst (qs_files st)) \<noteq> None"
    using find_in_complete [OF assms(1) _ f(2) stored_names [OF assms(2) f(2,1)]] f(3) by simp
  then show ?thesis using assms(1) by (auto simp: findExistingByDedupKey_def q_readdir_def no_faults_def)
qed

lemma add_file_at: "map_of (qs_files st) f = None \<Longrightarrow>
   map_of (qs_files (add_file f t st)) = (map_of (qs_files st))(f \<mapsto> \<lparr>qf_mtime = qs_now st, qf_text = t\<rparr>)"
  by (simp add: add_file_def map_add_def fun_eq_iff split: option.splits)

lemma stored_add_file:
  "map_of (qs_files st) f = None \<Longrightarrow>
     stored_at (add_file f t st) g e \<longleftrightarrow> (if g = f then t = Stored e else stored_at st g e)"
  "map_of (qs_files st) f = None \<Longrightarrow> \<not> stored_at st f e"
  by (auto simp: stored_at_def add_file_at)

lemma add_file_ok:
  assumes "queue_ok st" "map_of (qs_files st) f = None" "file_ok (f, \<lparr>qf_mtime = qs_now st, qf_text = t\<rparr>)"
  shows "queue_ok (add_file f t st)"
proof (rule queue_okI)
  show "distinct (map fst (qs_files (add_file f t st)))"
    using assms(1,2) by (auto simp: queue_ok_def add_file_def map_of_eq_None_iff)
  show "map_of (qs_files (add_file f t st)) g = Some q \<Longrightarrow> file_ok (g, q)" for g q
    unfolding add_file_at [OF assms(2)] using assms(3) queue_okD [OF assms(1)] by (auto split: if_splits)
qed

text \<open>The outcomes of \<open>enqueue\<close>: the entry written, one that was there, or none.\<close>

lemma enqueue_cases:
  assumes "enqueue env kind sid p t u st = (r, st')"
  defines "key \<equiv> dedup_key env kind sid p"
  defines "e \<equiv> \<lparr>pe_type = kind, pe_sessionId = sid, pe_payload = p,
       pe_createdAt = (case t of Some t \<Rightarrow> t | None \<Rightarrow> qs_now st), pe_retries = 0, pe_dedupKey = key,
       pe_user = map_option JStr u\<rparr>"
  shows "(er_ok r \<and> er_deduped r \<and> st' = st \<and>
       (\<exists>f e'. er_path r = Some f \<and> stored_at st f e' \<and> pe_dedupKey e' = key \<and> queue_name f)) \<or>
     (er_ok r \<and> \<not> er_deduped r \<and> er_path r = Some (pendingFilename key 0) \<and>
       map_of (qs_files st) (pendingFilename key 0) = None \<and> st' = add_file (pendingFilename key 0) (Stored e) st) \<or>
     (\<not> er_ok r \<and> (st' = st \<or>
       map_of (qs_files st) (pendingFilename key 0) = None \<and> st' = add_file (pendingFilename key 0) Garbage st))"
  using assms(1) find_sound [of env key st]
  unfolding enqueue_def Let_def dedup_key_def [symmetric] key_def [symmetric] e_def
  by (auto simp: q_write_def split: option.splits if_splits queue_fault.splits prod.splits)

lemma enqueue_keeps:
  assumes "enqueue env kind sid p t u st = (r, st')" "stored_at st g e"
  shows "stored_at st' g e"
  using enqueue_cases [OF assms(1)] assms(2) stored_add_file by metis

lemma pending_json: "endsWith (pendingFilename k n) ''.json''"
proof -
  have "pendingFilename k n = (k @ ''_'' @ int_text (max 0 n)) @ ''.json''" by (simp add: pendingFilename_def)
  then show ?thesis by (metis endsWith_append)
qed

lemma enqueue_ok_queue:
  assumes "enqueue env kind sid p t u st = (r, st')" "queue_ok st"
  shows "queue_ok st'"
proof -
  have "file_ok (pendingFilename k 0, \<lparr>qf_mtime = m, qf_text = Garbage\<rparr>)" for k m
    using pending_json json_not_processing by (auto simp: file_ok_def)
  then show ?thesis
    using enqueue_cases [OF assms(1)] assms(2) add_file_ok [OF assms(2)] by (auto simp: file_ok_def)
qed

lemma enqueue_refused_keeps:
  assumes "enqueue env kind sid p t u st = (r, st')" "\<not> er_ok r"
  shows "stored_at st' g e \<longleftrightarrow> stored_at st g e"
  using enqueue_cases [OF assms(1)] assms(2) stored_add_file entry_text.distinct by metis

subsection \<open>Any course of operations\<close>

text \<open>
  What a user of a store relies on: every operation keeps the store well formed and every item
  in it, or accounts for it. Then so does every course of operations.
\<close>

locale accounting_store =
  fixes ok :: "'s \<Rightarrow> bool" and has :: "'k \<Rightarrow> 's \<Rightarrow> bool"
    and step :: "'op \<Rightarrow> 's \<Rightarrow> 's" and acc :: "'op \<Rightarrow> 's \<Rightarrow> 's \<Rightarrow> 'k \<Rightarrow> bool"
  assumes step_ok: "ok s \<Longrightarrow> ok (step x s)"
    and step_keeps: "ok s \<Longrightarrow> has k s \<Longrightarrow> has k (step x s) \<or> acc x s (step x s) k"
begin

lemma course_ok: "ok s \<Longrightarrow> ok (fold step xs s)"
  by (induction xs arbitrary: s) (simp_all add: step_ok)

lemma course_keeps:
  assumes "ok s" "has k s"
  shows "has k (fold step xs s) \<or>
    (\<exists>pre x post. xs = pre @ x # post \<and> acc x (fold step pre s) (fold step (pre @ [x]) s) k)"
  using assms
proof (induction xs arbitrary: s)
  case (Cons x xs)
  show ?case
  proof (cases "has k (step x s)")
    case True
    from Cons.IH [OF step_ok [OF Cons.prems(1)] True] show ?thesis
    proof
      assume "\<exists>pre y post. xs = pre @ y # post \<and> acc y (fold step pre (step x s)) (fold step (pre @ [y]) (step x s)) k"
      then obtain pre y post where "xs = pre @ y # post" "acc y (fold step pre (step x s)) (fold step (pre @ [y]) (step x s)) k"
        by blast
      then have "x # xs = (x # pre) @ y # post \<and> acc y (fold step (x # pre) s) (fold step ((x # pre) @ [y]) s) k" by simp
      then show ?thesis by blast
    qed simp
  next
    case False
    then have "x # xs = [] @ x # xs \<and> acc x (fold step [] s) (fold step ([] @ [x]) s) k"
      using step_keeps [OF Cons.prems] by auto
    then show ?thesis by blast
  qed
qed simp

end

text \<open>The operations a process calls, each under the file system and server of its moment.\<close>

datatype queue_action =
    EnqueueStep queue_env string string json "int option" "string option"
  | ReplayStep queue_env bool
  | ListStep queue_env
  | CleanStep queue_env

fun step_env :: "queue_action \<Rightarrow> queue_env" where
  "step_env (EnqueueStep env kind sid p t u) = env"
| "step_env (ReplayStep env cons) = env"
| "step_env (ListStep env) = env"
| "step_env (CleanStep env) = env"

fun queue_step :: "queue_action \<Rightarrow> queue_state \<Rightarrow> queue_state" where
  "queue_step (EnqueueStep env kind sid p t u) st = snd (enqueue env kind sid p t u st)"
| "queue_step (ReplayStep env cons) st = snd (replayPending env cons st)"
| "queue_step (ListStep env) st = snd (listPending env st)"
| "queue_step (CleanStep env) st = snd (cleanStale env st)"

lemma queue_step_sound:
  assumes "queue_ok st"
  shows "queue_ok (queue_step x st) \<and>
    (holds k st \<longrightarrow> holds k (queue_step x st) \<or> accounted (step_env x) st (queue_step x st) k)"
proof -
  have inv: ?thesis if "replay_inv (step_env x) st (queue_step x st)"
    using replay_invD(1,4) [OF that] by blast
  show ?thesis
  proof (cases x)
    case (EnqueueStep env kind sid p t u)
    obtain r st' where e: "enqueue env kind sid p t u st = (r, st')" by fastforce
    have "holds k st \<longrightarrow> holds k st'" using enqueue_keeps [OF e] by (auto simp: holds_def)
    then show ?thesis using enqueue_ok_queue [OF e assms] e EnqueueStep by simp
  next
    case (ReplayStep env cons)
    then show ?thesis using replay_run(1) [OF assms] inv by (cases "replayPending env cons st") simp
  next
    case (ListStep env)
    then show ?thesis using list_run(1) [OF replay_inv_start [OF assms]] inv by (cases "listPending env st") simp
  next
    case (CleanStep env)
    then show ?thesis using cleanStale_run [OF replay_inv_start [OF assms]] inv by simp
  qed
qed

interpretation queue: accounting_store queue_ok holds queue_step "\<lambda>x. accounted (step_env x)"
  by unfold_locales (use queue_step_sound in blast)+

subsection \<open>Claims\<close>

lemma recover_other:
  assumes "no_faults env" "endsWith f ''.json''" "processingFilename f \<notin> set fs"
  shows "map_of (qs_files (snd (recover_files env fs n st))) f = map_of (qs_files st) f"
  using assms(3)
proof (induction fs arbitrary: n st)
  case (Cons g fs)
  show ?case
  proof (cases "endsWith g ''.processing''")
    case True
    have "f \<noteq> g" using True assms(2) json_not_processing by blast
    moreover have "f \<noteq> pendingFromProcessingFilename g" using names_released(4) [OF True] Cons.prems by auto
    moreover have "g \<noteq> pendingFromProcessingFilename g" using names_released(3) [OF True] by simp
    ultimately have "map_of (qs_files (snd (q_rename env g (pendingFromProcessingFilename g) st))) f = map_of (qs_files st) f"
      by (simp add: q_rename_def map_of_rename)
    then show ?thesis using True Cons by (auto split: option.splits prod.splits)
  qed (use Cons in simp)
qed simp

lemma recover_claimed:
  assumes "no_faults env" "endsWith f ''.json''" "processingFilename f \<in> set fs"
    and "map_of (qs_files st) (processingFilename f) = Some q" "map_of (qs_files st) f = None" "distinct fs"
  shows "map_of (qs_files (snd (recover_files env fs n st))) f =
     (if PROCESSING_STALE_MS \<le> qs_now st - qf_mtime q then Some q else None)"
  using assms(3-6)
proof (induction fs arbitrary: n st)
  case (Cons g fs)
  note c = names_claimed [OF assms(2)]
  show ?case
  proof (cases "g = processingFilename f")
    case True
    have "f \<noteq> g" using c(3) True by simp
    then have "map_of (qs_files (snd (q_rename env g f st))) f = Some q"
      using assms(1) Cons.prems True by (auto simp: q_rename_def no_faults_def map_of_rename)
    moreover have "processingFilename f \<notin> set fs" using True Cons.prems by simp
    note recover_other [OF assms(1,2) this]
    ultimately show ?thesis using True Cons.prems c assms(1)
      by (auto simp: q_mtime_def no_faults_def split: prod.splits)
  next
    case False
    then have i: "processingFilename f \<in> set fs" "distinct fs" using Cons.prems by auto
    show ?thesis
    proof (cases "endsWith g ''.processing''")
      case True
      have fg: "f \<noteq> g" using True assms(2) json_not_processing by blast
      have fp: "f \<noteq> pendingFromProcessingFilename g" using names_released(4) [OF True] False by auto
      have gp: "g \<noteq> pendingFromProcessingFilename g" using names_released(3) [OF True] by simp
      have cp: "processingFilename f \<noteq> pendingFromProcessingFilename g"
        using c(2) names_released(2) [OF True] json_not_processing by metis
      let ?s = "snd (q_rename env g (pendingFromProcessingFilename g) st)"
      have "map_of (qs_files ?s) f = map_of (qs_files st) f"
        "map_of (qs_files ?s) (processingFilename f) = map_of (qs_files st) (processingFilename f)" "qs_now ?s = qs_now st"
        using fg fp gp cp False by (auto simp: q_rename_def map_of_rename)
      then show ?thesis using Cons.IH [OF i(1) _ _ i(2), of ?s] Cons.IH [OF i(1) _ _ i(2), of st] Cons.prems True
        by (auto split: option.splits prod.splits)
    qed (use Cons i in simp)
  qed
qed simp

lemma read_all_names:
  "f \<in> fst ` set (read_all env st fs) \<longleftrightarrow> f \<in> set fs \<and> endsWith f ''.json'' \<and> readEntry env f st \<noteq> None"
  by (induction fs) (auto split: option.splits)

text \<open>A claimed file is listed again exactly when it was written ten minutes ago.\<close>

lemma claim_listed:
  assumes "no_faults env" "distinct (map fst (qs_files st))" "stored_at st f e"
    and "claimForReplay env f st = (Some c, st1)" "listPending env st1 = (Inr items, st2)"
  shows "f \<in> fst ` set items \<longleftrightarrow> PROCESSING_STALE_MS \<le> qs_now st - qf_mtime (the (map_of (qs_files st) f))"
proof -
  have j: "endsWith f ''.json''" and st1: "st1 = st\<lparr>qs_files := rename_file f (processingFilename f) (qs_files st)\<rparr>"
    using assms(4) by (auto simp: claimForReplay_def q_rename_def split: if_splits)
  obtain q where q: "map_of (qs_files st) f = Some q" "qf_text q = Stored e"
    using assms(3) by (auto simp: stored_at_def split: option.splits)
  have ne: "f \<noteq> processingFilename f" using names_claimed(3) [OF j] by simp
  have m1: "map_of (qs_files st1) f = None" "map_of (qs_files st1) (processingFilename f) = Some q" "qs_now st1 = qs_now st"
    using q ne by (simp_all add: st1 map_of_rename)
  have d: "distinct (map fst (qs_files st1))" using distinct_rename [OF assms(2) ne] by (simp add: st1)
  have i: "processingFilename f \<in> set (map fst (qs_files st1))"
    using m1(2) map_of_SomeD by (metis image_eqI fst_conv set_map)
  let ?s = "snd (recover_files env (map fst (qs_files st1)) 0 st1)"
  have rd: "q_readdir env s = Some (map fst (qs_files s))" for s using assms(1) by (simp add: q_readdir_def no_faults_def)
  have rs: "snd (recoverStaleProcessing env st1) = ?s" by (simp add: recoverStaleProcessing_def rd)
  have r: "map_of (qs_files ?s) f = (if PROCESSING_STALE_MS \<le> qs_now st - qf_mtime q then Some q else None)"
    using recover_claimed [OF assms(1) j i m1(2,1) d] m1(3) by simp
  have "fst ` set items = fst ` set (read_all env ?s (map fst (qs_files ?s)))"
    using assms(5) rs by (auto simp: listPending_def rd Let_def split: prod.splits if_splits)
  then have "f \<in> fst ` set items \<longleftrightarrow> f \<in> set (map fst (qs_files ?s)) \<and> readEntry env f ?s \<noteq> None"
    by (simp only: read_all_names j simp_thms)
  also have "\<dots> \<longleftrightarrow> PROCESSING_STALE_MS \<le> qs_now st - qf_mtime q"
  proof (cases "map_of (qs_files ?s) f")
    case None
    then show ?thesis using r by (auto simp: map_of_eq_None_iff split: if_splits)
  next
    case (Some x)
    then have "f \<in> set (map fst (qs_files ?s))" by (metis image_eqI fst_conv map_of_SomeD set_map)
    then show ?thesis using Some r q(2) assms(1) by (auto simp: readEntry_def no_faults_def split: if_splits)
  qed
  finally show ?thesis by (simp add: q(1))
qed


subsection \<open>A server that answers\<close>

definition healthy :: "queue_env \<Rightarrow> bool" where
  "healthy env \<longleftrightarrow> (\<forall>n call. \<exists>res took. qe_fetch env n call = (Some res, took) \<and> fr_ok res)"

text \<open>A directory of entries that can be sent, nothing claimed.\<close>

definition sendable :: "queue_env \<Rightarrow> string \<times> queue_file \<Rightarrow> bool" where
  "sendable env p \<longleftrightarrow> endsWith (fst p) ''.json'' \<and>
     (case qf_text (snd p) of
        Stored e \<Rightarrow> replay_call env e \<noteq> None \<and> pe_retries e < getMaxRetries env
      | _ \<Rightarrow> False)"

lemma claim_and_drop:
  assumes "list_all (\<lambda>p. endsWith (fst p) ''.json'') fs" "endsWith f ''.json''"
  shows "amap_delete (processingFilename f) (rename_file f (processingFilename f) fs) = amap_delete f fs"
proof -
  let ?c = "processingFilename f"
  have ne: "?c \<noteq> f" using names_claimed(3) [OF assms(2)] .
  have nc: "\<not> endsWith ?c ''.json''" using json_not_processing names_claimed(2) [OF assms(2)] by blast
  have fs: "fst p \<noteq> ?c" if "p \<in> set fs" for p
  proof
    assume "fst p = ?c"
    then show False using assms(1) that nc by (auto simp: list_all_iff)
  qed
  have d: "amap_delete ?c fs = fs" unfolding amap_delete_def by (rule filter_True) (use fs in blast)
  have "filter (\<lambda>p. fst p \<noteq> ?c) (map (\<lambda>p. if fst p = f then (?c, snd p) else p) gs) =
      filter (\<lambda>p. fst p \<noteq> f) gs" if "set gs \<subseteq> set fs" for gs
    using that fs ne by (induction gs) auto
  moreover have "rename_file f ?c fs = map (\<lambda>p. if fst p = f then (?c, snd p) else p) fs"
    using ne d by (auto simp: rename_file_def)
  ultimately show ?thesis by (simp add: amap_delete_def)
qed

lemma healthy_step:
  assumes "no_faults env" "healthy env" "list_all (\<lambda>p. endsWith (fst p) ''.json'') (qs_files st)"
    and "map_of (qs_files st) f \<noteq> None" "endsWith f ''.json''" "replay_call env e = Some call"
  shows "\<exists>st1 c' st2 res. claimForReplay env f st = (Some (processingFilename f), st1) \<and>
    replay_claimed env cons listed (processingFilename f) e n st1 = (False, n\<lparr>rc_replayed := rc_replayed n + 1\<rparr>, st2) \<and>
    qs_files st2 = amap_delete f (qs_files st) \<and> qs_calls st2 = qs_calls st @ [(e, call, res)]"
proof -
  let ?c = "processingFilename f"
  let ?s1 = "st\<lparr>qs_files := rename_file f ?c (qs_files st)\<rparr>"
  have c: "claimForReplay env f st = (Some ?c, ?s1)"
    using assms(1,4,5) by (auto simp: claimForReplay_def q_rename_def no_faults_def)
  obtain res took where r: "qe_fetch env (length (qs_calls st)) call = (Some res, took)" "fr_ok res"
    using assms(2) unfolding healthy_def by metis
  have m: "map_of (qs_files ?s1) ?c \<noteq> None"
    using assms(4) names_claimed(3) [OF assms(5)] by (simp add: map_of_rename)
  show ?thesis
    using c r m claim_and_drop [OF assms(3,5)] assms(1,6)
    by (auto simp: replay_claimed_def send_call_def settle_def dequeue_def q_unlink_def no_faults_def q_log_def Let_def)
qed

lemma healthy_loop:
  assumes "no_faults env" "healthy env" "list_all (\<lambda>p. endsWith (fst p) ''.json'') (qs_files st)"
    and "distinct (map fst items)" "int (rc_processed n) + int (length items) \<le> getReplayLimit env"
    and "list_all (\<lambda>x. endsWith (fst x) ''.json'' \<and> map_of (qs_files st) (fst x) \<noteq> None \<and>
      (case snd x of None \<Rightarrow> False | Some e \<Rightarrow> replay_call env e \<noteq> None \<and> pe_retries e < getMaxRetries env)) items"
  shows "\<exists>n' st'. replay_loop env cons listed items n st = (Inr n', st') \<and>
    qs_files st' = filter (\<lambda>p. fst p \<notin> fst ` set items) (qs_files st) \<and>
    map (Some \<circ> fst) (qs_calls st') = map (Some \<circ> fst) (qs_calls st) @ map snd items \<and>
    rc_replayed n' = rc_replayed n + length items \<and>
    rc_failed n' = rc_failed n \<and> rc_skipped n' = rc_skipped n \<and> rc_deferred n' = rc_deferred n"
  using assms(3-6)
proof (induction items arbitrary: n st)
  case (Cons item items)
  obtain f e where item: "item = (f, Some e)"
    using Cons.prems(4) by (cases item) (auto split: option.splits)
  obtain call where call: "replay_call env e = Some call" using Cons.prems(4) by (auto simp: item)
  have i: "endsWith f ''.json''" "map_of (qs_files st) f \<noteq> None" "pe_retries e < getMaxRetries env"
    using Cons.prems(4) by (simp_all add: item)
  let ?n = "n\<lparr>rc_processed := rc_processed n + 1\<rparr>"
  obtain st1 st2 res where s: "claimForReplay env f st = (Some (processingFilename f), st1)"
    "replay_claimed env cons listed (processingFilename f) e ?n st1 = (False, ?n\<lparr>rc_replayed := rc_replayed ?n + 1\<rparr>, st2)"
    "qs_files st2 = amap_delete f (qs_files st)" "qs_calls st2 = qs_calls st @ [(e, call, res)]"
    using healthy_step [OF assms(1,2) Cons.prems(1) i(2,1) call] by metis
  let ?m = "?n\<lparr>rc_replayed := rc_replayed ?n + 1\<rparr>"
  have l: "replay_loop env cons listed (item # items) n st = replay_loop env cons listed items ?m st2"
    using s(1,2) i Cons.prems(3) by (simp add: item)
  have p1: "list_all (\<lambda>p. endsWith (fst p) ''.json'') (qs_files st2)"
    using Cons.prems(1) by (auto simp: s(3) amap_delete_def list_all_iff)
  have nf: "f \<notin> fst ` set items" using Cons.prems(2) by (simp add: item)
  have p4: "list_all (\<lambda>x. endsWith (fst x) ''.json'' \<and> map_of (qs_files st2) (fst x) \<noteq> None \<and>
      (case snd x of None \<Rightarrow> False | Some e \<Rightarrow> replay_call env e \<noteq> None \<and> pe_retries e < getMaxRetries env)) items"
    using Cons.prems(4) nf by (force simp: list_all_iff s(3))
  have p2: "distinct (map fst items)" "int (rc_processed ?m) + int (length items) \<le> getReplayLimit env"
    using Cons.prems(2,3) by simp_all
  have f: "filter (\<lambda>p. fst p \<notin> fst ` set items) (amap_delete f (qs_files st)) =
      filter (\<lambda>p. fst p \<notin> fst ` set (item # items)) (qs_files st)"
    by (auto simp: amap_delete_def item intro!: filter_cong)
  show ?case using Cons.IH [OF p1 p2 p4] unfolding l by (auto simp: s(3,4) f item)
qed simp


definition entry_of :: "string \<times> queue_file \<Rightarrow> string \<times> pending_entry option" where
  "entry_of p = (fst p, case qf_text (snd p) of Stored e \<Rightarrow> Some e | _ \<Rightarrow> None)"

lemma list_sendable:
  assumes "no_faults env" "distinct (map fst (qs_files st))" "list_all (sendable env) (qs_files st)"
  shows "listPending env st = (Inr (sort_key created_at (map entry_of (qs_files st))), st)"
proof -
  have j: "endsWith (fst p) ''.json''" if "p \<in> set (qs_files st)" for p
    using assms(3) that by (simp add: list_all_iff sendable_def)
  have "recover_files env fs n st = (n, st)" if "list_all (\<lambda>f. \<not> endsWith f ''.processing'') fs" for fs n
    using that by (induction fs) simp_all
  moreover have "list_all (\<lambda>f. \<not> endsWith f ''.processing'') (map fst (qs_files st))"
    using j json_not_processing by (auto simp: list_all_iff)
  ultimately have r: "recoverStaleProcessing env st = (0, st)"
    using assms(1) by (simp add: recoverStaleProcessing_def q_readdir_def no_faults_def)
  have re: "readEntry env (fst p) st = Some (snd (entry_of p))" if "p \<in> set (qs_files st)" for p
  proof -
    have "map_of (qs_files st) (fst p) = Some (snd p)" using that assms(2) by simp
    then show ?thesis using assms(1,3) that
      by (auto simp: readEntry_def no_faults_def entry_of_def list_all_iff sendable_def split: entry_text.splits)
  qed
  have "read_all env st (map fst ps) = map entry_of ps" if "set ps \<subseteq> set (qs_files st)" for ps
    using that j re by (induction ps) (auto simp: entry_of_def)
  then have a: "read_all env st (map fst (qs_files st)) = map entry_of (qs_files st)" by simp
  have n: "None \<notin> snd ` set (map entry_of (qs_files st))"
    using assms(3) by (auto simp: entry_of_def list_all_iff sendable_def split: entry_text.splits)
  show ?thesis using r a n assms(1) by (simp add: listPending_def q_readdir_def no_faults_def Let_def)
qed

lemma sendable_clean:
  assumes "no_faults env" "qs_files st = []"
  shows "cleanStale env st = (Inr 0, st)"
  using list_sendable [OF assms(1), of st] assms by (simp add: cleanStale_def Let_def)

lemma healthy_run:
  assumes "no_faults env" "healthy env" "distinct (map fst (qs_files st))" "list_all (sendable env) (qs_files st)"
    and "int (length (qs_files st)) \<le> getReplayLimit env"
  shows "\<exists>c st'. replayPending env cons st = (Inr c, st') \<and> qs_files st' = [] \<and>
    map (Some \<circ> fst) (qs_calls st') = map (Some \<circ> fst) (qs_calls st) @
      map snd (sort_key created_at (map entry_of (qs_files st))) \<and>
    rc_replayed c = length (qs_files st) \<and> rc_failed c = 0 \<and> rc_skipped c = 0 \<and> rc_deferred c = 0"
proof -
  let ?items = "sort_key created_at (map entry_of (qs_files st))"
  note l = list_sendable [OF assms(1,3,4)]
  show ?thesis
  proof (cases "qs_files st = []")
    case True
    then show ?thesis using l by (simp add: replayPending_def no_replays_def)
  next
    case False
    let ?s = "q_log (ReplayStart (length ?items) (getReplayLimit env)) st"
    have f: "fst ` set ?items = fst ` set (qs_files st)" by (force simp: entry_of_def)
    have "mset (map fst ?items) = mset (map fst (qs_files st))"
      by (simp add: image_mset.compositionality comp_def entry_of_def)
    then have d: "distinct (map fst ?items)" using assms(3) by (metis mset_eq_imp_distinct_iff)
    have j: "list_all (\<lambda>p. endsWith (fst p) ''.json'') (qs_files ?s)"
      using assms(4) by (auto simp: list_all_iff sendable_def)
    have i: "list_all (\<lambda>x. endsWith (fst x) ''.json'' \<and> map_of (qs_files ?s) (fst x) \<noteq> None \<and>
      (case snd x of None \<Rightarrow> False | Some e \<Rightarrow> replay_call env e \<noteq> None \<and> pe_retries e < getMaxRetries env)) ?items"
      using assms(4) by (force simp: list_all_iff sendable_def entry_of_def map_of_eq_None_iff split: entry_text.splits)
    have n: "int (rc_processed no_replays) + int (length ?items) \<le> getReplayLimit env"
      using assms(5) by (simp add: no_replays_def)
    from healthy_loop [OF assms(1,2) j d n i, of cons "length ?items"]
    obtain n' st' where r: "replay_loop env cons (length ?items) ?items no_replays ?s = (Inr n', st')"
      "qs_files st' = filter (\<lambda>p. fst p \<notin> fst ` set ?items) (qs_files ?s)"
      "map (Some \<circ> fst) (qs_calls st') = map (Some \<circ> fst) (qs_calls ?s) @ map snd ?items"
      "rc_replayed n' = length (qs_files st)" "rc_failed n' = 0" "rc_skipped n' = 0" "rc_deferred n' = 0"
      by (auto simp: no_replays_def)
    have e: "qs_files st' = []" unfolding r(2) f by (simp add: filter_empty_conv)
    have ne: "?items \<noteq> []" using False by (metis length_0_conv length_map length_sort)
    show ?thesis using l r e ne sendable_clean [OF assms(1) e]
      by (auto simp: replayPending_def simp del: sort_key_simps)
  qed
qed

end
