(* ===== verification/PendRuntime.thy ===== *)
theory PendRuntime
  imports PendClaims
begin

text \<open>
  The part of \<open>plugins/dsh-openviking-memory/src/runtime.ts\<close> that decides whether a
  session's write is sent or queued, and as whom a queued write is sent again. A session is
  the part of \<open>SessionState\<close> these operations read and write; the writes of a session
  are serialised by its promise chain, so each operation is one step over the session and the
  world. The answers of the server to direct calls are a parameter, as is what one identity's
  transport answers to a replayed request. The profile and recall blocks are left out.
\<close>

subsection \<open>Identities\<close>

record runtime_state =
  rt_config_user :: string
  rt_scoping :: bool
  rt_owners :: "(string \<times> string) list"
  rt_accountScoped :: bool

text \<open>The identity of the client that \<open>clientFor\<close> answers with.\<close>

definition clientFor :: "runtime_state \<Rightarrow> string \<Rightarrow> string" where
  "clientFor rt user = (if user = '''' \<or> user = rt_config_user rt then rt_config_user rt else user)"

text \<open>\<open>decodeURIComponent\<close>, \<open>None\<close> where it throws; a sequence for a character
  at or above U+0100 is outside the model's characters and refused as well.\<close>

definition hex_nibble :: "char \<Rightarrow> nat option" where
  "hex_nibble c =
     (let n = of_char c :: nat in
      if 48 \<le> n \<and> n \<le> 57 then Some (n - 48)
      else if 65 \<le> n \<and> n \<le> 70 then Some (n - 55)
      else if 97 \<le> n \<and> n \<le> 102 then Some (n - 87)
      else None)"

fun percent_value :: "string \<Rightarrow> (nat \<times> string) option" where
  "percent_value (p # a # b # s) =
     (if p \<noteq> CHR ''%'' then None
      else case (hex_nibble a, hex_nibble b) of (Some h, Some l) \<Rightarrow> Some (16 * h + l, s) | _ \<Rightarrow> None)"
| "percent_value _ = None"

lemma percent_value_shorter: "percent_value s = Some (n, r) \<Longrightarrow> length r < length s"
  by (induction s rule: percent_value.induct) (auto split: if_splits option.splits prod.splits)

function decodeURIComponent :: "string \<Rightarrow> string option" where
  "decodeURIComponent s =
     (case s of
        [] \<Rightarrow> Some []
      | c # cs \<Rightarrow>
          if c \<noteq> CHR ''%'' then map_option (Cons c) (decodeURIComponent cs)
          else case percent_value s of
                 None \<Rightarrow> None
               | Some (n, r) \<Rightarrow>
                   if n < 128 then map_option (Cons (char_of n)) (decodeURIComponent r)
                   else if n < 194 \<or> 195 < n then None
                   else case percent_value r of
                          None \<Rightarrow> None
                        | Some (m, q) \<Rightarrow>
                            if m < 128 \<or> 191 < m then None
                            else map_option (Cons (char_of (64 * (n - 192) + (m - 128)))) (decodeURIComponent q))"
  by pat_completeness auto
termination
  by (relation "measure length") (auto dest!: percent_value_shorter)

declare decodeURIComponent.simps [simp del]

text \<open>The first match of \<open>/\/api\/v1\/sessions\/([^/]+)\//\<close>\<close>

definition SESSIONS_PREFIX :: string where "SESSIONS_PREFIX = ''/api/v1/sessions/''"

fun session_segment :: "string \<Rightarrow> string option" where
  "session_segment [] = None"
| "session_segment (c # s) =
     (if startsWith (c # s) SESSIONS_PREFIX
      then let rest = drop (length SESSIONS_PREFIX) (c # s);
               seg = takeWhile (\<lambda>x. x \<noteq> CHR ''/'') rest
           in if seg \<noteq> [] \<and> length seg < length rest then Some seg else session_segment s
      else session_segment s)"

definition ovSessionIdFromPath :: "string \<Rightarrow> string option" where
  "ovSessionIdFromPath path =
     (case session_segment path of None \<Rightarrow> None | Some captured \<Rightarrow> decodeURIComponent captured)"

definition clientForQueued :: "runtime_state \<Rightarrow> string \<Rightarrow> string option \<Rightarrow> string option" where
  "clientForQueued rt path user =
     (case user of
        Some u \<Rightarrow> Some (clientFor rt u)
      | None \<Rightarrow>
          if \<not> rt_scoping rt then Some (rt_config_user rt)
          else case ovSessionIdFromPath path of
                 None \<Rightarrow> Some (rt_config_user rt)
               | Some sid \<Rightarrow>
                   (case map_of (rt_owners rt) sid of
                      Some owner \<Rightarrow> Some (clientFor rt owner)
                    | None \<Rightarrow> if rt_accountScoped rt then None else Some (rt_config_user rt)))"

text \<open>\<open>adoptScoping\<close>: the identity of the session and its entry in the owner map.\<close>

definition adoptScoping :: "string \<Rightarrow> string option \<Rightarrow> runtime_state \<Rightarrow> string \<times> runtime_state" where
  "adoptScoping sid scoped_user rt =
     (case scoped_user of
        None \<Rightarrow> (rt_config_user rt, rt\<lparr>rt_owners := amap_delete sid (rt_owners rt)\<rparr>)
      | Some u \<Rightarrow> (u, rt\<lparr>rt_owners := amap_set sid u (rt_owners rt), rt_accountScoped := True\<rparr>))"

text \<open>The transport a replay is given: what is answered when nothing may be sent.\<close>

definition unattributed :: fetch_result where
  "unattributed = \<lparr>fr_ok = False, fr_status = Some 0, fr_result_status = None, fr_result_trace = None,
     fr_error = Some \<lparr>fe_message = Some ''this queued write names no account space and its session is not attributed yet'',
       fe_code = None, fe_details = None\<rparr>, fr_traceId = None\<rparr>"

definition routed_env ::
  "runtime_state \<Rightarrow> (string \<Rightarrow> nat \<Rightarrow> pending_call \<Rightarrow> fetch_result option \<times> nat) \<Rightarrow> queue_env \<Rightarrow> queue_env" where
  "routed_env rt send env =
     env\<lparr>qe_fetch := \<lambda>n call.
       (case clientForQueued rt (pc_path call) (pc_user call) of
          Some identity \<Rightarrow> send identity n call
        | None \<Rightarrow> (Some unattributed, 0))\<rparr>"

definition replayPendingQueue ::
  "runtime_state \<Rightarrow> (string \<Rightarrow> nat \<Rightarrow> pending_call \<Rightarrow> fetch_result option \<times> nat) \<Rightarrow> queue_env \<Rightarrow> bool \<Rightarrow> queue_state
     \<Rightarrow> (queue_error + unit) \<times> queue_state" where
  "replayPendingQueue rt send env consumeRetries st =
     (case replayPending (routed_env rt send env) consumeRetries st of
        (Inl err, st') \<Rightarrow> (Inl err, st') | (Inr c, st') \<Rightarrow> (Inr (), st'))"

subsection \<open>A session and its world\<close>

record session_state =
  ss_sid :: string
  ss_user :: string
  ss_allowed :: bool
  ss_syncTurns :: bool
  ss_ready :: bool
  ss_initRetryable :: bool
  ss_hasPending :: bool
  ss_createdAt :: int

datatype direct_call = HealthCheck | EnsureSession string | AddMessage string json | GetSession string | CommitSession string

record write_env =
  we_queue :: queue_env
  we_runtime :: runtime_state
  we_send :: "string \<Rightarrow> nat \<Rightarrow> pending_call \<Rightarrow> fetch_result option \<times> nat"
  we_answer :: "nat \<Rightarrow> direct_call \<Rightarrow> fetch_result"
  we_tokens :: "nat \<Rightarrow> int"
  we_threshold :: int
  we_keepRecent :: int

record write_world =
  ww_queue :: queue_state
  ww_direct :: "direct_call list"

definition direct :: "write_env \<Rightarrow> direct_call \<Rightarrow> write_world \<Rightarrow> fetch_result \<times> write_world" where
  "direct env call w = (we_answer env (length (ww_direct w)) call, w\<lparr>ww_direct := ww_direct w @ [call]\<rparr>)"

definition set_queue :: "queue_state \<Rightarrow> write_world \<Rightarrow> write_world" where
  "set_queue q w = w\<lparr>ww_queue := q\<rparr>"

definition enqueuePending ::
  "write_env \<Rightarrow> string \<Rightarrow> json \<Rightarrow> session_state \<Rightarrow> write_world \<Rightarrow> bool \<times> session_state \<times> write_world" where
  "enqueuePending env kind payload ss w =
     (let createdAt = max (qs_now (ww_queue w)) (ss_createdAt ss + 1);
          (r, q) = enqueue (we_queue env) kind (ss_sid ss) payload (Some createdAt) (Some (ss_user ss)) (ww_queue w)
      in (er_ok r, ss\<lparr>ss_createdAt := createdAt, ss_hasPending := er_ok r \<or> ss_hasPending ss\<rparr>, set_queue q w))"

fun drop_commits :: "queue_env \<Rightarrow> string \<Rightarrow> (string \<times> pending_entry option) list \<Rightarrow> queue_state \<Rightarrow> queue_state" where
  "drop_commits env sid [] st = st"
| "drop_commits env sid ((f, it) # items) st =
     (if (case it of Some e \<Rightarrow> pe_type e = ''commitSession'' \<and> pe_sessionId e = sid | None \<Rightarrow> False)
      then drop_commits env sid items (snd (dequeue env f st))
      else drop_commits env sid items st)"

definition removePendingCommits ::
  "write_env \<Rightarrow> session_state \<Rightarrow> write_world \<Rightarrow> (queue_error + unit) \<times> write_world" where
  "removePendingCommits env ss w =
     (case listPending (we_queue env) (ww_queue w) of
        (Inl err, q) \<Rightarrow> (Inl err, set_queue q w)
      | (Inr items, q) \<Rightarrow> (Inr (), set_queue (drop_commits (we_queue env) (ss_sid ss) items q) w))"

definition enqueueFinalCommit ::
  "write_env \<Rightarrow> json \<Rightarrow> session_state \<Rightarrow> write_world \<Rightarrow> (queue_error + unit) \<times> session_state \<times> write_world" where
  "enqueueFinalCommit env payload ss w =
     (case removePendingCommits env ss w of
        (Inl err, w1) \<Rightarrow> (Inl err, ss, w1)
      | (Inr _, w1) \<Rightarrow> (case enqueuePending env ''commitSession'' payload ss w1 of (_, ss', w2) \<Rightarrow> (Inr (), ss', w2)))"

definition enqueuePendingMessage ::
  "write_env \<Rightarrow> json \<Rightarrow> session_state \<Rightarrow> write_world \<Rightarrow> (queue_error + unit) \<times> session_state \<times> write_world" where
  "enqueuePendingMessage env payload ss w =
     (case enqueuePending env ''addMessage'' payload ss w of
        (False, ss', w1) \<Rightarrow> (Inr (), ss', w1)
      | (True, ss', w1) \<Rightarrow> (case removePendingCommits env ss' w1 of (r, w2) \<Rightarrow> (r, ss', w2)))"

definition refreshPendingState ::
  "write_env \<Rightarrow> session_state \<Rightarrow> write_world \<Rightarrow> (queue_error + unit) \<times> session_state \<times> write_world" where
  "refreshPendingState env ss w =
     (case listPending (we_queue env) (ww_queue w) of
        (Inl err, q) \<Rightarrow> (Inl err, ss, set_queue q w)
      | (Inr items, q) \<Rightarrow>
          (let mine = filter (\<lambda>it. case snd it of Some e \<Rightarrow> pe_sessionId e = ss_sid ss | None \<Rightarrow> False) items
           in (Inr (), ss\<lparr>ss_hasPending := mine \<noteq> [],
                ss_createdAt := foldl (\<lambda>latest it. max latest (created_at it)) (ss_createdAt ss) mine\<rparr>, set_queue q w)))"

definition initializeState ::
  "write_env \<Rightarrow> session_state \<Rightarrow> write_world \<Rightarrow> (queue_error + unit) \<times> session_state \<times> write_world" where
  "initializeState env ss0 w0 =
     (let ss = ss0\<lparr>ss_initRetryable := False\<rparr>; (health, w1) = direct env HealthCheck w0 in
      if \<not> fr_ok health then (Inr (), ss\<lparr>ss_initRetryable := isRetryableFailure (Some health)\<rparr>, w1)
      else
        let (ensured, w2) = direct env (EnsureSession (ss_sid ss)) w1 in
        if \<not> fr_ok ensured \<and>
           \<not> (fr_status ensured = Some 409 \<and> Option.bind (fr_error ensured) fe_code = Some ''ALREADY_EXISTS'')
        then (Inr (), ss\<lparr>ss_initRetryable := isRetryableFailure (Some ensured)\<rparr>, w2)
        else
          let (replayed, q) =
            (if ss_syncTurns ss
             then replayPendingQueue (we_runtime env) (we_send env) (we_queue env) True (ww_queue w2)
             else (Inr (), ww_queue w2))
          in case replayed of
               Inl err \<Rightarrow> (Inl err, ss, set_queue q w2)
             | Inr _ \<Rightarrow>
                 (case refreshPendingState env ss (set_queue q w2) of
                    (Inl err, ss', w3) \<Rightarrow> (Inl err, ss', w3)
                  | (Inr _, ss', w3) \<Rightarrow> (Inr (), ss'\<lparr>ss_ready := True\<rparr>, w3)))"

definition ensureState ::
  "write_env \<Rightarrow> session_state \<Rightarrow> write_world \<Rightarrow> (queue_error + unit) \<times> session_state \<times> write_world" where
  "ensureState env ss w = (if ss_ready ss then (Inr (), ss, w) else initializeState env ss w)"

text \<open>The write that \<open>capture\<close> queues for a payload.\<close>

definition send_message ::
  "write_env \<Rightarrow> json \<Rightarrow> session_state \<Rightarrow> write_world \<Rightarrow> (queue_error + unit) \<times> session_state \<times> write_world" where
  "send_message env payload ss w =
     (if ss_hasPending ss then enqueuePendingMessage env payload ss w
      else case direct env (AddMessage (ss_sid ss) payload) w of (response, w') \<Rightarrow>
        if isRetryableFailure (Some response) then enqueuePendingMessage env payload ss w' else (Inr (), ss, w'))"

definition capture_write ::
  "write_env \<Rightarrow> json \<Rightarrow> session_state \<Rightarrow> write_world \<Rightarrow> (queue_error + unit) \<times> session_state \<times> write_world" where
  "capture_write env payload ss w =
     (if \<not> ss_allowed ss \<or> \<not> ss_syncTurns ss then (Inr (), ss, w)
      else if ss_hasPending ss then enqueuePendingMessage env payload ss w
      else case ensureState env ss w of
             (Inl err, ss', w') \<Rightarrow> (Inl err, ss', w')
           | (Inr _, ss', w') \<Rightarrow>
               if \<not> ss_ready ss' then
                 (if ss_initRetryable ss' then enqueuePendingMessage env payload ss' w' else (Inr (), ss', w'))
               else send_message env payload ss' w')"

definition commit_payload :: "write_env \<Rightarrow> json" where
  "commit_payload env = JObj [(''keep_recent_count'', JNum (num_of (we_keepRecent env)))]"

definition send_commit ::
  "write_env \<Rightarrow> session_state \<Rightarrow> write_world \<Rightarrow> (queue_error + unit) \<times> session_state \<times> write_world" where
  "send_commit env ss w =
     (case direct env (CommitSession (ss_sid ss)) w of (response, w') \<Rightarrow>
        if isRetryableFailure (Some response) then enqueueFinalCommit env (commit_payload env) ss w' else (Inr (), ss, w'))"

definition commit_write ::
  "write_env \<Rightarrow> session_state \<Rightarrow> write_world \<Rightarrow> (queue_error + unit) \<times> session_state \<times> write_world" where
  "commit_write env ss w =
     (if \<not> ss_allowed ss \<or> \<not> ss_syncTurns ss then (Inr (), ss, w)
      else if ss_hasPending ss then (Inr (), ss, w)
      else case ensureState env ss w of
             (Inl err, ss', w') \<Rightarrow> (Inl err, ss', w')
           | (Inr _, ss', w') \<Rightarrow>
               if \<not> ss_ready ss' then (Inr (), ss', w')
               else
                 let tokens = we_tokens env (length (ww_direct w'));
                     (_, w2) = direct env (GetSession (ss_sid ss')) w'
                 in if tokens < we_threshold env then (Inr (), ss', w2) else send_commit env ss' w2)"

definition dispose_write ::
  "write_env \<Rightarrow> session_state \<Rightarrow> write_world \<Rightarrow> (queue_error + unit) \<times> session_state \<times> write_world" where
  "dispose_write env ss w =
     (if \<not> ss_allowed ss \<or> \<not> ss_syncTurns ss then (Inr (), ss, w)
      else if ss_hasPending ss then enqueueFinalCommit env (commit_payload env) ss w
      else case ensureState env ss w of
             (Inl err, ss', w') \<Rightarrow> (Inl err, ss', w')
           | (Inr _, ss', w') \<Rightarrow> if \<not> ss_ready ss' then (Inr (), ss', w') else send_commit env ss' w')"

fun refresh_all ::
  "write_env \<Rightarrow> session_state list \<Rightarrow> write_world \<Rightarrow> (queue_error + unit) \<times> session_state list \<times> write_world" where
  "refresh_all env [] w = (Inr (), [], w)"
| "refresh_all env (ss # sss) w =
     (case refreshPendingState env ss w of
        (Inl err, ss', w') \<Rightarrow> (Inl err, ss' # sss, w')
      | (Inr _, ss', w') \<Rightarrow> (case refresh_all env sss w' of (r, sss', w'') \<Rightarrow> (r, ss' # sss', w'')))"

text \<open>A tick of the drainer that finds none running; its flag is released on every path.\<close>

definition drainTick ::
  "write_env \<Rightarrow> session_state list \<Rightarrow> write_world \<Rightarrow> (queue_error + unit) \<times> session_state list \<times> write_world" where
  "drainTick env sss w =
     (case listPending (we_queue env) (ww_queue w) of
        (Inl err, q) \<Rightarrow> (Inl err, sss, set_queue q w)
      | (Inr items, q) \<Rightarrow>
          if items = [] then refresh_all env sss (set_queue q w)
          else
            let (health, w1) = direct env HealthCheck (set_queue q w) in
            if \<not> fr_ok health then refresh_all env sss w1
            else case replayPendingQueue (we_runtime env) (we_send env) (we_queue env) False (ww_queue w1) of
                   (Inl err, q2) \<Rightarrow> (Inl err, sss, set_queue q2 w1)
                 | (Inr _, q2) \<Rightarrow> refresh_all env sss (set_queue q2 w1))"


subsection \<open>Reading a session back from a path\<close>

lemma nibble_ok: "n < 16 \<Longrightarrow> hex_nibble (''0123456789ABCDEF'' ! n) = Some n"
proof -
  have "list_all (\<lambda>n. hex_nibble (''0123456789ABCDEF'' ! n) = Some n) [0..<16]" by code_simp
  then show "n < 16 \<Longrightarrow> ?thesis" by (simp add: list_all_iff)
qed

lemma percent_back: "n < 256 \<Longrightarrow> percent_value (percent_byte n @ r) = Some (n, r)"
  using nibble_ok [of "n div 16"] nibble_ok [of "n mod 16"] by (simp add: percent_byte_def)

lemma decode_percent:
  assumes "percent_value s = Some (n, r)"
  shows "decodeURIComponent s =
     (if n < 128 then map_option (Cons (char_of n)) (decodeURIComponent r)
      else if n < 194 \<or> 195 < n then None
      else case percent_value r of
             None \<Rightarrow> None
           | Some (m, q) \<Rightarrow>
               if m < 128 \<or> 191 < m then None
               else map_option (Cons (char_of (64 * (n - 192) + (m - 128)))) (decodeURIComponent q))"
proof -
  obtain t where "s = CHR ''%'' # t"
    using assms by (induction s rule: percent_value.induct) (auto split: if_splits)
  then show ?thesis using assms by (subst decodeURIComponent.simps) simp
qed

lemma byte_quarter: "(of_char c :: nat) div 64 < 4"
  by (rule less_mult_imp_div_less) simp

lemma decode_encode: "decodeURIComponent (encodeURIComponent s) = Some s"
proof (induction s)
  case Nil
  then show ?case by (simp add: encodeURIComponent_def decodeURIComponent.simps)
next
  case (Cons c s)
  let ?n = "of_char c :: nat"
  have n: "?n < 256" by simp
  consider (plain) "uri_unreserved c" | (one) "\<not> uri_unreserved c" "?n < 128" | (two) "\<not> uri_unreserved c" "128 \<le> ?n"
    by linarith
  then show ?case
  proof cases
    case plain
    then have "c \<noteq> CHR ''%''" by (auto simp: uri_unreserved_def)
    then show ?thesis using plain Cons by (simp add: encodeURIComponent_def decodeURIComponent.simps [of "c # _"])
  next
    case one
    have e: "encodeURIComponent (c # s) = percent_byte ?n @ encodeURIComponent s"
      using one by (simp add: encodeURIComponent_def)
    show ?thesis unfolding e decode_percent [OF percent_back [OF n]] using one Cons by simp
  next
    case two
    let ?a = "192 + ?n div 64" and ?b = "128 + ?n mod 64"
    have ab: "?a < 256" "?b < 256" "194 \<le> ?a" "?a \<le> 195" "128 \<le> ?b" "?b \<le> 191" "64 * (?a - 192) + (?b - 128) = ?n"
      using two byte_quarter [of c] by auto
    have e: "encodeURIComponent (c # s) = percent_byte ?a @ percent_byte ?b @ encodeURIComponent s"
      using two by (simp add: encodeURIComponent_def Let_def)
    have "decodeURIComponent (percent_byte ?a @ percent_byte ?b @ encodeURIComponent s) =
        map_option (Cons (char_of (64 * (?a - 192) + (?b - 128)))) (decodeURIComponent (encodeURIComponent s))"
      unfolding decode_percent [OF percent_back [OF ab(1)]] percent_back [OF ab(2)] using ab by simp
    then show ?thesis unfolding e ab(7) by (simp add: Cons)
  qed
qed

lemma encode_no_slash: "CHR ''/'' \<notin> set (encodeURIComponent s)"
proof -
  have "list_all (\<lambda>n. ''0123456789ABCDEF'' ! n \<noteq> CHR ''/'') [0..<16]" by code_simp
  then have h: "n < 16 \<Longrightarrow> ''0123456789ABCDEF'' ! n \<noteq> CHR ''/''" for n by (simp add: list_all_iff)
  have b: "CHR ''/'' \<notin> set (percent_byte n)" if "n < 256" for n
  proof -
    have "n div 16 < 16" "n mod 16 < 16" using that by auto
    from h [OF this(1)] h [OF this(2)] show ?thesis by (simp add: percent_byte_def eq_commute)
  qed
  have u: "\<not> uri_unreserved (CHR ''/'')" by (simp add: uri_unreserved_def)
  show ?thesis
  proof (induction s)
    case (Cons c s)
    have "192 + of_char c div 64 < (256 :: nat)" "128 + of_char c mod 64 < (256 :: nat)"
      using byte_quarter [of c] by auto
    then have "CHR ''/'' \<notin> set (encodeURIComponent [c])"
      using b u by (auto simp: encodeURIComponent_def Let_def)
    then show ?case using Cons by (simp add: encodeURIComponent_def)
  qed (simp add: encodeURIComponent_def)
qed

lemma encode_nonempty: "s \<noteq> [] \<Longrightarrow> encodeURIComponent s \<noteq> []"
  by (cases s) (simp_all add: encodeURIComponent_def percent_byte_def Let_def)

lemma session_path_back:
  assumes "s \<noteq> []"
  shows "ovSessionIdFromPath (''/api/v1/sessions/'' @ encodeURIComponent s @ CHR ''/'' # t) = Some s"
proof -
  let ?e = "encodeURIComponent s"
  have w: "takeWhile (\<lambda>x. x \<noteq> CHR ''/'') (?e @ CHR ''/'' # t) = ?e"
    using encode_no_slash [of s] by (simp add: takeWhile_append)
  have "session_segment (''/api/v1/sessions/'' @ ?e @ CHR ''/'' # t) = Some ?e"
    using w encode_nonempty [OF assms] by (simp add: startsWith_def SESSIONS_PREFIX_def)
  then show ?thesis by (simp add: ovSessionIdFromPath_def decode_encode)
qed


subsection \<open>A queued message stays queued\<close>

text \<open>Queued commits are filed under their own keys, and none of their digests collides with
  that of a message.\<close>

definition commits_keyed :: "queue_env \<Rightarrow> queue_state \<Rightarrow> string \<Rightarrow> json \<Rightarrow> bool" where
  "commits_keyed env st sid p \<longleftrightarrow> number_texts (qe_numText env) \<and>
     (\<forall>e \<in> entries st. pe_type e = ''commitSession'' \<longrightarrow>
        (let t = key_text (qe_numText env) (pe_type e) (pe_sessionId e) (pe_payload e);
             m = key_text (qe_numText env) ''addMessage'' sid p
         in pe_dedupKey e = qe_sha256 env t \<and> (qe_sha256 env t = qe_sha256 env m \<longrightarrow> t = m)))"

lemma commits_keyedD:
  assumes "commits_keyed env st sid p" "e \<in> entries st" "pe_type e = ''commitSession''"
  shows "pe_dedupKey e \<noteq> dedup_key env ''addMessage'' sid p"
proof -
  let ?nt = "qe_numText env"
  have "key_text ?nt ''commitSession'' (pe_sessionId e) (pe_payload e) \<noteq> key_text ?nt ''addMessage'' sid p"
    using assms(1) key_text_identifies [of ?nt "''commitSession''" "''addMessage''" "pe_sessionId e" "pe_payload e" sid p]
    by (auto simp: commits_keyed_def)
  then show ?thesis using assms by (auto simp: commits_keyed_def dedup_key_def makeDedupKey_def Let_def)
qed

definition all_stored :: "queue_state \<Rightarrow> bool" where
  "all_stored st \<longleftrightarrow> list_all (\<lambda>p. case qf_text (snd p) of Stored e \<Rightarrow> True | _ \<Rightarrow> False) (qs_files st)"

lemma all_stored_at: "all_stored st \<Longrightarrow> map_of (qs_files st) f = Some q \<Longrightarrow> \<exists>e. stored_at st f e"
  by (cases "qf_text q") (auto simp: all_stored_def list_all_iff stored_at_def dest!: map_of_SomeD)

lemma enqueue_accepts:
  assumes "no_faults env" "queue_ok st" "all_stored st" "enqueue env kind sid p t u st = (r, st')"
  shows "er_ok r" "all_stored st'" "queue_ok st'" "holds (dedup_key env kind sid p) st'"
proof -
  let ?f = "pendingFilename (dedup_key env kind sid p) 0"
  have qn: "queue_name ?f" using pending_json by (simp add: queue_name_def)
  have q: "map_of (qs_files st) ?f \<noteq> None \<Longrightarrow> findExistingByDedupKey env (dedup_key env kind sid p) st \<noteq> None"
  proof -
    assume "map_of (qs_files st) ?f \<noteq> None"
    then obtain e where e: "stored_at st ?f e" using all_stored_at [OF assms(3)] by blast
    have "pe_dedupKey e = dedup_key env kind sid p"
      using names_unique [OF stored_names [OF assms(2) e qn] names_pendingFilename] .
    then have "holds (dedup_key env kind sid p) st" using e qn by (auto simp: holds_def)
    then show ?thesis using find_complete [OF assms(1,2)] by fastforce
  qed
  have ok: "er_ok r"
    using assms(1,4) q unfolding enqueue_def Let_def dedup_key_def [symmetric]
    by (auto simp: q_write_def no_faults_def split: option.splits if_splits)
  then show "er_ok r" .
  show "queue_ok st'" by (rule enqueue_ok_queue [OF assms(4,2)])
  show "all_stored st'" using enqueue_cases [OF assms(4)] ok assms(3) by (auto simp: all_stored_def add_file_def)
  show "holds (dedup_key env kind sid p) st'"
    using enqueue_cases [OF assms(4)] ok
  proof (elim disjE conjE)
    assume a: "map_of (qs_files st) ?f = None"
    let ?e = "\<lparr>pe_type = kind, pe_sessionId = sid, pe_payload = p, pe_createdAt = (case t of None \<Rightarrow> qs_now st | Some t \<Rightarrow> t),
      pe_retries = 0, pe_dedupKey = dedup_key env kind sid p, pe_user = map_option JStr u\<rparr>"
    assume s: "st' = add_file ?f (Stored ?e) st"
    have "stored_at st' ?f ?e" unfolding s by (simp add: stored_add_file(1) [OF a])
    then show ?thesis unfolding holds_def using qn by (intro exI [of _ ?f] exI [of _ ?e]) simp
  qed (auto simp: holds_def)
qed

lemma recover_holds:
  assumes "replay_inv env st0 st" "all_stored st" "holds k st"
  shows "holds k (snd (recover_files env fs n st)) \<and> all_stored (snd (recover_files env fs n st))"
  using assms
proof (induction fs arbitrary: n st)
  case (Cons f fs)
  show ?case
  proof (cases "endsWith f ''.processing''")
    case True
    obtain ok s where r: "q_rename env f (pendingFromProcessingFilename f) st = (ok, s)" by fastforce
    note i = recover_rename_run(1) [OF Cons.prems(1) True r]
    have q: "queue_ok st" by (rule replay_invD [OF Cons.prems(1)])
    have "holds k s \<and> all_stored s"
      using rename_cases [OF r]
    proof
      assume a: "ok \<and> s = st\<lparr>qs_files := rename_file f (pendingFromProcessingFilename f) (qs_files st)\<rparr> \<and>
        map_of (qs_files st) f \<noteq> None"
      then obtain e where e: "stored_at st f e" using all_stored_at [OF Cons.prems(2)] by blast
      have "names f (pe_dedupKey e)" using stored_names [OF q e] True by (simp add: queue_name_def)
      then have "holds k s"
        using rename_holds [OF q e _ _ Cons.prems(3)] names_released [OF True] a by metis
      moreover have "all_stored s"
        using a Cons.prems(2) by (auto simp: all_stored_def rename_file_def amap_delete_def list_all_iff)
      ultimately show ?thesis ..
    qed (use Cons.prems in simp)
    then have "holds k (snd (recover_files env fs m s)) \<and> all_stored (snd (recover_files env fs m s))" for m
      using Cons.IH [OF i] by blast
    then show ?thesis using Cons.IH [OF Cons.prems] True r by (auto split: option.splits)
  qed (use Cons in simp)
qed simp

lemma list_holds:
  assumes "queue_ok st" "all_stored st" "holds k st" "listPending env st = (r, st')"
  shows "holds k st'" "all_stored st'" "queue_ok st'" "entries st' \<subseteq> entries st"
    "\<exists>items. r = Inr items \<and> list_all (listed_ok st') items"
proof -
  note m = list_run [OF replay_inv_start [OF assms(1)] assms(4)]
  have s: "st' = snd (recoverStaleProcessing env st)"
    using assms(4) by (auto simp: listPending_def Let_def split: option.splits if_splits prod.splits)
  have "holds k st' \<and> all_stored st'"
    using recover_holds [OF replay_inv_start [OF assms(1)] assms(2,3), of env] assms(2,3)
    by (auto simp: s recoverStaleProcessing_def split: option.splits)
  then show "holds k st'" "all_stored st'" by auto
  show "queue_ok st'" by (rule replay_invD [OF m(1)])
  show "entries st' \<subseteq> entries st" by (rule m(2))
  have "None \<notin> snd ` set (read_all env st' fs)" for fs
  proof -
    have "readEntry env f st' \<noteq> Some None" for f
      using all_stored_at [OF \<open>all_stored st'\<close>, of f]
      by (auto simp: readEntry_def stored_at_def split: option.splits)
    then show ?thesis using read_all_sound by fastforce
  qed
  then obtain items where "r = Inr items"
    using assms(4) s by (cases "recoverStaleProcessing env st") (auto simp: listPending_def Let_def split: option.splits if_splits)
  then show "\<exists>items. r = Inr items \<and> list_all (listed_ok st') items" using m(3) by blast
qed

lemma drop_commits_holds:
  assumes "queue_ok st" "all_stored st" "holds k st"
    and "\<And>f e. (f, Some e) \<in> set items \<Longrightarrow> pe_type e = ''commitSession'' \<Longrightarrow> names f (pe_dedupKey e) \<and> pe_dedupKey e \<noteq> k"
  shows "holds k (drop_commits env sid items st)"
  using assms
proof (induction items arbitrary: st)
  case (Cons item items)
  obtain f it where item: "item = (f, it)" by fastforce
  note rest = Cons.prems(4) [OF list.set_intros(2)]
  show ?case
  proof (cases "case it of Some e \<Rightarrow> pe_type e = ''commitSession'' \<and> pe_sessionId e = sid | None \<Rightarrow> False")
    case True
    then obtain e where e: "it = Some e" "pe_type e = ''commitSession''" by (auto split: option.splits)
    have n: "names f (pe_dedupKey e)" "pe_dedupKey e \<noteq> k" using Cons.prems(4) [of f e] e by (simp_all add: item)
    let ?s = "snd (dequeue env f st)"
    have m: "qs_files ?s = qs_files st \<or> qs_files ?s = amap_delete f (qs_files st)"
      unfolding dequeue_def by (rule unlink_files)
    have "queue_ok ?s" unfolding dequeue_def by (rule unlink_ok [OF Cons.prems(1)])
    moreover have "all_stored ?s" using m Cons.prems(2) by (auto simp: all_stored_def amap_delete_def list_all_iff)
    moreover have "holds k ?s"
    proof -
      obtain g e' where g: "queue_name g" "stored_at st g e'" "pe_dedupKey e' = k" using Cons.prems(3) by (auto simp: holds_def)
      have "g \<noteq> f" using names_unique [OF stored_names [OF Cons.prems(1) g(2,1)]] g(3) n by auto
      then have "stored_at ?s g e'" using g(2) m by (auto simp: stored_at_def)
      then show ?thesis using g by (auto simp: holds_def)
    qed
    ultimately show ?thesis using Cons.IH rest True by (simp add: item)
  next
    case False
    then show ?thesis using Cons.IH [OF Cons.prems(1-3) rest] by (simp add: item)
  qed
qed simp


lemma set_queue_simps [simp]: "ww_queue (set_queue q w) = q" "ww_direct (set_queue q w) = ww_direct w"
  by (simp_all add: set_queue_def)

lemma enqueue_entries:
  assumes "enqueue env kind sid p t u st = (r, st')" "e \<in> entries st'"
  shows "e \<in> entries st \<or> pe_type e = kind"
  using enqueue_cases [OF assms(1)]
proof (elim disjE conjE)
  assume m: "map_of (qs_files st) (pendingFilename (dedup_key env kind sid p) 0) = None"
  assume "st' = add_file (pendingFilename (dedup_key env kind sid p) 0) Garbage st"
  then show ?thesis using assms(2) stored_add_file [OF m] by (auto simp: entries_def split: if_splits)
next
  assume m: "map_of (qs_files st) (pendingFilename (dedup_key env kind sid p) 0) = None"
  let ?e = "\<lparr>pe_type = kind, pe_sessionId = sid, pe_payload = p, pe_createdAt = (case t of None \<Rightarrow> qs_now st | Some t \<Rightarrow> t),
      pe_retries = 0, pe_dedupKey = dedup_key env kind sid p, pe_user = map_option JStr u\<rparr>"
  assume "st' = add_file (pendingFilename (dedup_key env kind sid p) 0) (Stored ?e) st"
  then show ?thesis using assms(2) stored_add_file [OF m] by (auto simp: entries_def split: if_splits)
qed (use assms(2) in simp_all)

text \<open>A message that is queued is in the directory when the write ends, and the latch is set.\<close>

lemma message_queued:
  assumes "no_faults (we_queue env)" "commits_keyed (we_queue env) (ww_queue w) (ss_sid ss) payload"
    and "queue_ok (ww_queue w)" "all_stored (ww_queue w)"
    and "enqueuePendingMessage env payload ss w = (r, ss', w')"
  shows "r = Inr () \<and> ss_hasPending ss' \<and> ww_direct w' = ww_direct w \<and>
    holds (dedup_key (we_queue env) ''addMessage'' (ss_sid ss) payload) (ww_queue w')"
proof -
  let ?k = "dedup_key (we_queue env) ''addMessage'' (ss_sid ss) payload"
  let ?t = "max (qs_now (ww_queue w)) (ss_createdAt ss + 1)"
  obtain er q1 where e: "enqueue (we_queue env) ''addMessage'' (ss_sid ss) payload (Some ?t) (Some (ss_user ss)) (ww_queue w) = (er, q1)"
    by fastforce
  note a = enqueue_accepts [OF assms(1,3,4) e]
  obtain r1 q2 where l: "listPending (we_queue env) q1 = (r1, q2)" by fastforce
  note h = list_holds [OF a(3,2,4) l]
  obtain items where items: "r1 = Inr items" "list_all (listed_ok q2) items" using h(5) by blast
  have "names f (pe_dedupKey c) \<and> pe_dedupKey c \<noteq> ?k"
    if "(f, Some c) \<in> set items" "pe_type c = ''commitSession''" for f c
  proof -
    have s: "endsWith f ''.json''" "stored_at q2 f c" using items(2) that(1) by (auto simp: list_all_iff listed_ok_def)
    then have qn: "queue_name f" by (simp add: queue_name_def)
    have "c \<in> entries q1" using entriesI [OF qn s(2)] h(4) by blast
    then have "c \<in> entries (ww_queue w)" using enqueue_entries [OF e] that(2) by fastforce
    then have "pe_dedupKey c \<noteq> ?k" using commits_keyedD [OF assms(2)] that(2) by blast
    then show ?thesis using stored_names [OF h(3) s(2) qn] by simp
  qed
  then have d: "holds ?k (drop_commits (we_queue env) (ss_sid ss) items q2)"
    by (intro drop_commits_holds [OF h(3,2,1)])
  let ?ss = "ss\<lparr>ss_createdAt := ?t, ss_hasPending := True\<rparr>"
  have p: "enqueuePending env ''addMessage'' payload ss w = (True, ?ss, set_queue q1 w)"
    using e a(1) by (simp add: enqueuePending_def)
  have c: "removePendingCommits env ?ss (set_queue q1 w) =
      (Inr (), set_queue (drop_commits (we_queue env) (ss_sid ss) items q2) (set_queue q1 w))"
    using l items(1) by (simp add: removePendingCommits_def)
  have "(r, ss', w') = (Inr (), ?ss, set_queue (drop_commits (we_queue env) (ss_sid ss) items q2) (set_queue q1 w))"
    using assms(5) by (simp add: enqueuePendingMessage_def p c)
  then show ?thesis using d by simp
qed

text \<open>While the latch holds the session sends nothing itself.\<close>

lemma enqueuePending_latched:
  "enqueuePending env kind p ss w = (ok, ss', w') \<Longrightarrow> ww_direct w' = ww_direct w \<and> (ss_hasPending ss \<longrightarrow> ss_hasPending ss')"
  by (auto simp: enqueuePending_def Let_def split: prod.splits)

lemma removePendingCommits_direct: "removePendingCommits env ss w = (r, w') \<Longrightarrow> ww_direct w' = ww_direct w"
  by (auto simp: removePendingCommits_def split: prod.splits sum.splits)

lemma message_latched:
  "enqueuePendingMessage env p ss w = (r, ss', w') \<Longrightarrow> ww_direct w' = ww_direct w \<and> (ss_hasPending ss \<longrightarrow> ss_hasPending ss')"
  by (auto simp: enqueuePendingMessage_def split: prod.splits bool.splits
      dest!: enqueuePending_latched removePendingCommits_direct)

lemma final_commit_latched:
  "enqueueFinalCommit env p ss w = (r, ss', w') \<Longrightarrow> ww_direct w' = ww_direct w \<and> (ss_hasPending ss \<longrightarrow> ss_hasPending ss')"
  by (auto simp: enqueueFinalCommit_def split: prod.splits sum.splits
      dest!: enqueuePending_latched removePendingCommits_direct)

end
