(* ===== verification/PendProperties.thy ===== *)
theory PendProperties
  imports PendRuntime "HOL-Library.Code_Target_Int"
begin

text \<open>
  The properties of the offline write queue and of the runtime that fills and drains it, with
  the sample queue they are applied to.
\<close>

subsection \<open>A sample queue\<close>

lemma nat_text_value: "decimal_value (nat_text n) = int n"
proof (induction n rule: nat_text.induct)
  case (1 n)
  have d: "decimal_value (s @ [char_of (48 + m)]) = decimal_value s * 10 + int m" if "m < 10" for s and m :: nat
    using that by (simp add: decimal_value_def of_char_of)
  show ?case
  proof (cases "n < 10")
    case True
    then show ?thesis using d [of n "[]"] by (simp add: nat_text.simps [of n] decimal_value_def)
  next
    case False
    then have "decimal_value (nat_text n) = int (n div 10) * 10 + int (n mod 10)"
      using 1 d [of "n mod 10" "nat_text (n div 10)"] by (subst nat_text.simps) simp
    also have "\<dots> = int (n div 10 * 10 + n mod 10)" by (simp only: of_nat_add of_nat_mult of_nat_numeral)
    finally show ?thesis by (simp only: div_mult_mod_eq)
  qed
qed

lemma int_text_inj: "int_text i = int_text j \<Longrightarrow> i = j"
proof -
  assume e: "int_text i = int_text j"
  have n: "nat_text n \<noteq> CHR ''-'' # s" for n s using nat_text_digits [of n] by (auto simp: ascii_digit_def)
  have t: "nat_text a = nat_text b \<Longrightarrow> a = b" for a b by (metis nat_text_value of_nat_eq_iff)
  show ?thesis
  proof (cases "i < 0"; cases "j < 0")
    assume "i < 0" "j < 0"
    then show ?thesis using e t [of "nat (- i)" "nat (- j)"] by (simp add: int_text_def)
  next
    assume "\<not> i < 0" "\<not> j < 0"
    then show ?thesis using e t [of "nat i" "nat j"] by (simp add: int_text_def)
  qed (use e n in \<open>simp_all add: int_text_def\<close>, metis n)
qed

definition demo_number :: "jsnum \<Rightarrow> string" where
  "demo_number x = (case x of Fin q \<Rightarrow> (case quotient_of q of (a, b) \<Rightarrow> int_text a @ ''e'' @ int_text b) | _ \<Rightarrow> ''0'')"

lemma int_text_chars: "c \<in> set (int_text i) \<Longrightarrow> numeral_char c \<and> c \<noteq> CHR ''e''"
  using nat_text_digits [of "nat i"] nat_text_digits [of "nat (- i)"]
  by (auto simp: int_text_def list_all_iff numeral_char_def ascii_digit_def split: if_splits)

lemma demo_numbers: "number_texts demo_number"
proof -
  have "q = q'" if e: "demo_number (Fin q) = demo_number (Fin q')" for q q'
  proof -
    obtain a b c d where q: "quotient_of q = (a, b)" "quotient_of q' = (c, d)" by fastforce
    have "takeWhile (\<lambda>x. x \<noteq> CHR ''e'') (int_text i @ CHR ''e'' # s) = int_text i" for i s
      using int_text_chars [of _ i] by (auto simp: takeWhile_append)
    from this [of a "int_text b"] this [of c "int_text d"] e have "int_text a = int_text c" "int_text b = int_text d"
      by (auto simp: demo_number_def q)
    then show "q = q'" using int_text_inj q by (metis quotient_of_inject)
  qed
  moreover have "demo_number (Fin q) \<noteq> [] \<and> list_all numeral_char (demo_number (Fin q))" for q
    using int_text_chars by (auto simp: demo_number_def list_all_iff numeral_char_def split: prod.splits)
  ultimately show ?thesis by (simp add: number_texts_def inj_def)
qed

definition demo_entry :: "string \<Rightarrow> string \<Rightarrow> int \<Rightarrow> int \<Rightarrow> string \<Rightarrow> pending_entry" where
  "demo_entry kind sid created retries key = \<lparr>pe_type = kind, pe_sessionId = sid, pe_payload = JStr key, pe_createdAt = created,
     pe_retries = retries, pe_dedupKey = key, pe_user = Some (JStr ''ann'')\<rparr>"

definition demo_result :: "bool \<Rightarrow> int \<Rightarrow> fetch_result" where
  "demo_result ok status = \<lparr>fr_ok = ok, fr_status = Some status, fr_result_status = None, fr_result_trace = None,
     fr_error = None, fr_traceId = None\<rparr>"

definition demo_queue_env :: "(nat \<Rightarrow> fetch_result) \<Rightarrow> queue_env" where
  "demo_queue_env answers = \<lparr>qe_sha256 = (\<lambda>s. s), qe_numText = demo_number, qe_maxRetries = None, qe_ttlDays = None,
     qe_replayLimit = Some ''2'', qe_pid = ''7'', qe_fault = (\<lambda>_ _. None), qe_fetch = (\<lambda>n call. (Some (answers n), 5))\<rparr>"

definition demo_file :: "string \<Rightarrow> pending_entry \<Rightarrow> string \<times> queue_file" where
  "demo_file f e = (f, \<lparr>qf_mtime = 0, qf_text = Stored e\<rparr>)"

definition demo_queue :: "(string \<times> queue_file) list \<Rightarrow> int \<Rightarrow> queue_state" where
  "demo_queue fs now = \<lparr>qs_files = fs, qs_now = now, qs_calls = [], qs_log = []\<rparr>"

definition demo_two :: queue_state where
  "demo_two = demo_queue [demo_file ''k2_0.json'' (demo_entry ''addMessage'' ''s'' 20 0 ''k2''),
     demo_file ''k1_1.json'' (demo_entry ''addMessage'' ''s'' 10 1 ''k1'')] 1000"

lemma demo_two_ok: "queue_ok demo_two" by code_simp

lemma demo_two_holds: "holds ''k1'' demo_two" "holds ''k2'' demo_two"
proof -
  have "queue_name ''k1_1.json''" "queue_name ''k2_0.json''" by code_simp+
  then show "holds ''k1'' demo_two" "holds ''k2'' demo_two"
    unfolding holds_def
    by (intro exI [of _ "''k1_1.json''"] exI [of _ "demo_entry ''addMessage'' ''s'' 10 1 ''k1''"],
        simp add: demo_two_def demo_queue_def demo_file_def demo_entry_def stored_at_def,
      intro exI [of _ "''k2_0.json''"] exI [of _ "demo_entry ''addMessage'' ''s'' 20 0 ''k2''"],
        simp add: demo_two_def demo_queue_def demo_file_def demo_entry_def stored_at_def)
qed

subsection \<open>Properties\<close>

text \<open>C31: No course of operations loses a write: whatever is enqueued, listed, cleaned and
  replayed in between, whatever the server answers and whatever file-system call fails at each of
  them, a key held at the start is held at the end, or one of the operations answered it for good,
  found that it cannot be sent, or found it past its retries or its age.\<close>

theorem no_write_lost:
  assumes "queue_ok st" "holds k st"
  shows "holds k (fold queue_step steps st) \<or>
    (\<exists>pre x post. steps = pre @ x # post \<and>
       accounted (step_env x) (fold queue_step pre st) (fold queue_step (pre @ [x]) st) k)"
  using queue.course_keeps [OF assms] .

theorem no_write_lost_witness:
  "holds ''k2'' (queue_step (ReplayStep (demo_queue_env (\<lambda>n. demo_result False 503)) True) demo_two) \<or>
   (\<exists>pre x post. [ReplayStep (demo_queue_env (\<lambda>n. demo_result False 503)) True] = pre @ x # post \<and>
     accounted (step_env x) (fold queue_step pre demo_two) (fold queue_step (pre @ [x]) demo_two) ''k2'')"
  using no_write_lost [OF demo_two_ok demo_two_holds(2), of "[ReplayStep (demo_queue_env (\<lambda>n. demo_result False 503)) True]"]
  by simp

text \<open>C32: Two writes share a key exactly when they are the same write: same kind, same session,
  and payloads that differ in the order of their keys at most, as long as the digests of their
  two texts do not collide.\<close>

theorem dedup_key_exact:
  assumes "number_texts nt" "CHR 0x0A \<notin> set k" "CHR 0x0A \<notin> set k'"
    and "sha256 (key_text nt k sid p) = sha256 (key_text nt k' sid' q) \<Longrightarrow> key_text nt k sid p = key_text nt k' sid' q"
  shows "makeDedupKey sha256 nt k sid p = makeDedupKey sha256 nt k' sid' q \<longleftrightarrow>
    k = k' \<and> sid = sid' \<and> canonical p = canonical q"
proof
  assume "makeDedupKey sha256 nt k sid p = makeDedupKey sha256 nt k' sid' q"
  then show "k = k' \<and> sid = sid' \<and> canonical p = canonical q"
    using key_text_identifies [OF assms(1-3)] assms(4) by (simp add: makeDedupKey_def)
qed (simp add: makeDedupKey_def key_text_def stable_canonical)

theorem dedup_key_exact_witness:
  "makeDedupKey (\<lambda>s. s) demo_number ''addMessage'' ''s'' (JObj [(''a'', JNull), (''b'', JBool True)]) =
     makeDedupKey (\<lambda>s. s) demo_number ''addMessage'' ''s'' (JObj [(''b'', JBool True), (''a'', JNull)]) \<and>
   makeDedupKey (\<lambda>s. s) demo_number ''addMessage'' ''s'' JNull \<noteq> makeDedupKey (\<lambda>s. s) demo_number ''addMessage'' ''t'' JNull"
proof -
  have c: "canonical (JObj [(''a'', JNull), (''b'', JBool True)]) = canonical (JObj [(''b'', JBool True), (''a'', JNull)])"
    by code_simp
  show ?thesis by (simp add: dedup_key_exact [OF demo_numbers] c del: canonical.simps)
qed


text \<open>C33: What \<open>enqueue\<close> says holds: an accepted write is on disk under its key, a refused
  one changed no entry, no other entry is ever touched; and without file-system faults a write
  whose key is held is accepted without a second copy, whoever asks.\<close>

theorem enqueue_durable:
  assumes "queue_ok st" "enqueue env kind sid p t u st = (r, st')"
  defines "key \<equiv> makeDedupKey (qe_sha256 env) (qe_numText env) kind sid p"
  shows "queue_ok st' \<and> (\<forall>g e. stored_at st g e \<longrightarrow> stored_at st' g e) \<and>
    (if er_ok r then \<exists>f e. er_path r = Some f \<and> stored_at st' f e \<and> pe_dedupKey e = key
     else \<forall>g e. stored_at st' g e \<longrightarrow> stored_at st g e) \<and>
    (no_faults env \<and> holds key st \<longrightarrow> er_ok r \<and> er_deduped r \<and> st' = st)"
proof -
  have k: "key = dedup_key env kind sid p" by (simp add: key_def dedup_key_def)
  have "\<exists>f e. er_path r = Some f \<and> stored_at st' f e \<and> pe_dedupKey e = key" if "er_ok r"
    using enqueue_cases [OF assms(2)] that stored_add_file(1) by (fastforce simp: k)
  moreover have "er_ok r \<and> er_deduped r \<and> st' = st" if n: "no_faults env" "holds key st"
  proof -
    obtain f e where "findExistingByDedupKey env key st = Some (f, e)" using find_complete [OF n(1) assms(1) n(2)] by blast
    then show ?thesis using assms(2) n(1) by (auto simp: enqueue_def no_faults_def key_def Let_def)
  qed
  ultimately show ?thesis
    using enqueue_ok_queue [OF assms(2,1)] enqueue_keeps [OF assms(2)] enqueue_refused_keeps [OF assms(2)] by simp
qed

theorem enqueue_durable_witness:
  "\<exists>r st' f e. enqueue (demo_queue_env (\<lambda>n. failed_result)) ''addMessage'' ''s'' JNull None (Some ''ann'') demo_two = (r, st') \<and>
     er_path r = Some f \<and> stored_at st' f e \<and> pe_sessionId e = ''s'' \<and> queue_ok st'"
proof -
  obtain r st' where e: "enqueue (demo_queue_env (\<lambda>n. failed_result)) ''addMessage'' ''s'' JNull None (Some ''ann'') demo_two = (r, st')"
    by fastforce
  have "list_ex (\<lambda>p. case qf_text (snd p) of Stored e \<Rightarrow> True | _ \<Rightarrow> False) (qs_files demo_two)" by code_simp
  have ok: "er_ok (fst (enqueue (demo_queue_env (\<lambda>n. failed_result)) ''addMessage'' ''s'' JNull None (Some ''ann'') demo_two))"
    and n: "\<not> er_deduped (fst (enqueue (demo_queue_env (\<lambda>n. failed_result)) ''addMessage'' ''s'' JNull None (Some ''ann'') demo_two))"
    by code_simp+
  have d: "queue_ok st'" "\<exists>f x. er_path r = Some f \<and> stored_at st' f x"
    using enqueue_durable [OF demo_two_ok e] ok e by auto
  then obtain f x where f: "er_path r = Some f" "stored_at st' f x" by blast
  have "list_all (\<lambda>p. case qf_text (snd p) of Stored e \<Rightarrow> pe_sessionId e = ''s'' | _ \<Rightarrow> True)
      (qs_files (snd (enqueue (demo_queue_env (\<lambda>n. failed_result)) ''addMessage'' ''s'' JNull None (Some ''ann'') demo_two)))"
    by code_simp
  then have "pe_sessionId x = ''s''"
    using f(2) e by (auto simp: stored_at_def list_all_iff dest!: map_of_SomeD split: option.splits)
  then show ?thesis using e d(1) f by blast
qed

text \<open>C34: A replay sends at most its limit, oldest entries first, nothing past its retries, and
  nothing after a message that failed and may be sent again.\<close>

theorem replay_bounded_in_order:
  assumes "queue_ok st" "replayPending env cons st = (r, st')"
  shows "\<exists>new. qs_calls st' = qs_calls st @ new \<and> int (length new) \<le> getReplayLimit env \<and>
    sorted (map (pe_createdAt \<circ> fst) new) \<and>
    (\<forall>(e, call, res) \<in> set new. replay_call env e = Some call \<and> pe_retries e < getMaxRetries env) \<and>
    (\<forall>(e, call, res) \<in> set (butlast new). \<not> (isRetryableFailure (Some res) \<and> pe_type e = ''addMessage''))"
proof -
  obtain items new where i: "sorted (map created_at items)" "qs_calls st' = qs_calls st @ new"
    "sent_run env (map snd items) (getReplayLimit env) new" using replay_run(2) [OF assms] by blast
  let ?c = "\<lambda>it. case it of Some e \<Rightarrow> pe_createdAt e | None \<Rightarrow> (0 :: int)"
  have "map created_at items = map ?c (map snd items)" by (simp add: created_at_def comp_def)
  moreover have "subseq (map ?c (map (Some \<circ> fst) new)) (map ?c (map snd items))"
    using i(3) by (intro subseq_map) (simp add: sent_run_def)
  moreover have "map ?c (map (Some \<circ> fst) new) = map (pe_createdAt \<circ> fst) new" by simp
  ultimately have "sorted (map (pe_createdAt \<circ> fst) new)" using i(1) sorted_nths subseq_conv_nths by metis
  moreover have "0 < getReplayLimit env" by (auto simp: getReplayLimit_def split: option.splits)
  ultimately show ?thesis using i(2,3) by (auto simp: sent_run_def list_all_iff stops_def intro!: exI [of _ new])
qed

theorem replay_bounded_in_order_witness:
  "case replayPending (demo_queue_env (\<lambda>n. demo_result False 503)) True demo_two of
     (r, st') \<Rightarrow> \<exists>new. qs_calls st' = qs_calls demo_two @ new \<and> int (length new) \<le> 2"
proof -
  have "getReplayLimit (demo_queue_env (\<lambda>n. demo_result False 503)) = 2" by code_simp
  then show ?thesis
    using replay_bounded_in_order [OF demo_two_ok, of "demo_queue_env (\<lambda>n. demo_result False 503)" True]
    by (auto split: prod.split)
qed

text \<open>C35: A claim protects a file for ten minutes from when the file was written, not from when
  it was claimed: a claimed entry is listed again by any process exactly when the file is that
  old, so an older entry can be claimed and sent twice at once.\<close>

theorem claim_protects_young_files:
  assumes "no_faults env" "distinct (map fst (qs_files st))" "stored_at st f e"
    and "claimForReplay env f st = (Some c, st1)" "listPending env st1 = (Inr items, st2)"
  shows "f \<in> fst ` set items \<longleftrightarrow> PROCESSING_STALE_MS \<le> qs_now st - qf_mtime (the (map_of (qs_files st) f))"
  using claim_listed [OF assms] .

theorem claim_protects_young_files_witness:
  "\<exists>c st1 items st2. claimForReplay (demo_queue_env (\<lambda>n. failed_result)) ''k1_1.json'' (demo_two\<lparr>qs_now := 600000\<rparr>) = (Some c, st1) \<and>
     listPending (demo_queue_env (\<lambda>n. failed_result)) st1 = (Inr items, st2) \<and> ''k1_1.json'' \<in> fst ` set items \<and>
     fst (claimForReplay (demo_queue_env (\<lambda>n. failed_result)) ''k1_1.json'' st2) \<noteq> None"
proof -
  let ?env = "demo_queue_env (\<lambda>n. failed_result)" and ?st = "demo_two\<lparr>qs_now := 600000\<rparr>"
  obtain c st1 where c: "claimForReplay ?env ''k1_1.json'' ?st = (c, st1)" by fastforce
  obtain items st2 where l: "listPending ?env st1 = (items, st2)" by fastforce
  have "case claimForReplay ?env ''k1_1.json'' ?st of (c, st1) \<Rightarrow> c \<noteq> None \<and>
     (case listPending ?env st1 of (items, st2) \<Rightarrow> (case items of Inr _ \<Rightarrow> True | _ \<Rightarrow> False) \<and>
        fst (claimForReplay ?env ''k1_1.json'' st2) \<noteq> None)" by code_simp
  then obtain c' items' where x: "c = Some c'" "items = Inr items'" "fst (claimForReplay ?env ''k1_1.json'' st2) \<noteq> None"
    using c l by (auto split: sum.splits)
  have n: "no_faults ?env" by (simp add: no_faults_def demo_queue_env_def)
  have d: "distinct (map fst (qs_files ?st))" by code_simp
  have s: "stored_at ?st ''k1_1.json'' (demo_entry ''addMessage'' ''s'' 10 1 ''k1'')"
    by (simp add: stored_at_def demo_two_def demo_queue_def demo_file_def)
  have "PROCESSING_STALE_MS \<le> qs_now ?st - qf_mtime (the (map_of (qs_files ?st) ''k1_1.json''))" by code_simp
  then have "''k1_1.json'' \<in> fst ` set items'"
    using claim_protects_young_files [OF n d s c [unfolded x] l [unfolded x]] by simp
  then show ?thesis using c l x by blast
qed



text \<open>C37: A write that fails half-way blocks its key: once the file is there without an entry,
  every later \<open>enqueue\<close> of the same write is refused and changes nothing, whatever the
  file system does by then.\<close>

theorem half_written_blocks:
  assumes "qe_fault env QMkdir [] = None" "findExistingByDedupKey env (dedup_key env kind sid p) st = None"
    and "qe_fault env QWrite (pendingFilename (dedup_key env kind sid p) 0) = Some (Halfway msg)"
    and "map_of (qs_files st) (pendingFilename (dedup_key env kind sid p) 0) = None"
    and "\<forall>g e. stored_at st g e \<longrightarrow> pe_dedupKey e \<noteq> dedup_key env kind sid p"
    and "enqueue env kind sid p t u st = (r, st1)"
    and "qe_sha256 env' = qe_sha256 env" "qe_numText env' = qe_numText env"
  shows "\<not> er_ok r \<and> \<not> er_ok (fst (enqueue env' kind sid p t' u' st1)) \<and> snd (enqueue env' kind sid p t' u' st1) = st1"
proof -
  let ?k = "dedup_key env kind sid p" and ?f = "pendingFilename (dedup_key env kind sid p) 0"
  have k: "dedup_key env' kind sid p = ?k" by (simp add: dedup_key_def assms(7,8))
  have r: "\<not> er_ok r" "st1 = add_file ?f Garbage st"
    using assms(1-4,6) by (auto simp: enqueue_def Let_def q_write_def simp flip: dedup_key_def)
  obtain r2 st2 where e: "enqueue env' kind sid p t' u' st1 = (r2, st2)" by fastforce
  have g: "map_of (qs_files st1) ?f \<noteq> None" by (simp add: r(2) add_file_at [OF assms(4)])
  have none: "pe_dedupKey x \<noteq> ?k" if "stored_at st1 f x" for f x
    using that assms(5) by (auto simp: r(2) stored_add_file [OF assms(4)] split: if_splits)
  have "\<not> er_ok r2 \<and> st2 = st1"
    using enqueue_cases [OF e, unfolded k] g none by auto
  then show ?thesis using r(1) e by simp
qed

definition full_disk :: queue_env where
  "full_disk = demo_queue_env (\<lambda>n. failed_result)
     \<lparr>qe_fault := \<lambda>op f. if op = QWrite then Some (Halfway ''ENOSPC'') else None\<rparr>"

theorem half_written_blocks_witness:
  "\<not> er_ok (fst (enqueue (demo_queue_env (\<lambda>n. failed_result)) ''addMessage'' ''s'' JNull None None
      (snd (enqueue full_disk ''addMessage'' ''s'' JNull None None (demo_queue [] 0)))))"
proof -
  let ?st = "demo_queue [] 0"
  obtain r st1 where e: "enqueue full_disk ''addMessage'' ''s'' JNull None None ?st = (r, st1)" by fastforce
  have a: "qe_fault full_disk QMkdir [] = None" "findExistingByDedupKey full_disk (dedup_key full_disk ''addMessage'' ''s'' JNull) ?st = None"
    by code_simp+
  have b: "qe_fault full_disk QWrite (pendingFilename (dedup_key full_disk ''addMessage'' ''s'' JNull) 0) = Some (Halfway ''ENOSPC'')"
    "map_of (qs_files ?st) (pendingFilename (dedup_key full_disk ''addMessage'' ''s'' JNull) 0) = None"
    "\<forall>g e. stored_at ?st g e \<longrightarrow> pe_dedupKey e \<noteq> dedup_key full_disk ''addMessage'' ''s'' JNull"
    "qe_sha256 (demo_queue_env (\<lambda>n. failed_result)) = qe_sha256 full_disk"
    "qe_numText (demo_queue_env (\<lambda>n. failed_result)) = qe_numText full_disk"
    by (simp_all add: full_disk_def demo_queue_env_def demo_queue_def stored_at_def)
  show ?thesis using half_written_blocks [OF a b(1-3) e b(4,5)] by (simp add: e)
qed








text \<open>The summary counts an item twice when one that was passed over comes before a message that
  stops the run: three entries, five accounted for.\<close>

lemma deferred_overcounted:
  "case fst (replayPending (demo_queue_env (\<lambda>n. demo_result False 503)) True
      (demo_queue [demo_file ''a_3.json'' (demo_entry ''addMessage'' ''s'' 1 3 ''a''),
         demo_file ''b_3.json'' (demo_entry ''addMessage'' ''s'' 2 3 ''b''),
         demo_file ''c_0.json'' (demo_entry ''addMessage'' ''s'' 3 0 ''c'')] 1000)) of
     Inr c \<Rightarrow> (rc_replayed c, rc_failed c, rc_skipped c, rc_deferred c) = (0, 1, 2, 2)
   | Inl _ \<Rightarrow> False"
  by code_simp



end
