(* ===== verification/Spec2Isabelle.thy ===== *)
theory Spec2Isabelle
  imports KvProperties SafetyProperties NetProperties DiffProperties PendProperties
begin

text \<open>
  The repository is a collection of plugins for an agent host, each a TypeScript package under
  \<open>src/plugins\<close>, with shared packages under \<open>src/packages\<close>. This development models the plugins'
  own decision logic, definition by definition, and proves what each promises. Paths below are
  relative to \<open>src/plugins\<close>.

  \<^bold>\<open>dsh-kv-persist\<close> saves and restores the key-value cache of the one slot of a llama.cpp server,
  so that sessions may take turns on it. \<open>KvConfig\<close> resolves its configuration (\<open>config.ts\<close>).
  \<open>KvIdentity\<close> has the error codes, runtime fingerprints, snapshot identities and file names
  (\<open>errors.ts\<close>, \<open>snapshots/fingerprint.ts\<close>, \<open>snapshots/naming.ts\<close>). \<open>KvManifest\<close> and
  \<open>KvRepository\<close> have the manifest parser and the store of manifests (\<open>snapshots/manifest.ts\<close>,
  \<open>snapshots/repository.ts\<close>), \<open>KvBreaker\<close> the circuit breaker, \<open>KvMutex\<close> the slot lease,
  \<open>KvBackend\<close> the HTTP client and the backend (\<open>backends/llama-cpp\<close>), \<open>KvState\<close> the session
  states, the checkpoint policy and the counters. \<open>KvCoordinator\<close> has every method of
  \<open>SingleSlotCoordinator\<close> (\<open>coordinator/coordinator.ts\<close>) as a function of its private state, and
  \<open>KvSystem\<close> the queue of callers around it: a step relation \<open>kv_step\<close> in which callers arrive, the
  head of the lease queue runs, a stream ends, timers fire, and the backend, clock and files change
  arbitrarily. \<open>KvService\<close> is the service of \<open>service.ts\<close>. \<open>KvInvariant\<close> proves the coordinator's
  invariant operation by operation; \<open>KvProperties\<close> states the promises, over reachable states.

  \<^bold>\<open>dsh-model-safety-gate\<close> checks what a model reads and writes. \<open>SafetyPolicy\<close> has the order of
  decisions, the merge of the scanner's and the classifier's verdicts, the validation of a
  classifier's answer and the check pipeline (\<open>types.ts\<close>, \<open>rules/policy.ts\<close>, \<open>classifier\<close>,
  \<open>pipeline.ts\<close>). \<open>StreamQuarantine\<close> is the buffer of unchecked text (\<open>stream/quarantine.ts\<close>) and
  \<open>StreamGuard\<close> the guard that holds a model's output back until it was checked
  (\<open>guards/output-stream.ts\<close>). \<open>StreamSafety\<close> states what a property of the released text must
  promise about one step (the locale \<open>release_contract\<close>) and lifts it to streams; \<open>StreamPhrase\<close>
  interprets it for the order of the text and for a phrase the scanner blocks; \<open>StreamModes\<close> has
  the modes that do not enforce. \<open>SafetyProperties\<close> states the results.

  \<^bold>\<open>dsh-web-fetch-authenticated\<close> fetches URLs with credentials under an administrator's rules.
  \<open>NetAddress\<close> parses and classifies addresses (\<open>policy/network.ts\<close>), \<open>NetMatch\<close> matches URLs and
  decides redirects (\<open>policy/url.ts\<close>, \<open>policy/match.ts\<close>, \<open>policy/redirect.ts\<close>), \<open>NetFetch\<close> has the
  approval of resolved addresses, the authentication headers, the pipeline of one hop and the
  redirect loop (\<open>policy/dns.ts\<close>, \<open>auth/index.ts\<close>, \<open>transport/fetch.ts\<close>), \<open>NetConfig\<close> the
  validation and the defaults of the configuration (\<open>rule-validation.ts\<close>, \<open>config.ts\<close>) and
  \<open>NetDownload\<close> the downloads (\<open>provider.ts\<close>, \<open>images.ts\<close>). \<open>NetPolicy\<close> and \<open>NetSafety\<close> hold the
  lemmas, \<open>NetProperties\<close> the results.

  \<^bold>\<open>dsh-documents\<close> compares two versions of a document (\<open>documents/comparison\<close>). \<open>DiffTokens\<close> is the
  diff of two token lists (\<open>diff/token-diff.ts\<close>), \<open>DiffText\<close> the tokenizer and the normalization
  (\<open>canonical/tokenizer.ts\<close>, \<open>canonical/normalize.ts\<close>), \<open>DiffSimilarity\<close> the similarity of two texts and
  the detection of moves (\<open>alignment/similarity.ts\<close>, \<open>diff/move-detection.ts\<close>). \<open>DiffRun\<close> has the longest
  increasing run and \<open>DiffAlign\<close> the alignment of two node sequences (\<open>alignment/block-align.ts\<close>), with
  its guarantees in \<open>DiffPairs\<close>. \<open>DiffBlocks\<close> is the change generator (\<open>diff/block-diff.ts\<close>,
  \<open>diff/change-id.ts\<close>), which aligns the nodes of each part, walks the alignment, detects moves and
  descends into tables; \<open>DiffFacts\<close> has its lemmas and \<open>DiffProperties\<close> the results.


  \<^bold>\<open>dsh-openviking-memory\<close> writes what a session says to a memory server and keeps it in a directory of
  files while the server is away. \<open>PendText\<close> has the texts (payloads with sorted keys, digest keys,
  request paths, file names), \<open>PendQueue\<close> every operation of the queue with its error paths
  (\<open>openviking/pending-queue.ts\<close>, \<open>openviking/retryable.ts\<close>) over files, a clock and a fault for each
  file-system call, \<open>PendRuntime\<close> the write path and the drainer of \<open>runtime.ts\<close>: which writes go out
  directly, which are queued, and as which account they are replayed. \<open>PendFacts\<close> says what each
  file-system step does to the keys the directory holds, \<open>PendReplay\<close> carries that through a replay,
  \<open>PendClaims\<close> has enqueueing, any course of operations (the locale \<open>accounting_store\<close>), the life of a
  claim and a replay against a server that answers; \<open>PendProperties\<close> states the results. Processes that
  run at the same time are sequences of operations; the step between a claim and the answer to its
  request is not interleaved with others.
  \<^bold>\<open>Conventions.\<close> A class is a record of its private fields and its methods are functions of it; an
  optional field is an \<open>option\<close>; an exception is the left of a sum; \<open>async\<close> functions are functions of
  a world \<open>'w\<close> that the surroundings may change. What is not in the repository is an argument: digests,
  dates and the \<open>URL\<close> parser (\<open>platform\<close>, \<open>fetch_env\<close>), the HTTP transport, DNS, the credential
  service, the scanner's rules and the classifier's transport. No law is assumed of them except where
  a property's premises name one. \<open>Prelude\<close> has the JavaScript vocabulary (\<open>slice\<close>, \<open>trim\<close>, \<open>split\<close>,
  maps in insertion order) and \<open>Json\<close> parsed JSON documents. Numbers of the configuration are
  \<open>jsnum\<close>, exact rationals with the infinities and NaN named; counters and lengths are naturals, and
  no arithmetic of the modelled code comes near the limit of the safe integers. Strings are HOL
  strings, characters below 256; where case folding or white space matters only those characters
  are covered.

  \<^bold>\<open>Loops.\<close> Every loop of the code that could fail to end is a function with a termination proof or
  carries fuel with a proof that it suffices: \<open>finalizePending\<close> ends because the pending text gets
  shorter, \<open>compile_tokens\<close>, \<open>lcs_walk\<close> and \<open>tokenize_from\<close> consume their input, \<open>align_work\<close> takes the anchors out of the ranges it pushes back, and the redirect loop takes
  \<open>redirect_fuel\<close> (one more than the largest redirect maximum of any rule), which \<open>fetch_ends\<close> shows
  is never used up. The queue of the coordinator may be fed for ever by the host; \<open>queue_drains\<close> says
  that serving it empties it.

  \<^bold>\<open>Interfaces.\<close> \<open>persistence_backend\<close> (what the coordinator asks of a backend), \<open>failure_gate\<close> (what
  it asks of the breaker), \<open>lease_queue\<close> (of the mutex), \<open>manifest_store\<close> (of the repository),
  \<open>release_contract\<close> (what the stream guard asks of a property) and \<open>accounting_store\<close> (what a user of
  the offline queue relies on) are locales, each interpreted on the
  code's own definitions in the theory that provides them.

  \<^bold>\<open>Not modelled.\<close> Logging, audit records and latency counters; the text fetch's adapters and character
  sets; the scanner's table of regular expressions; settings forms and other user interfaces; the
  host glue of each plugin (\<open>index.ts\<close>); and the plugins and packages the manifest lists as such,
  because they are mostly calls into services, stores and pages that are not part of this repository.
\<close>

end
